(* ===== verification/Prelude.thy ===== *)
theory Prelude
  imports Main "HOL-Library.Word"
begin

text \<open>
  Shared vocabulary of the XRT kernel-driver development: the fixed-width integer types
  of the C sources, the error values their functions return, the source of time stamps,
  and the generic facts on words and lists that the component theories use.

  Conventions. A C \<open>u32\<close>/\<open>uint32_t\<close> is a \<open>32 word\<close> and a \<open>u64\<close>/\<open>size_t\<close> a
  \<open>64 word\<close>, so that wrap-around is the machine's. A function that returns \<open>0\<close> or
  \<open>-errno\<close> returns a value of \<open>'a res\<close>, the error on the left; the state it
  leaves behind is returned beside it, because a C function that fails does not undo the
  writes it has already made. \<open>FAULT\<close> is not an errno: it marks the executions in which the
  C code dereferences a null pointer, divides by zero, leaves an array or reaches a
  \<open>BUG_ON\<close>.
\<close>

unbundle bit_operations_syntax

type_synonym u8 = "8 word"
type_synonym u16 = "16 word"
type_synonym u32 = "32 word"
type_synonym u64 = "64 word"

datatype kerr =
    EINVAL | EBUSY | EAGAIN | ENOMEM | ENOSYS | ENOSPC | ENOENT | E2BIG
  | EOPNOTSUPP | EPROTO | EFAULT | ERESTARTSYS | ENOTTY | FAULT

type_synonym 'a res = "kerr + 'a"

text \<open>
  The readings \<open>ktime_get()\<close> will return, one after the other: \<open>ktime_get\<close> hands out the
  first of them and keeps the rest.
\<close>

type_synonym clock = "nat \<Rightarrow> u64"

definition ktime_get :: "clock \<Rightarrow> u64 \<times> clock" where
  "ktime_get c = (c 0, \<lambda>n. c (Suc n))"

named_theorems wrap_simps \<open>arithmetic of counters that wrap at a power of two\<close>

subsection \<open>Words as wrapping counters\<close>

lemma unat_of_nat_small [wrap_simps]:
  "n < 2 ^ LENGTH('a) \<Longrightarrow> unat (of_nat n :: 'a::len word) = n"
  by (simp add: unat_of_nat)

lemma of_nat_word_eq_iff [wrap_simps]:
  "m < 2 ^ LENGTH('a) \<Longrightarrow> n < 2 ^ LENGTH('a) \<Longrightarrow>
    (of_nat m = (of_nat n :: 'a::len word)) = (m = n)"
  by (metis unat_of_nat_small)

lemma of_nat_u32_eq_0_iff [wrap_simps]:
  "n < 2 ^ 32 \<Longrightarrow> (of_nat n = (0::u32)) = (n = 0)"
  using of_nat_word_eq_iff [where 'a = 32, of n 0] by simp

text \<open>
  The distance between two positions of a counter that started at \<open>b\<close>: wherever the
  counter wraps, the word difference is the true distance, as long as that fits.
\<close>

lemma counter_diff [wrap_simps]:
  "m \<le> n \<Longrightarrow> (b + of_nat n) - (b + of_nat m) = (of_nat (n - m) :: 'a::len word)"
  by simp

lemma counter_eq_iff [wrap_simps]:
  "m \<le> n \<Longrightarrow> n - m < 2 ^ LENGTH('a) \<Longrightarrow>
    ((b + of_nat n :: 'a::len word) = b + of_nat m) = (n = m)"
  by (metis add_left_cancel counter_diff diff_is_0_eq diff_self le_antisym of_nat_0
      unat_0 unat_of_nat_small)

lemma unat_counter_mod:
  assumes "k \<le> LENGTH('a)"
  shows "unat (b + of_nat i :: 'a::len word) mod 2 ^ k = (unat b + i) mod 2 ^ k"
proof -
  have "(2::nat) ^ k dvd 2 ^ LENGTH('a)" using assms by (rule le_imp_power_dvd)
  then show ?thesis
    by (simp add: unat_word_ariths unat_of_nat mod_mod_cancel mod_simps)
qed

text \<open>Masking with \<open>n - 1\<close> is the remainder modulo \<open>n\<close> when \<open>n\<close> is a power of two.\<close>

lemma unat_and_pow2_minus_1:
  "k < LENGTH('a) \<Longrightarrow> unat (x AND (2 ^ k - 1) :: 'a::len word) = unat x mod 2 ^ k"
  by (metis mask_eq_exp_minus_1 take_bit_eq_mask take_bit_eq_mod unsigned_take_bit_eq)

end
