(* ===== verification/Xgq.thy ===== *)
theory Xgq
  imports Prelude
begin

text \<open>
  The XGQ queue of \<open>core/include/xgq_impl.h\<close>: a submission ring (SQ) and a completion ring
  (CQ) in memory that a client and a server share. The model is the build for the xocl
  platform (\<open>xgq_xocl_plat.h\<close>): registers and memory are one 32-bit wide address space and
  the I/O handle is ignored; \<open>BRAM_COLLISION_WORKAROUND\<close>, \<open>XGQ_OUT_OF_ORDER_WRITE\<close> and
  \<open>XGQ_MEM_REG_ACCESS_DIFFER\<close> are off. The compile-time switch \<open>XGQ_SERVER\<close>, which says
  whether the code is the server's or the client's, is the argument \<open>srv\<close>.
\<close>

section \<open>Shared memory and the platform accessors\<close>

type_synonym mem = "u64 \<Rightarrow> u32"

definition xgq_mem_write32 :: "mem \<Rightarrow> u64 \<Rightarrow> u64 \<Rightarrow> u32 \<Rightarrow> mem" where
  "xgq_mem_write32 m io_hdl addr val = m(addr := val)"

definition xgq_reg_write32 :: "mem \<Rightarrow> u64 \<Rightarrow> u64 \<Rightarrow> u32 \<Rightarrow> mem" where
  "xgq_reg_write32 m io_hdl addr val = m(addr := val)"

definition xgq_mem_read32 :: "mem \<Rightarrow> u64 \<Rightarrow> u64 \<Rightarrow> u32" where
  "xgq_mem_read32 m io_hdl addr = m addr"

definition xgq_reg_read32 :: "mem \<Rightarrow> u64 \<Rightarrow> u64 \<Rightarrow> u32" where
  "xgq_reg_read32 m io_hdl addr = m addr"

definition xgq_read32 :: "mem \<Rightarrow> u64 \<Rightarrow> u64 \<Rightarrow> bool \<Rightarrow> u32" where
  "xgq_read32 m io_hdl addr is_mem = xgq_reg_read32 m io_hdl addr"

definition xgq_write32 :: "mem \<Rightarrow> u64 \<Rightarrow> u64 \<Rightarrow> u32 \<Rightarrow> bool \<Rightarrow> mem" where
  "xgq_write32 m io_hdl addr val is_mem = xgq_reg_write32 m io_hdl addr val"

text \<open>
  \<open>xgq_double_read32\<close> reads a location until two successive reads agree. The location may
  change under it, so the reads are a sequence \<open>rd\<close>; \<open>double_read_loop\<close> is the \<open>while\<close> loop
  with its array \<open>val\<close> and its counter \<open>i\<close>, and \<open>None\<close> is a loop that never ends.
\<close>

partial_function (option) double_read_loop ::
  "(nat \<Rightarrow> u32) \<Rightarrow> nat \<Rightarrow> u32 \<Rightarrow> u32 \<Rightarrow> u32 option" where
  "double_read_loop rd i val0 val1 =
     (if val0 \<noteq> val1
      then (if even i then double_read_loop rd (Suc i) (rd (Suc i)) val1
            else double_read_loop rd (Suc i) val0 (rd (Suc i)))
      else Some val0)"

declare double_read_loop.simps [code]

definition xgq_double_read_seq :: "(nat \<Rightarrow> u32) \<Rightarrow> u32 option" where
  "xgq_double_read_seq rd = double_read_loop rd 0 (rd 0 - 1) (rd 0)"

text \<open>Where nothing else writes the location, every read returns the same word.\<close>

definition xgq_double_read32 :: "mem \<Rightarrow> u64 \<Rightarrow> u64 \<Rightarrow> bool \<Rightarrow> u32" where
  "xgq_double_read32 m io_hdl addr is_mem =
     (case xgq_double_read_seq (\<lambda>_. xgq_read32 m io_hdl addr is_mem) of
        Some v \<Rightarrow> v | None \<Rightarrow> 0)"

section \<open>Headers, rings and queues\<close>

abbreviation (input) XGQ_ALLOC_MAGIC :: u32 where "XGQ_ALLOC_MAGIC \<equiv> 0x5847513F"
abbreviation (input) XGQ_MAJOR :: u32 where "XGQ_MAJOR \<equiv> 1"
abbreviation (input) XGQ_VERSION :: u32 where "XGQ_VERSION \<equiv> 0x10000"
abbreviation (input) XGQ_MIN_NUM_SLOTS :: u32 where "XGQ_MIN_NUM_SLOTS \<equiv> 2"
abbreviation (input) XGQ_DOUBLE_READ :: u32 where "XGQ_DOUBLE_READ \<equiv> 2"
abbreviation (input) XGQ_IN_MEM_PROD :: u32 where "XGQ_IN_MEM_PROD \<equiv> 4"
abbreviation (input) XGQ_INTR_ENABLE_OFFSET :: u64 where "XGQ_INTR_ENABLE_OFFSET \<equiv> 12"
abbreviation (input) xgq_header_size :: u64 where "xgq_header_size \<equiv> 44"
abbreviation (input) com_queue_entry_size :: u64 where "com_queue_entry_size \<equiv> 16"

record xgq_header =
  xh_magic :: u32
  xh_version :: u32
  xh_slot_num :: u32
  xh_sq_offset :: u32
  xh_sq_slot_size :: u32
  xh_cq_offset :: u32
  xh_sq_consumed :: u32
  xh_cq_consumed :: u32
  xh_flags :: u32
  xh_sq_produced :: u32
  xh_cq_produced :: u32

record xgq_ring =
  xr_slot_num :: u32
  xr_slot_sz :: u32
  xr_produced :: u32
  xr_consumed :: u32
  xr_produced_addr :: u64
  xr_consumed_addr :: u64
  xr_slot_addr :: u64

record xgq =
  xq_io_hdl :: u64
  xq_header_addr :: u64
  xq_flags :: u32
  xq_sq :: xgq_ring
  xq_cq :: xgq_ring

definition XGQ_NEED_DOUBLE_READ :: "u32 \<Rightarrow> bool" where
  "XGQ_NEED_DOUBLE_READ flags = (flags AND XGQ_DOUBLE_READ \<noteq> 0)"

definition XGQ_IS_IN_MEM_PROD :: "u32 \<Rightarrow> bool" where
  "XGQ_IS_IN_MEM_PROD flags = (flags AND XGQ_IN_MEM_PROD \<noteq> 0)"

text \<open>The header as the consecutive words of the struct, and back.\<close>

definition header_words :: "xgq_header \<Rightarrow> u32 list" where
  "header_words h = [xh_magic h, xh_version h, xh_slot_num h, xh_sq_offset h, xh_sq_slot_size h,
     xh_cq_offset h, xh_sq_consumed h, xh_cq_consumed h, xh_flags h, xh_sq_produced h,
     xh_cq_produced h]"

definition words_header :: "u32 list \<Rightarrow> xgq_header" where
  "words_header w = \<lparr>xh_magic = w ! 0, xh_version = w ! 1, xh_slot_num = w ! 2,
     xh_sq_offset = w ! 3, xh_sq_slot_size = w ! 4, xh_cq_offset = w ! 5, xh_sq_consumed = w ! 6,
     xh_cq_consumed = w ! 7, xh_flags = w ! 8, xh_sq_produced = w ! 9, xh_cq_produced = w ! 10\<rparr>"

section \<open>Helper routines\<close>

definition xgq_ring_len :: "u64 \<Rightarrow> u64 \<Rightarrow> u64" where
  "xgq_ring_len nslots slotsz = xgq_header_size + nslots * (slotsz + com_queue_entry_size)"

fun xgq_copy_to_ring :: "mem \<Rightarrow> u64 \<Rightarrow> u32 list \<Rightarrow> u64 \<Rightarrow> mem" where
  "xgq_copy_to_ring m io_hdl [] tgt = m"
| "xgq_copy_to_ring m io_hdl (w # ws) tgt =
     xgq_copy_to_ring (xgq_mem_write32 m io_hdl tgt w) io_hdl ws (tgt + 4)"

fun xgq_copy_from_ring :: "mem \<Rightarrow> u64 \<Rightarrow> u64 \<Rightarrow> nat \<Rightarrow> u32 list" where
  "xgq_copy_from_ring m io_hdl src 0 = []"
| "xgq_copy_from_ring m io_hdl src (Suc n) =
     xgq_mem_read32 m io_hdl src # xgq_copy_from_ring m io_hdl (src + 4) n"

definition xgq_init_ring :: "u64 \<Rightarrow> u64 \<Rightarrow> u64 \<Rightarrow> u32 \<Rightarrow> u32 \<Rightarrow> xgq_ring" where
  "xgq_init_ring produced consumed slots slot_num slot_size =
     \<lparr>xr_slot_num = slot_num, xr_slot_sz = slot_size, xr_produced = 0, xr_consumed = 0,
      xr_produced_addr = produced, xr_consumed_addr = consumed, xr_slot_addr = slots\<rparr>"

definition xgq_ring_full :: "xgq_ring \<Rightarrow> bool" where
  "xgq_ring_full r = (xr_produced r - xr_consumed r \<ge> xr_slot_num r)"

definition xgq_ring_empty :: "xgq_ring \<Rightarrow> bool" where
  "xgq_ring_empty r = (xr_produced r = xr_consumed r)"

text \<open>The ring accessors read the flags of the queue they belong to (\<open>xr_xgq\<close>): \<open>flags\<close>.\<close>

definition xgq_ring_read_produced :: "mem \<Rightarrow> u64 \<Rightarrow> u32 \<Rightarrow> xgq_ring \<Rightarrow> xgq_ring" where
  "xgq_ring_read_produced m io_hdl flags r =
     (if XGQ_NEED_DOUBLE_READ flags
      then r\<lparr>xr_produced := xgq_double_read32 m io_hdl (xr_produced_addr r) (XGQ_IS_IN_MEM_PROD flags)\<rparr>
      else r\<lparr>xr_produced := xgq_read32 m io_hdl (xr_produced_addr r) (XGQ_IS_IN_MEM_PROD flags)\<rparr>)"

definition xgq_ring_write_produced :: "mem \<Rightarrow> u64 \<Rightarrow> u32 \<Rightarrow> xgq_ring \<Rightarrow> mem" where
  "xgq_ring_write_produced m io_hdl flags r =
     xgq_write32 m io_hdl (xr_produced_addr r) (xr_produced r) (XGQ_IS_IN_MEM_PROD flags)"

definition xgq_ring_read_consumed :: "mem \<Rightarrow> u64 \<Rightarrow> u32 \<Rightarrow> xgq_ring \<Rightarrow> xgq_ring" where
  "xgq_ring_read_consumed m io_hdl flags r =
     (if XGQ_NEED_DOUBLE_READ flags
      then r\<lparr>xr_consumed := xgq_double_read32 m io_hdl (xr_consumed_addr r) True\<rparr>
      else r\<lparr>xr_consumed := xgq_mem_read32 m io_hdl (xr_consumed_addr r)\<rparr>)"

definition xgq_ring_write_consumed :: "mem \<Rightarrow> u64 \<Rightarrow> xgq_ring \<Rightarrow> mem" where
  "xgq_ring_write_consumed m io_hdl r =
     xgq_mem_write32 m io_hdl (xr_consumed_addr r) (xr_consumed r)"

definition xgq_ring_slot_ptr_produced :: "xgq_ring \<Rightarrow> u64" where
  "xgq_ring_slot_ptr_produced r =
     xr_slot_addr r + ucast (xr_slot_sz r * (xr_produced r AND (xr_slot_num r - 1)))"

definition xgq_ring_slot_ptr_consumed :: "xgq_ring \<Rightarrow> u64" where
  "xgq_ring_slot_ptr_consumed r =
     xr_slot_addr r + ucast (xr_slot_sz r * (xr_consumed r AND (xr_slot_num r - 1)))"

text \<open>The ring a side produces into and the one it consumes from, chosen by \<open>XGQ_SERVER\<close>.\<close>

definition prod_ring :: "bool \<Rightarrow> xgq \<Rightarrow> xgq_ring" where
  "prod_ring srv q = (if srv then xq_cq q else xq_sq q)"

definition set_prod_ring :: "bool \<Rightarrow> xgq_ring \<Rightarrow> xgq \<Rightarrow> xgq" where
  "set_prod_ring srv r q = (if srv then q\<lparr>xq_cq := r\<rparr> else q\<lparr>xq_sq := r\<rparr>)"

definition cons_ring :: "bool \<Rightarrow> xgq \<Rightarrow> xgq_ring" where
  "cons_ring srv q = (if srv then xq_sq q else xq_cq q)"

definition set_cons_ring :: "bool \<Rightarrow> xgq_ring \<Rightarrow> xgq \<Rightarrow> xgq" where
  "set_cons_ring srv r q = (if srv then q\<lparr>xq_sq := r\<rparr> else q\<lparr>xq_cq := r\<rparr>)"

definition xgq_can_produce :: "bool \<Rightarrow> mem \<Rightarrow> xgq \<Rightarrow> bool \<times> xgq" where
  "xgq_can_produce srv m q =
     (let ring = prod_ring srv q in
      if \<not> xgq_ring_full ring then (True, q)
      else let ring' = xgq_ring_read_consumed m (xq_io_hdl q) (xq_flags q) ring
           in (\<not> xgq_ring_full ring', set_prod_ring srv ring' q))"

definition xgq_can_consume :: "bool \<Rightarrow> mem \<Rightarrow> xgq \<Rightarrow> bool \<times> xgq" where
  "xgq_can_consume srv m q =
     (let ring = cons_ring srv q in
      if \<not> xgq_ring_empty ring then (True, q)
      else let ring' = xgq_ring_read_produced m (xq_io_hdl q) (xq_flags q) ring
           in (\<not> xgq_ring_empty ring', set_cons_ring srv ring' q))"

definition xgq_fast_forward :: "mem \<Rightarrow> u64 \<Rightarrow> u32 \<Rightarrow> xgq_ring \<Rightarrow> xgq_ring" where
  "xgq_fast_forward m io_hdl flags r =
     xgq_ring_read_consumed m io_hdl flags (xgq_ring_read_produced m io_hdl flags r)"

definition xgq_soft_reset :: "mem \<Rightarrow> u64 \<Rightarrow> u32 \<Rightarrow> xgq_ring \<Rightarrow> xgq_ring \<times> mem" where
  "xgq_soft_reset m io_hdl flags r =
     (let r1 = xgq_ring_read_produced m io_hdl flags r;
          r2 = r1\<lparr>xr_consumed := xr_produced r1\<rparr>
      in (r2, xgq_ring_write_consumed m io_hdl r2))"

section \<open>Setting a queue up\<close>

text \<open>
  \<open>xgq_init\<close> assigns every field of the queue, so the model builds it. The header is written
  with a zero magic first and the magic last.
\<close>

definition xgq_init :: "mem \<Rightarrow> u64 \<Rightarrow> u64 \<Rightarrow> u64 \<Rightarrow> u64 \<Rightarrow> u32 \<Rightarrow> u64 \<Rightarrow> u64 \<Rightarrow> xgq \<times> mem" where
  "xgq_init m flags io_hdl ring_addr n_slots slot_size sq_produced cq_produced =
     (let xflags = ucast flags :: u32;
          in_mem = XGQ_IS_IN_MEM_PROD xflags;
          sqprod = (if in_mem then ring_addr + 36 else sq_produced);
          cqprod = (if in_mem then ring_addr + 40 else cq_produced);
          m1 = (if in_mem then m
                else xgq_reg_write32 m io_hdl (cqprod + XGQ_INTR_ENABLE_OFFSET) 1);
          sq = xgq_init_ring sqprod (ring_addr + 24) (ring_addr + xgq_header_size)
                 (ucast n_slots) slot_size;
          cq = xgq_init_ring cqprod (ring_addr + 28)
                 (ring_addr + xgq_header_size + n_slots * ucast slot_size)
                 (ucast n_slots) (ucast com_queue_entry_size);
          hdr = \<lparr>xh_magic = 0, xh_version = XGQ_VERSION, xh_slot_num = ucast n_slots,
                 xh_sq_offset = ucast (xr_slot_addr sq - ring_addr), xh_sq_slot_size = slot_size,
                 xh_cq_offset = ucast (xr_slot_addr cq - ring_addr), xh_sq_consumed = 0,
                 xh_cq_consumed = 0, xh_flags = xflags, xh_sq_produced = 0, xh_cq_produced = 0\<rparr>;
          m2 = xgq_copy_to_ring m1 io_hdl (header_words hdr) ring_addr;
          (sq', m3) = xgq_soft_reset m2 io_hdl xflags sq;
          (cq', m4) = xgq_soft_reset m3 io_hdl xflags cq;
          m5 = xgq_copy_to_ring m4 io_hdl [XGQ_ALLOC_MAGIC] ring_addr
      in (\<lparr>xq_io_hdl = io_hdl, xq_header_addr = ring_addr, xq_flags = xflags,
           xq_sq = sq', xq_cq = cq'\<rparr>, m5))"

text \<open>
  The search for the number of slots. \<open>numslots\<close> is \<open>1\<close> shifted left by \<open>k\<close>, so the
  condition \<open>numslots < 0x1U << 31\<close> is \<open>k < 31\<close>. \<open>total_len\<close> is 32 bits wide and is compared
  with the 64-bit length.
\<close>

definition total_ring_len :: "u32 \<Rightarrow> u32 list \<Rightarrow> u32" where
  "total_ring_len numslots slot_size =
     foldl (\<lambda>total sz. total + ucast (xgq_ring_len (ucast numslots) (ucast sz))) 0 slot_size"

function num_slots_loop :: "u64 \<Rightarrow> u32 list \<Rightarrow> nat \<Rightarrow> u32 \<Rightarrow> u32" where
  "num_slots_loop rlen slot_size k total_len =
     (if ucast total_len \<le> rlen \<and> k < 31
      then num_slots_loop rlen slot_size (Suc k)
             (total_ring_len (push_bit (Suc k) 1) slot_size)
      else push_bit k 1)"
  by pat_completeness auto
termination
  by (relation "measure (\<lambda>(rlen, slot_size, k, total_len). 31 - k)") auto

declare num_slots_loop.simps [simp del]

definition xgq_alloc_num_slots :: "u64 \<Rightarrow> u32 list \<Rightarrow> u32" where
  "xgq_alloc_num_slots rlen slot_size = drop_bit 1 (num_slots_loop rlen slot_size 0 0)"

definition xgq_alloc ::
  "mem \<Rightarrow> u64 \<Rightarrow> u64 \<Rightarrow> u64 \<Rightarrow> u64 \<Rightarrow> u32 \<Rightarrow> u64 \<Rightarrow> u64 \<Rightarrow> (xgq \<times> u64 \<times> mem) res" where
  "xgq_alloc m flags io_hdl ring_addr ring_len slot_size sq_produced cq_produced =
     (if slot_size mod 4 \<noteq> 0 then Inl EINVAL
      else let numslots = xgq_alloc_num_slots ring_len [slot_size] in
           if numslots < XGQ_MIN_NUM_SLOTS then Inl E2BIG
           else let (q, m') = xgq_init m flags io_hdl ring_addr (ucast numslots) slot_size
                                sq_produced cq_produced
                in Inr (q, xgq_ring_len (ucast numslots) (ucast slot_size), m'))"

fun group_init :: "mem \<Rightarrow> u64 \<Rightarrow> u64 \<Rightarrow> u64 \<Rightarrow> u32 \<Rightarrow> u32 list \<Rightarrow> xgq list \<times> u64 \<times> mem" where
  "group_init m flags io_hdl raddr numslots [] = ([], raddr, m)"
| "group_init m flags io_hdl raddr numslots (sz # szs) =
     (let (q, m1) = xgq_init m flags io_hdl raddr (ucast numslots) sz 0 0;
          (qs, raddr', m2) = group_init m1 flags io_hdl
             (raddr + xgq_ring_len (ucast numslots) (ucast sz)) numslots szs
      in (q # qs, raddr', m2))"

definition xgq_group_alloc ::
  "mem \<Rightarrow> u64 \<Rightarrow> u64 \<Rightarrow> u64 \<Rightarrow> u64 \<Rightarrow> u32 list \<Rightarrow> u32 \<Rightarrow> (xgq list \<times> u64 \<times> mem) res" where
  "xgq_group_alloc m flags io_hdl ring_addr ring_len a_slot_size max_slots =
     (let flags' = flags OR ucast XGQ_IN_MEM_PROD in
      if \<exists>sz \<in> set a_slot_size. sz mod 4 \<noteq> 0 then Inl EINVAL
      else let n = xgq_alloc_num_slots ring_len a_slot_size in
           if n < XGQ_MIN_NUM_SLOTS then Inl E2BIG
           else let numslots = (if max_slots \<noteq> 0 \<and> n > max_slots then max_slots else n);
                    (qs, raddr, m') = group_init m flags' io_hdl ring_addr numslots a_slot_size
                in Inr (qs, raddr - ring_addr, m'))"

text \<open>
  \<open>xgq_attach\<close> keeps the I/O handle and the header address the caller left in the queue: it
  assigns neither, and does not use its argument \<open>io_hdl\<close>.
\<close>

definition xgq_attach ::
  "mem \<Rightarrow> xgq \<Rightarrow> u64 \<Rightarrow> u64 \<Rightarrow> u64 \<Rightarrow> u64 \<Rightarrow> u64 \<Rightarrow> (xgq \<times> mem) res" where
  "xgq_attach m q flags io_hdl ring_addr sq_produced cq_produced =
     (if xgq_copy_from_ring m (xq_io_hdl q) ring_addr 1 \<noteq> [XGQ_ALLOC_MAGIC] then Inl EAGAIN
      else let hdr = words_header (xgq_copy_from_ring m (xq_io_hdl q) ring_addr 11) in
        if drop_bit 16 (xh_version hdr) \<noteq> XGQ_MAJOR then Inl EOPNOTSUPP
        else let nslots = xh_slot_num hdr in
          if nslots < XGQ_MIN_NUM_SLOTS \<or> nslots AND (nslots - 1) \<noteq> 0 then Inl EPROTO
          else let xflags = (ucast flags OR (xh_flags hdr AND XGQ_DOUBLE_READ))
                              OR (xh_flags hdr AND XGQ_IN_MEM_PROD);
                   in_mem = XGQ_IS_IN_MEM_PROD xflags;
                   sqprod = (if in_mem then ring_addr + 36 else sq_produced);
                   cqprod = (if in_mem then ring_addr + 40 else cq_produced);
                   m1 = (if in_mem then m
                         else xgq_reg_write32 m (xq_io_hdl q) (sqprod + XGQ_INTR_ENABLE_OFFSET) 1);
                   sq = xgq_init_ring sqprod (ring_addr + 24)
                          (ring_addr + ucast (xh_sq_offset hdr)) (xh_slot_num hdr)
                          (xh_sq_slot_size hdr);
                   cq = xgq_init_ring cqprod (ring_addr + 28)
                          (ring_addr + ucast (xh_cq_offset hdr)) (xh_slot_num hdr)
                          (ucast com_queue_entry_size)
               in Inr (q\<lparr>xq_flags := xflags,
                         xq_sq := xgq_fast_forward m1 (xq_io_hdl q) xflags sq,
                         xq_cq := xgq_fast_forward m1 (xq_io_hdl q) xflags cq\<rparr>, m1))"

section \<open>Producing and consuming entries\<close>

definition xgq_produce :: "bool \<Rightarrow> mem \<Rightarrow> xgq \<Rightarrow> u64 res \<times> xgq" where
  "xgq_produce srv m q =
     (let (ok, q1) = xgq_can_produce srv m q in
      if \<not> ok then (Inl ENOSPC, q1)
      else let ring = prod_ring srv q1
           in (Inr (xgq_ring_slot_ptr_produced ring),
               set_prod_ring srv (ring\<lparr>xr_produced := xr_produced ring + 1\<rparr>) q1))"

definition xgq_consume :: "bool \<Rightarrow> mem \<Rightarrow> xgq \<Rightarrow> u64 res \<times> xgq" where
  "xgq_consume srv m q =
     (let (ok, q1) = xgq_can_consume srv m q in
      if \<not> ok then (Inl ENOENT, q1)
      else let ring = cons_ring srv q1
           in (Inr (xgq_ring_slot_ptr_consumed ring),
               set_cons_ring srv (ring\<lparr>xr_consumed := xr_consumed ring + 1\<rparr>) q1))"

definition xgq_notify_peer_produced :: "bool \<Rightarrow> mem \<Rightarrow> xgq \<Rightarrow> mem" where
  "xgq_notify_peer_produced srv m q =
     xgq_ring_write_produced m (xq_io_hdl q) (xq_flags q) (prod_ring srv q)"

definition xgq_notify_peer_consumed :: "bool \<Rightarrow> mem \<Rightarrow> xgq \<Rightarrow> mem" where
  "xgq_notify_peer_consumed srv m q =
     xgq_ring_write_consumed m (xq_io_hdl q) (cons_ring srv q)"

section \<open>Reading and writing runs of words\<close>

named_theorems xgq_io_defs \<open>the platform accessors, as updates and applications of the memory\<close>

declare xgq_mem_write32_def [xgq_io_defs] xgq_reg_write32_def [xgq_io_defs]
  xgq_mem_read32_def [xgq_io_defs] xgq_reg_read32_def [xgq_io_defs]
  xgq_read32_def [xgq_io_defs] xgq_write32_def [xgq_io_defs]

lemma xgq_double_read32_stable [xgq_io_defs]: "xgq_double_read32 m hdl addr is_mem = m addr"
  by (simp add: xgq_double_read32_def xgq_double_read_seq_def double_read_loop.simps xgq_io_defs)

lemma xgq_ring_read_produced_eq [xgq_io_defs]:
  "xgq_ring_read_produced m hdl flags r = r\<lparr>xr_produced := m (xr_produced_addr r)\<rparr>"
  by (simp add: xgq_ring_read_produced_def xgq_io_defs)

lemma xgq_ring_read_consumed_eq [xgq_io_defs]:
  "xgq_ring_read_consumed m hdl flags r = r\<lparr>xr_consumed := m (xr_consumed_addr r)\<rparr>"
  by (simp add: xgq_ring_read_consumed_def xgq_io_defs)

lemma xgq_copy_from_ring_eq:
  "xgq_copy_from_ring m hdl src n = map (\<lambda>j. m (src + of_nat (4 * j))) [0..<n]"
proof (induction n arbitrary: src)
  case 0
  show ?case by simp
next
  case (Suc n)
  have "[0..<Suc n] = 0 # map Suc [0..<n]"
    by (simp add: map_Suc_upt upt_conv_Cons del: upt_Suc)
  then show ?case
    by (simp add: Suc.IH xgq_io_defs algebra_simps comp_def del: upt_Suc)
qed

lemma xgq_copy_to_ring_other:
  "\<forall>j < length ws. x \<noteq> tgt + of_nat (4 * j) \<Longrightarrow> xgq_copy_to_ring m hdl ws tgt x = m x"
proof (induction ws arbitrary: m tgt)
  case Nil
  then show ?case by simp
next
  case (Cons w ws)
  have "x \<noteq> tgt" using Cons.prems by fastforce
  moreover have "\<forall>j < length ws. x \<noteq> (tgt + 4) + of_nat (4 * j)"
    using Cons.prems by (metis (no_types, lifting) add.assoc add.commute length_Cons
        mult_Suc_right not_less_eq of_nat_add of_nat_numeral)
  ultimately show ?case by (simp add: Cons.IH xgq_io_defs)
qed

text \<open>A run of fewer than \<open>2 ^ 62\<close> words has distinct addresses, so what was written is read.\<close>

lemma cell_inj:
  fixes a :: u64
  assumes "i < 2 ^ 62" and "j < 2 ^ 62"
  shows "(a + of_nat (4 * i) = a + of_nat (4 * j)) = (i = j)"
  using of_nat_word_eq_iff [where 'a = 64, of "4 * i" "4 * j"] assms by simp

lemma xgq_copy_to_ring_at:
  "length ws < 2 ^ 62 \<Longrightarrow> j < length ws \<Longrightarrow>
    xgq_copy_to_ring m hdl ws tgt (tgt + of_nat (4 * j)) = ws ! j"
proof (induction ws arbitrary: m tgt j)
  case Nil
  then show ?case by simp
next
  case (Cons w ws)
  show ?case
  proof (cases j)
    case 0
    have "\<forall>i < length ws. tgt \<noteq> (tgt + 4) + of_nat (4 * i)"
    proof (intro allI impI)
      fix i assume "i < length ws"
      then have "(tgt + of_nat (4 * 0) = tgt + of_nat (4 * Suc i)) = (0 = Suc i)"
        using Cons.prems by (intro cell_inj) auto
      then show "tgt \<noteq> (tgt + 4) + of_nat (4 * i)" by (simp add: algebra_simps)
    qed
    then show ?thesis using 0 by (simp add: xgq_copy_to_ring_other xgq_io_defs)
  next
    case (Suc j')
    have eq: "tgt + of_nat (4 * j) = (tgt + 4) + of_nat (4 * j')"
      using Suc by simp
    have "length ws < 2 ^ 62" and "j' < length ws" using Suc Cons.prems by auto
    then show ?thesis unfolding eq using Suc by (simp add: Cons.IH del: of_nat_mult)
  qed
qed

lemma copy_from_copy_to_ring:
  assumes "length ws < 2 ^ 62"
  shows "xgq_copy_from_ring (xgq_copy_to_ring m hdl ws tgt) hdl' tgt (length ws) = ws"
  unfolding xgq_copy_from_ring_eq
proof (rule nth_equalityI)
  fix j assume "j < length (map (\<lambda>j. xgq_copy_to_ring m hdl ws tgt (tgt + of_nat (4 * j)))
                          [0..<length ws])"
  then have j: "j < length ws" by simp
  show "map (\<lambda>j. xgq_copy_to_ring m hdl ws tgt (tgt + of_nat (4 * j))) [0..<length ws] ! j = ws ! j"
    using xgq_copy_to_ring_at [OF assms j] j by (simp del: of_nat_mult)
qed simp

end
