(* ===== verification/Xgq_Fifo.thy ===== *)
theory Xgq_Fifo
  imports Xgq
begin

text \<open>
  The protocol that \<open>xgq_impl.h\<close> describes as its typical flow: a client and a server, each
  with its own copy of the queue's state, exchange entries through the shared memory. The
  state keeps, beside the memory and the two queues, the entries each side has produced and
  the entries its peer has consumed. The theorems show that the two rings are bounded FIFOs:
  whatever the interleaving, and however often the 32-bit counters wrap, each side consumes
  exactly what the other produced, in order.
\<close>

section \<open>Two sides and the steps they take\<close>

type_synonym entry = "u32 list"

text \<open>
  \<open>sy_q srv\<close> is the queue of the server (\<open>True\<close>) or the client (\<open>False\<close>). \<open>sent p\<close> and \<open>rcvd p\<close>
  are about the entries that side \<open>p\<close> produces: the client's are in the SQ, the server's in
  the CQ.
\<close>

record xgq_sys =
  sy_mem :: mem
  sy_q :: "bool \<Rightarrow> xgq"
  sent :: "bool \<Rightarrow> entry list"
  rcvd :: "bool \<Rightarrow> entry list"

definition slot_words :: "xgq_ring \<Rightarrow> nat" where
  "slot_words r = unat (xr_slot_sz r) div 4"

text \<open>Produce an entry and fill it up; with no free slot the entry is refused.\<close>

definition sys_produce :: "bool \<Rightarrow> entry \<Rightarrow> xgq_sys \<Rightarrow> unit res \<times> xgq_sys" where
  "sys_produce p e s =
     (let (r, q') = xgq_produce p (sy_mem s) (sy_q s p);
          s' = s\<lparr>sy_q := (sy_q s)(p := q')\<rparr>
      in case r of
           Inl err \<Rightarrow> (Inl err, s')
         | Inr slot \<Rightarrow> (Inr (), s'\<lparr>sy_mem := xgq_copy_to_ring (sy_mem s) (xq_io_hdl q') e slot,
                                  sent := (sent s)(p := sent s p @ [e])\<rparr>))"

definition sys_notify_produced :: "bool \<Rightarrow> xgq_sys \<Rightarrow> xgq_sys" where
  "sys_notify_produced p s = s\<lparr>sy_mem := xgq_notify_peer_produced p (sy_mem s) (sy_q s p)\<rparr>"

text \<open>The peer of producer \<open>p\<close> consumes an entry and copies it out of its slot.\<close>

definition sys_consume :: "bool \<Rightarrow> xgq_sys \<Rightarrow> entry res \<times> xgq_sys" where
  "sys_consume p s =
     (let c = (\<not> p);
          (r, q') = xgq_consume c (sy_mem s) (sy_q s c);
          s' = s\<lparr>sy_q := (sy_q s)(c := q')\<rparr>
      in case r of
           Inl err \<Rightarrow> (Inl err, s')
         | Inr slot \<Rightarrow>
             (let e = xgq_copy_from_ring (sy_mem s) (xq_io_hdl q') slot
                        (slot_words (cons_ring c q'))
              in (Inr e, s'\<lparr>rcvd := (rcvd s)(p := rcvd s p @ [e])\<rparr>)))"

definition sys_notify_consumed :: "bool \<Rightarrow> xgq_sys \<Rightarrow> xgq_sys" where
  "sys_notify_consumed p s =
     s\<lparr>sy_mem := xgq_notify_peer_consumed (\<not> p) (sy_mem s) (sy_q s (\<not> p))\<rparr>"

text \<open>Entries fill a whole slot. Either side may take any of its steps at any time.\<close>

inductive sys_step :: "xgq_sys \<Rightarrow> xgq_sys \<Rightarrow> bool" where
  produce: "length e = slot_words (prod_ring p (sy_q s p)) \<Longrightarrow>
     sys_step s (snd (sys_produce p e s))"
| notify_produced: "sys_step s (sys_notify_produced p s)"
| consume: "sys_step s (snd (sys_consume p s))"
| notify_consumed: "sys_step s (sys_notify_consumed p s)"

inductive_simps sys_step_iff: "sys_step s t"

section \<open>The invariant\<close>

text \<open>
  The memory words of a ring, and the words of slot \<open>i\<close>. A ring is well formed when its
  number of slots is a power of two, its slots are whole words and it is smaller than the
  32-bit address range (which is what the comment in \<open>xgq_ring_slot_ptr_produced\<close> relies on).
\<close>

definition ring_cell :: "xgq_ring \<Rightarrow> nat \<Rightarrow> u64" where
  "ring_cell r j = xr_slot_addr r + of_nat (4 * j)"

definition ring_cells :: "xgq_ring \<Rightarrow> u64 set" where
  "ring_cells r = ring_cell r ` {..<unat (xr_slot_num r) * slot_words r}"

definition slot_of :: "mem \<Rightarrow> xgq_ring \<Rightarrow> u32 \<Rightarrow> entry" where
  "slot_of m r c = map (\<lambda>j. m (ring_cell r ((unat c mod unat (xr_slot_num r)) * slot_words r + j)))
     [0..<slot_words r]"

definition ring_wf :: "xgq_ring \<Rightarrow> bool" where
  "ring_wf r = ((\<exists>k. 1 \<le> k \<and> k < 32 \<and> unat (xr_slot_num r) = 2 ^ k)
     \<and> unat (xr_slot_sz r) mod 4 = 0
     \<and> unat (xr_slot_num r) * unat (xr_slot_sz r) < 2 ^ 32)"

definition same_ring :: "xgq_ring \<Rightarrow> xgq_ring \<Rightarrow> bool" where
  "same_ring r r' = (xr_slot_num r' = xr_slot_num r \<and> xr_slot_sz r' = xr_slot_sz r
     \<and> xr_produced_addr r' = xr_produced_addr r \<and> xr_consumed_addr r' = xr_consumed_addr r
     \<and> xr_slot_addr r' = xr_slot_addr r)"

text \<open>
  One direction. \<open>P\<close> and \<open>C\<close> are the producer's and the consumer's copy of the ring, which have
  counted from \<open>b\<close>. The producer has handed out the entries \<open>snt\<close>, of which it has published
  \<open>pub\<close>; the consumer has seen \<open>cp\<close> of those and taken \<open>rcv\<close>, of which it has acknowledged
  \<open>ack\<close>; the producer has seen \<open>pc\<close> acknowledgements.
\<close>

definition chan_inv ::
  "mem \<Rightarrow> xgq_ring \<Rightarrow> xgq_ring \<Rightarrow> entry list \<Rightarrow> entry list \<Rightarrow> u32 \<Rightarrow>
   nat \<Rightarrow> nat \<Rightarrow> nat \<Rightarrow> nat \<Rightarrow> bool" where
  "chan_inv m P C snt rcv b pub cp ack pc =
     (ring_wf P \<and> same_ring P C
      \<and> pc \<le> ack \<and> ack \<le> length rcv \<and> length rcv \<le> cp \<and> cp \<le> pub \<and> pub \<le> length snt
      \<and> length snt - pc \<le> unat (xr_slot_num P)
      \<and> xr_produced P = b + of_nat (length snt) \<and> xr_consumed P = b + of_nat pc
      \<and> xr_produced C = b + of_nat cp \<and> xr_consumed C = b + of_nat (length rcv)
      \<and> m (xr_produced_addr P) = b + of_nat pub \<and> m (xr_consumed_addr P) = b + of_nat ack
      \<and> rcv = take (length rcv) snt
      \<and> (\<forall>e \<in> set snt. length e = slot_words P)
      \<and> (\<forall>i. length rcv \<le> i \<and> i < length snt \<longrightarrow> slot_of m P (b + of_nat i) = snt ! i))"

definition chan_ok :: "xgq_sys \<Rightarrow> bool \<Rightarrow> bool" where
  "chan_ok s p = (\<exists>b pub cp ack pc.
     chan_inv (sy_mem s) (prod_ring p (sy_q s p)) (cons_ring (\<not> p) (sy_q s (\<not> p)))
       (sent s p) (rcvd s p) b pub cp ack pc)"

text \<open>
  The memory a direction uses: its two pointers and its slots. The two directions use
  different memory, and a ring's pointers lie outside its slots.
\<close>

definition footprint :: "xgq_ring \<Rightarrow> u64 set" where
  "footprint r = {xr_produced_addr r, xr_consumed_addr r} \<union> ring_cells r"

definition layout_ok :: "xgq_ring \<Rightarrow> bool" where
  "layout_ok r = (xr_produced_addr r \<noteq> xr_consumed_addr r
     \<and> xr_produced_addr r \<notin> ring_cells r \<and> xr_consumed_addr r \<notin> ring_cells r)"

definition sys_inv :: "xgq_sys \<Rightarrow> bool" where
  "sys_inv s = ((\<forall>p. chan_ok s p) \<and> (\<forall>p. layout_ok (prod_ring p (sy_q s p)))
     \<and> footprint (prod_ring True (sy_q s True)) \<inter> footprint (prod_ring False (sy_q s False)) = {})"

section \<open>Geometry of a ring\<close>

lemmas ring_geom_defs = ring_cell_def ring_cells_def slot_of_def slot_words_def ring_wf_def
  layout_ok_def footprint_def

lemma ring_geom_upd [simp]:
  "ring_cell (r\<lparr>xr_produced := v\<rparr>) = ring_cell r" "ring_cell (r\<lparr>xr_consumed := v\<rparr>) = ring_cell r"
  "slot_words (r\<lparr>xr_produced := v\<rparr>) = slot_words r" "slot_words (r\<lparr>xr_consumed := v\<rparr>) = slot_words r"
  "ring_wf (r\<lparr>xr_produced := v\<rparr>) = ring_wf r" "ring_wf (r\<lparr>xr_consumed := v\<rparr>) = ring_wf r"
  "slot_of m (r\<lparr>xr_produced := v\<rparr>) = slot_of m r" "slot_of m (r\<lparr>xr_consumed := v\<rparr>) = slot_of m r"
  "ring_cells (r\<lparr>xr_produced := v\<rparr>) = ring_cells r" "ring_cells (r\<lparr>xr_consumed := v\<rparr>) = ring_cells r"
  "layout_ok (r\<lparr>xr_produced := v\<rparr>) = layout_ok r" "layout_ok (r\<lparr>xr_consumed := v\<rparr>) = layout_ok r"
  "footprint (r\<lparr>xr_produced := v\<rparr>) = footprint r" "footprint (r\<lparr>xr_consumed := v\<rparr>) = footprint r"
  by (auto simp: ring_geom_defs fun_eq_iff image_def)

lemma same_ring_geom:
  "same_ring r r' \<Longrightarrow> slot_words r' = slot_words r"
  "same_ring r r' \<Longrightarrow> slot_of m r' = slot_of m r"
  by (auto simp: same_ring_def ring_geom_defs fun_eq_iff)

lemma ring_wf_slots:
  assumes "ring_wf r"
  shows "unat (xr_slot_sz r) = 4 * slot_words r"
    and "unat (xr_slot_num r) * slot_words r < 2 ^ 30"
    and "0 < unat (xr_slot_num r)" and "unat (xr_slot_num r) < 2 ^ 32"
proof -
  show sz: "unat (xr_slot_sz r) = 4 * slot_words r"
    using assms by (auto simp: ring_wf_def slot_words_def)
  have "unat (xr_slot_num r) * unat (xr_slot_sz r) < 2 ^ 32"
    using assms by (simp add: ring_wf_def)
  then show "unat (xr_slot_num r) * slot_words r < 2 ^ 30" by (simp add: sz mult.commute)
  show "0 < unat (xr_slot_num r)" using assms by (auto simp: ring_wf_def)
  show "unat (xr_slot_num r) < 2 ^ 32" using unsigned_less [of "xr_slot_num r"] by simp
qed

lemma ring_wf_mask:
  assumes "ring_wf r"
  shows "unat (c AND (xr_slot_num r - 1)) = unat c mod unat (xr_slot_num r)"
proof -
  obtain k where k: "k < 32" "unat (xr_slot_num r) = 2 ^ k"
    using assms by (auto simp: ring_wf_def)
  have "xr_slot_num r = of_nat (unat (xr_slot_num r))" by simp
  also have "\<dots> = 2 ^ k" using k by simp
  finally have "xr_slot_num r = 2 ^ k" .
  then show ?thesis using unat_and_pow2_minus_1 [where 'a = 32, of k c] k by simp
qed

lemma slot_index_lt:
  assumes "ring_wf r" and "j < slot_words r"
  shows "(unat (c :: u32) mod unat (xr_slot_num r)) * slot_words r + j
           < unat (xr_slot_num r) * slot_words r"
proof -
  have "unat c mod unat (xr_slot_num r) < unat (xr_slot_num r)"
    using ring_wf_slots (3) [OF assms(1)] by simp
  then have "Suc (unat c mod unat (xr_slot_num r)) * slot_words r \<le> unat (xr_slot_num r) * slot_words r"
    by (intro mult_le_mono1) simp
  then show ?thesis using assms(2) by simp
qed

text \<open>The address the code computes for a position is that of the slot's first word.\<close>

lemma slot_ptr_cell:
  assumes "ring_wf r"
  shows "(xr_slot_addr r + ucast (xr_slot_sz r * (c AND (xr_slot_num r - 1)))) + of_nat (4 * j)
           = ring_cell r ((unat c mod unat (xr_slot_num r)) * slot_words r + j)"
proof -
  let ?i = "unat c mod unat (xr_slot_num r)"
  have "?i < unat (xr_slot_num r)" using ring_wf_slots (3) [OF assms] by simp
  then have "?i * unat (xr_slot_sz r) \<le> unat (xr_slot_num r) * unat (xr_slot_sz r)"
    by (intro mult_le_mono1) simp
  then have lt: "unat (xr_slot_sz r) * ?i < 2 ^ 32"
    using assms unfolding ring_wf_def by (metis le_less_trans mult.commute)
  have "unat (xr_slot_sz r * (c AND (xr_slot_num r - 1))) = unat (xr_slot_sz r) * ?i"
    using lt by (simp add: unat_word_ariths ring_wf_mask [OF assms])
  then have "(ucast (xr_slot_sz r * (c AND (xr_slot_num r - 1))) :: u64)
               = of_nat (unat (xr_slot_sz r) * ?i)"
    by (metis of_nat_unat)
  then show ?thesis
    by (simp add: ring_cell_def ring_wf_slots (1) [OF assms] algebra_simps)
qed

lemma ring_cell_inj:
  assumes "ring_wf r" and "i < unat (xr_slot_num r) * slot_words r"
    and "j < unat (xr_slot_num r) * slot_words r"
  shows "(ring_cell r i = ring_cell r j) = (i = j)"
  unfolding ring_cell_def
  using assms(2,3) ring_wf_slots (2) [OF assms(1)] by (intro cell_inj) simp_all

text \<open>Two positions less than the number of slots apart are in different slots.\<close>

lemma slot_index_neq:
  fixes b :: u32
  assumes wf: "ring_wf r" and "i < j" and "j - i < unat (xr_slot_num r)"
  shows "unat (b + of_nat i) mod unat (xr_slot_num r) \<noteq> unat (b + of_nat j) mod unat (xr_slot_num r)"
proof -
  obtain k where k: "k < 32" "unat (xr_slot_num r) = 2 ^ k"
    using wf by (auto simp: ring_wf_def)
  have "(unat b + i) mod 2 ^ k \<noteq> (unat b + j) mod 2 ^ k"
  proof
    assume eq: "(unat b + i) mod 2 ^ k = (unat b + j) mod 2 ^ k"
    have "(2::nat) ^ k dvd (unat b + j) - (unat b + i)"
      by (rule mod_eq_dvd_iff_nat [THEN iffD1, OF _ eq [symmetric]]) (use assms(2) in simp)
    then have "(2::nat) ^ k dvd j - i" by simp
    with assms(2,3) k show False by (auto dest: dvd_imp_le)
  qed
  then show ?thesis
    using k unat_counter_mod [where 'a = 32, of k b] by simp
qed

lemma slot_cells_neq:
  assumes wf: "ring_wf r" and "unat (c :: u32) mod unat (xr_slot_num r) \<noteq> unat (d :: u32) mod unat (xr_slot_num r)"
    and "i < slot_words r" and "j < slot_words r"
  shows "ring_cell r ((unat c mod unat (xr_slot_num r)) * slot_words r + i)
           \<noteq> ring_cell r ((unat d mod unat (xr_slot_num r)) * slot_words r + j)"
proof
  assume "ring_cell r ((unat c mod unat (xr_slot_num r)) * slot_words r + i)
           = ring_cell r ((unat d mod unat (xr_slot_num r)) * slot_words r + j)"
  then have eq: "(unat c mod unat (xr_slot_num r)) * slot_words r + i
           = (unat d mod unat (xr_slot_num r)) * slot_words r + j"
    using ring_cell_inj [OF wf slot_index_lt [OF wf assms(3)] slot_index_lt [OF wf assms(4)]]
    by simp
  have "(unat c mod unat (xr_slot_num r)) = (unat d mod unat (xr_slot_num r))"
    using arg_cong [OF eq, of "\<lambda>x. x div slot_words r"] assms(3,4) by simp
  with assms(2) show False by simp
qed

lemma slot_of_eqI:
  assumes "\<And>j. j < slot_words r \<Longrightarrow>
    m (ring_cell r ((unat c mod unat (xr_slot_num r)) * slot_words r + j))
      = m' (ring_cell r ((unat c mod unat (xr_slot_num r)) * slot_words r + j))"
  shows "slot_of m r c = slot_of m' r c"
  using assms by (simp add: slot_of_def)

lemma slot_cell_in_cells:
  "ring_wf r \<Longrightarrow> j < slot_words r \<Longrightarrow>
    ring_cell r ((unat (c :: u32) mod unat (xr_slot_num r)) * slot_words r + j) \<in> ring_cells r"
  unfolding ring_cells_def using slot_index_lt by blast

text \<open>Filling a slot is seen in that slot and nowhere else.\<close>

lemma slot_write:
  assumes wf: "ring_wf r" and len: "length e = slot_words r"
    and slot: "slot = xr_slot_addr r + ucast (xr_slot_sz r * (c AND (xr_slot_num r - 1)))"
  shows "slot_of (xgq_copy_to_ring m h e slot) r c = e"
    and "unat (d::u32) mod unat (xr_slot_num r) \<noteq> unat c mod unat (xr_slot_num r) \<Longrightarrow>
           slot_of (xgq_copy_to_ring m h e slot) r d = slot_of m r d"
    and "x \<notin> ring_cells r \<Longrightarrow> xgq_copy_to_ring m h e slot x = m x"
proof -
  let ?cell = "\<lambda>c j. ring_cell r ((unat c mod unat (xr_slot_num r)) * slot_words r + j)"
  have cell: "slot + of_nat (4 * j) = ?cell c j" for j
    unfolding slot by (rule slot_ptr_cell [OF wf])
  have "1 * slot_words r \<le> unat (xr_slot_num r) * slot_words r"
    using ring_wf_slots (3) [OF wf] by (intro mult_le_mono1) simp
  also have "\<dots> < 2 ^ 30" by (rule ring_wf_slots (2) [OF wf])
  finally have small: "length e < 2 ^ 62" using len by simp
  show "slot_of (xgq_copy_to_ring m h e slot) r c = e"
  proof (rule nth_equalityI)
    show "length (slot_of (xgq_copy_to_ring m h e slot) r c) = length e"
      by (simp add: slot_of_def len)
    fix j assume "j < length (slot_of (xgq_copy_to_ring m h e slot) r c)"
    then have j: "j < length e" by (simp add: slot_of_def len)
    then show "slot_of (xgq_copy_to_ring m h e slot) r c ! j = e ! j"
      using xgq_copy_to_ring_at [OF small j, of m h slot] by (simp add: slot_of_def len cell [symmetric])
  qed
  have other: "xgq_copy_to_ring m h e slot x = m x" if "\<And>j. j < slot_words r \<Longrightarrow> x \<noteq> ?cell c j" for x
    by (rule xgq_copy_to_ring_other) (use that in \<open>simp add: cell len del: of_nat_mult\<close>)
  show "slot_of (xgq_copy_to_ring m h e slot) r d = slot_of m r d"
    if "unat d mod unat (xr_slot_num r) \<noteq> unat c mod unat (xr_slot_num r)"
    by (rule slot_of_eqI, rule other, rule slot_cells_neq [OF wf that])
  show "xgq_copy_to_ring m h e slot x = m x" if "x \<notin> ring_cells r"
    by (rule other) (use that slot_cell_in_cells [OF wf] in blast)
qed

section \<open>One direction\<close>

lemma slot_of_upd_other:
  "ring_wf r \<Longrightarrow> a \<notin> ring_cells r \<Longrightarrow> slot_of (m(a := v)) r c = slot_of m r c"
  by (rule slot_of_eqI) (metis fun_upd_other slot_cell_in_cells)

lemma chan_full_iff:
  assumes "chan_inv m P C snt rcv b pub cp ack pc"
  shows "xgq_ring_full P = (length snt - pc = unat (xr_slot_num P))"
proof -
  have inv: "pc \<le> length snt" "length snt - pc \<le> unat (xr_slot_num P)"
    "xr_produced P = b + of_nat (length snt)" "xr_consumed P = b + of_nat pc"
    using assms by (auto simp: chan_inv_def)
  have "unat (xr_slot_num P) < 2 ^ 32" using unsigned_less [of "xr_slot_num P"] by simp
  with inv(2) have "unat (of_nat (length snt - pc) :: u32) = length snt - pc"
    by (intro unat_of_nat_small) simp
  moreover have "xr_produced P - xr_consumed P = of_nat (length snt - pc)"
    unfolding inv(3,4) by (rule counter_diff [OF inv(1)])
  ultimately show ?thesis
    using inv(2) by (simp only: xgq_ring_full_def word_le_nat_alt) linarith
qed

lemma chan_empty_iff:
  assumes "chan_inv m P C snt rcv b pub cp ack pc"
  shows "xgq_ring_empty C = (cp = length rcv)"
proof -
  have inv: "length rcv \<le> cp" "cp - length rcv \<le> unat (xr_slot_num P)"
    "xr_produced C = b + of_nat cp" "xr_consumed C = b + of_nat (length rcv)"
    using assms by (auto simp: chan_inv_def)
  have "unat (xr_slot_num P) < 2 ^ 32" using unsigned_less [of "xr_slot_num P"] by simp
  with inv(2) have "cp - length rcv < 2 ^ LENGTH(32)" by simp
  from counter_eq_iff [OF inv(1) this, of b] show ?thesis
    by (simp only: xgq_ring_empty_def inv(3,4))
qed

lemma chan_refresh_consumed:
  "chan_inv m P C snt rcv b pub cp ack pc \<Longrightarrow>
   chan_inv m (P\<lparr>xr_consumed := m (xr_consumed_addr P)\<rparr>) C snt rcv b pub cp ack ack"
  by (auto simp: chan_inv_def same_ring_def)

lemma chan_refresh_produced:
  "chan_inv m P C snt rcv b pub cp ack pc \<Longrightarrow>
   chan_inv m P (C\<lparr>xr_produced := m (xr_produced_addr C)\<rparr>) snt rcv b pub pub ack pc"
  by (auto simp: chan_inv_def same_ring_def)

lemma chan_frame:
  assumes inv: "chan_inv m P C snt rcv b pub cp ack pc" and eq: "\<And>x. x \<in> footprint P \<Longrightarrow> m' x = m x"
  shows "chan_inv m' P C snt rcv b pub cp ack pc"
proof -
  have wf: "ring_wf P" using inv by (simp add: chan_inv_def)
  have slot: "slot_of m' P c = slot_of m P c" for c
    by (rule slot_of_eqI, rule eq) (simp add: footprint_def slot_cell_in_cells [OF wf])
  show ?thesis using inv eq by (auto simp: chan_inv_def slot footprint_def)
qed

lemma chan_publish:
  assumes "chan_inv m P C snt rcv b pub cp ack pc" and "layout_ok P"
  shows "chan_inv (m(xr_produced_addr P := xr_produced P)) P C snt rcv b (length snt) cp ack pc"
proof -
  have wf: "ring_wf P" using assms by (simp add: chan_inv_def)
  have slot: "slot_of (m(xr_produced_addr P := v)) P c = slot_of m P c" for c v
    using wf assms(2) by (simp add: slot_of_upd_other layout_ok_def)
  show ?thesis using assms by (auto simp: chan_inv_def slot layout_ok_def)
qed

lemma chan_acknowledge:
  assumes "chan_inv m P C snt rcv b pub cp ack pc" and "layout_ok P"
  shows "chan_inv (m(xr_consumed_addr C := xr_consumed C)) P C snt rcv b pub cp (length rcv) pc"
proof -
  have wf: "ring_wf P" and addr: "xr_consumed_addr C = xr_consumed_addr P"
    using assms by (simp_all add: chan_inv_def same_ring_def)
  have slot: "slot_of (m(xr_consumed_addr P := v)) P c = slot_of m P c" for c v
    using wf assms(2) by (simp add: slot_of_upd_other layout_ok_def)
  show ?thesis using assms by (auto simp: chan_inv_def slot layout_ok_def addr)
qed

lemma chan_put:
  assumes inv: "chan_inv m P C snt rcv b pub cp ack pc" and lay: "layout_ok P"
    and room: "\<not> xgq_ring_full P" and len: "length e = slot_words P"
  shows "chan_inv (xgq_copy_to_ring m h e (xgq_ring_slot_ptr_produced P))
           (P\<lparr>xr_produced := xr_produced P + 1\<rparr>) C (snt @ [e]) rcv b pub cp ack pc"
proof -
  let ?m = "xgq_copy_to_ring m h e (xgq_ring_slot_ptr_produced P)"
  have wf: "ring_wf P" and prod: "xr_produced P = b + of_nat (length snt)"
    using inv by (simp_all add: chan_inv_def)
  have lt: "length snt - pc < unat (xr_slot_num P)"
    using inv room chan_full_iff [OF inv] by (auto simp: chan_inv_def)
  note filled = slot_write [OF wf len, of _ "xr_produced P", folded xgq_ring_slot_ptr_produced_def, OF refl]
  have new: "slot_of ?m P (b + of_nat (length snt)) = e"
    using filled(1) by (simp add: prod)
  have old: "slot_of ?m P (b + of_nat i) = slot_of m P (b + of_nat i)"
    if i: "length rcv \<le> i" "i < length snt" for i
  proof -
    have "length snt - i < unat (xr_slot_num P)"
      using lt i inv by (auto simp: chan_inv_def)
    from slot_index_neq [OF wf i(2) this, of b] show ?thesis
      using filled(2) by (simp add: prod)
  qed
  have ptrs: "?m (xr_produced_addr P) = m (xr_produced_addr P)"
    "?m (xr_consumed_addr P) = m (xr_consumed_addr P)"
    using filled(3) lay by (auto simp: layout_ok_def)
  have slots: "slot_of ?m P (b + of_nat i) = (snt @ [e]) ! i"
    if "length rcv \<le> i" "i < length (snt @ [e])" for i
    using that inv new old [of i] by (cases "i = length snt") (auto simp: chan_inv_def nth_append)
  have "take (length rcv) (snt @ [e]) = rcv" using inv by (auto simp: chan_inv_def)
  then show ?thesis using inv lt ptrs slots len by (auto simp: chan_inv_def same_ring_def)
qed

lemma chan_get:
  assumes inv: "chan_inv m P C snt rcv b pub cp ack pc" and some: "\<not> xgq_ring_empty C"
  shows "xgq_copy_from_ring m h (xgq_ring_slot_ptr_consumed C) (slot_words C) = snt ! length rcv"
    and "length rcv < length snt"
    and "chan_inv m P (C\<lparr>xr_consumed := xr_consumed C + 1\<rparr>) snt (rcv @ [snt ! length rcv])
           b pub cp ack pc"
proof -
  have wf: "ring_wf P" and same: "same_ring P C" and cons: "xr_consumed C = b + of_nat (length rcv)"
    using inv by (simp_all add: chan_inv_def)
  have lt: "length rcv < cp" using inv some chan_empty_iff [OF inv] by (auto simp: chan_inv_def)
  then show rl: "length rcv < length snt" using inv by (auto simp: chan_inv_def)
  have wfC: "ring_wf C" using wf same by (simp add: ring_wf_def same_ring_def)
  have "xgq_copy_from_ring m h (xgq_ring_slot_ptr_consumed C) (slot_words C)
          = slot_of m C (xr_consumed C)"
    by (simp add: xgq_copy_from_ring_eq slot_of_def xgq_ring_slot_ptr_consumed_def
        slot_ptr_cell [OF wfC] del: of_nat_mult)
  also have "\<dots> = slot_of m P (b + of_nat (length rcv))"
    by (simp add: cons same_ring_geom [OF same])
  also have "\<dots> = snt ! length rcv" using inv rl by (simp add: chan_inv_def)
  finally show "xgq_copy_from_ring m h (xgq_ring_slot_ptr_consumed C) (slot_words C)
    = snt ! length rcv" .
  have "rcv @ [snt ! length rcv] = take (Suc (length rcv)) snt"
    using inv rl by (auto simp: chan_inv_def take_Suc_conv_app_nth)
  then show "chan_inv m P (C\<lparr>xr_consumed := xr_consumed C + 1\<rparr>) snt (rcv @ [snt ! length rcv])
      b pub cp ack pc"
    using inv lt rl by (auto simp: chan_inv_def same_ring_def)
qed

section \<open>Both directions together\<close>

lemma ring_select_simps [simp]:
  "prod_ring p (set_prod_ring p r q) = r" "cons_ring p (set_prod_ring p r q) = cons_ring p q"
  "cons_ring p (set_cons_ring p r q) = r" "prod_ring p (set_cons_ring p r q) = prod_ring p q"
  "xq_io_hdl (set_prod_ring p r q) = xq_io_hdl q" "xq_io_hdl (set_cons_ring p r q) = xq_io_hdl q"
  by (auto simp: prod_ring_def cons_ring_def set_prod_ring_def set_cons_ring_def)

lemma same_ring_upd [simp]:
  "same_ring r (r\<lparr>xr_produced := v\<rparr>)" "same_ring r (r\<lparr>xr_consumed := v\<rparr>)" "same_ring r r"
  by (simp_all add: same_ring_def)

lemma same_ring_layout:
  "same_ring r r' \<Longrightarrow> footprint r' = footprint r" "same_ring r r' \<Longrightarrow> layout_ok r' = layout_ok r"
  by (auto simp: same_ring_def ring_geom_defs)

lemma same_ring_trans: "same_ring a b \<Longrightarrow> same_ring b c \<Longrightarrow> same_ring a c"
  by (simp add: same_ring_def)

lemma chan_okI:
  "chan_inv (sy_mem s) (prod_ring p (sy_q s p)) (cons_ring (\<not> p) (sy_q s (\<not> p)))
     (sent s p) (rcvd s p) b pub cp ack pc \<Longrightarrow> chan_ok s p"
  unfolding chan_ok_def by blast

text \<open>What one direction does is not seen by the other.\<close>

lemma sys_inv_stepI:
  assumes inv: "sys_inv s" and ok: "chan_ok s' p"
    and same: "same_ring (prod_ring p (sy_q s p)) (prod_ring p (sy_q s' p))"
    and other: "prod_ring (\<not> p) (sy_q s' (\<not> p)) = prod_ring (\<not> p) (sy_q s (\<not> p))"
      "cons_ring p (sy_q s' p) = cons_ring p (sy_q s p)"
      "sent s' (\<not> p) = sent s (\<not> p)" "rcvd s' (\<not> p) = rcvd s (\<not> p)"
    and mem: "\<And>x. x \<notin> footprint (prod_ring p (sy_q s p)) \<Longrightarrow> sy_mem s' x = sy_mem s x"
  shows "sys_inv s'"
proof -
  have disj: "footprint (prod_ring p (sy_q s p)) \<inter> footprint (prod_ring (\<not> p) (sy_q s (\<not> p))) = {}"
    using inv by (cases p) (auto simp: sys_inv_def)
  have "chan_ok s (\<not> p)" using inv by (simp add: sys_inv_def)
  then obtain b pub cp ack pc where
    "chan_inv (sy_mem s) (prod_ring (\<not> p) (sy_q s (\<not> p))) (cons_ring p (sy_q s p))
       (sent s (\<not> p)) (rcvd s (\<not> p)) b pub cp ack pc"
    unfolding chan_ok_def by auto
  then have "chan_inv (sy_mem s') (prod_ring (\<not> p) (sy_q s (\<not> p))) (cons_ring p (sy_q s p))
       (sent s (\<not> p)) (rcvd s (\<not> p)) b pub cp ack pc"
    by (rule chan_frame) (use disj mem in blast)
  then have ok': "chan_ok s' (\<not> p)" by (intro chan_okI) (simp add: other)
  have "chan_ok s' r" for r using ok ok' by (cases "r = p") auto
  moreover have "layout_ok (prod_ring r (sy_q s' r))" for r
    using inv same other(1) same_ring_layout(2) [OF same]
    by (cases "r = p") (auto simp: sys_inv_def)
  moreover have "footprint (prod_ring True (sy_q s' True)) \<inter> footprint (prod_ring False (sy_q s' False)) = {}"
    using disj other(1) same_ring_layout(1) [OF same] by (cases p) auto
  ultimately show ?thesis unfolding sys_inv_def by blast
qed

lemma sys_inv_chan:
  assumes "sys_inv s"
  obtains b pub cp ack pc where
    "chan_inv (sy_mem s) (prod_ring p (sy_q s p)) (cons_ring (\<not> p) (sy_q s (\<not> p)))
       (sent s p) (rcvd s p) b pub cp ack pc"
    and "layout_ok (prod_ring p (sy_q s p))"
  using assms unfolding sys_inv_def chan_ok_def by blast

lemma xgq_can_produce_cases:
  assumes inv: "chan_inv m (prod_ring p q) C snt rcv b pub cp ack pc" and res: "xgq_can_produce p m q = (ok, q1)"
  obtains pc' where "chan_inv m (prod_ring p q1) C snt rcv b pub cp ack pc'"
    and "ok = (\<not> xgq_ring_full (prod_ring p q1))" and "cons_ring p q1 = cons_ring p q"
    and "same_ring (prod_ring p q) (prod_ring p q1)"
    and "ok = (length snt - ack < unat (xr_slot_num (prod_ring p q)))"
proof (cases "xgq_ring_full (prod_ring p q)")
  case False
  then have "q1 = q" "ok" using res by (simp_all add: xgq_can_produce_def)
  moreover have "length snt - ack < unat (xr_slot_num (prod_ring p q))"
    using False chan_full_iff [OF inv] inv by (auto simp: chan_inv_def)
  ultimately show thesis using that [of pc] inv False by simp
next
  case True
  let ?r = "(prod_ring p q)\<lparr>xr_consumed := m (xr_consumed_addr (prod_ring p q))\<rparr>"
  have q1: "q1 = set_prod_ring p ?r q" and ok: "ok = (\<not> xgq_ring_full ?r)"
    using res True by (auto simp: xgq_can_produce_def xgq_ring_read_consumed_eq Let_def)
  note inv' = chan_refresh_consumed [OF inv]
  have "ok = (length snt - ack < unat (xr_slot_num (prod_ring p q)))"
    using ok chan_full_iff [OF inv'] inv' by (auto simp: chan_inv_def)
  with that [of ack] inv' show thesis by (simp add: q1 ok)
qed

lemma xgq_can_consume_cases:
  assumes inv: "chan_inv m P (cons_ring c q) snt rcv b pub cp ack pc" and res: "xgq_can_consume c m q = (ok, q1)"
  obtains cp' where "chan_inv m P (cons_ring c q1) snt rcv b pub cp' ack pc"
    and "ok = (\<not> xgq_ring_empty (cons_ring c q1))" and "prod_ring c q1 = prod_ring c q"
    and "ok = (length rcv < pub)"
proof (cases "xgq_ring_empty (cons_ring c q)")
  case False
  then have "q1 = q" "ok" using res by (simp_all add: xgq_can_consume_def)
  moreover have "length rcv < pub"
    using False chan_empty_iff [OF inv] inv by (auto simp: chan_inv_def)
  ultimately show thesis using that [of cp] inv False by simp
next
  case True
  let ?r = "(cons_ring c q)\<lparr>xr_produced := m (xr_produced_addr (cons_ring c q))\<rparr>"
  have q1: "q1 = set_cons_ring c ?r q" and ok: "ok = (\<not> xgq_ring_empty ?r)"
    using res True by (auto simp: xgq_can_consume_def xgq_ring_read_produced_eq Let_def)
  note inv' = chan_refresh_produced [OF inv]
  have "ok = (length rcv < pub)"
    using ok chan_empty_iff [OF inv'] inv' by (auto simp: chan_inv_def)
  with that [of pub] inv' show thesis by (simp add: q1 ok)
qed

lemma sys_produce_spec:
  assumes inv: "chan_inv (sy_mem s) (prod_ring p (sy_q s p)) (cons_ring (\<not> p) (sy_q s (\<not> p)))
       (sent s p) (rcvd s p) b pub cp ack pc"
    and lay: "layout_ok (prod_ring p (sy_q s p))" and sinv: "sys_inv s"
    and len: "length e = slot_words (prod_ring p (sy_q s p))"
    and res: "sys_produce p e s = (r, s')"
  shows "r = (if length (sent s p) - ack < unat (xr_slot_num (prod_ring p (sy_q s p)))
              then Inr () else Inl ENOSPC)"
    and "sent s' p = (if r = Inr () then sent s p @ [e] else sent s p)"
    and "rcvd s' = rcvd s"
    and "\<exists>pc'. chan_inv (sy_mem s') (prod_ring p (sy_q s' p)) (cons_ring (\<not> p) (sy_q s' (\<not> p)))
       (sent s' p) (rcvd s' p) b pub cp ack pc'"
    and "sys_inv s'"
proof -
  obtain ok q1 where can: "xgq_can_produce p (sy_mem s) (sy_q s p) = (ok, q1)" by fastforce
  from xgq_can_produce_cases [OF inv can] obtain pc' where
    inv1: "chan_inv (sy_mem s) (prod_ring p q1) (cons_ring (\<not> p) (sy_q s (\<not> p)))
       (sent s p) (rcvd s p) b pub cp ack pc'"
    and ok: "ok = (\<not> xgq_ring_full (prod_ring p q1))" and c1: "cons_ring p q1 = cons_ring p (sy_q s p)"
    and same: "same_ring (prod_ring p (sy_q s p)) (prod_ring p q1)"
    and ok': "ok = (length (sent s p) - ack < unat (xr_slot_num (prod_ring p (sy_q s p))))" by blast
  have lay1: "layout_ok (prod_ring p q1)" using lay same_ring_layout(2) [OF same] by simp
  have len1: "length e = slot_words (prod_ring p q1)" using len same_ring_geom(1) [OF same] by simp
  note defs = sys_produce_def xgq_produce_def can Let_def
  have *: "(r = (if ok then Inr () else Inl ENOSPC)) \<and> sent s' p = (if ok then sent s p @ [e] else sent s p)
    \<and> rcvd s' = rcvd s \<and> sent s' (\<not> p) = sent s (\<not> p)
    \<and> sy_q s' (\<not> p) = sy_q s (\<not> p) \<and> cons_ring p (sy_q s' p) = cons_ring p (sy_q s p)"
    using res c1 by (cases ok) (auto simp: defs)
  have inv2: "\<exists>pc'. chan_inv (sy_mem s') (prod_ring p (sy_q s' p)) (cons_ring (\<not> p) (sy_q s' (\<not> p)))
       (sent s' p) (rcvd s' p) b pub cp ack pc'"
  proof (cases ok)
    case True
    then have "\<not> xgq_ring_full (prod_ring p q1)" using ok by simp
    from chan_put [OF inv1 lay1 this len1, of "xq_io_hdl q1"] show ?thesis
      using res True by (auto simp: defs)
  next
    case False
    then show ?thesis using res inv1 by (auto simp: defs)
  qed
  have same2: "same_ring (prod_ring p (sy_q s p)) (prod_ring p (sy_q s' p))"
    using res same by (cases ok) (auto simp: defs intro: same_ring_trans)
  have wf1: "ring_wf (prod_ring p q1)" using inv1 by (simp add: chan_inv_def)
  have mem: "sy_mem s' x = sy_mem s x" if "x \<notin> footprint (prod_ring p (sy_q s p))" for x
  proof -
    have "x \<notin> ring_cells (prod_ring p q1)"
      using that same_ring_layout(1) [OF same] by (auto simp: footprint_def)
    from slot_write(3) [OF wf1 len1 refl this] show ?thesis
      using res by (cases ok) (auto simp: defs xgq_ring_slot_ptr_produced_def)
  qed
  show "r = (if length (sent s p) - ack < unat (xr_slot_num (prod_ring p (sy_q s p)))
              then Inr () else Inl ENOSPC)" using * ok' by simp
  show "sent s' p = (if r = Inr () then sent s p @ [e] else sent s p)" using * by auto
  show "rcvd s' = rcvd s" using * by blast
  show "\<exists>pc'. chan_inv (sy_mem s') (prod_ring p (sy_q s' p)) (cons_ring (\<not> p) (sy_q s' (\<not> p)))
       (sent s' p) (rcvd s' p) b pub cp ack pc'" by (rule inv2)
  show "sys_inv s'"
    by (rule sys_inv_stepI [OF sinv _ same2]) (use * inv2 mem in \<open>auto intro: chan_okI\<close>)
qed

lemma sys_consume_spec:
  assumes inv: "chan_inv (sy_mem s) (prod_ring p (sy_q s p)) (cons_ring (\<not> p) (sy_q s (\<not> p)))
       (sent s p) (rcvd s p) b pub cp ack pc"
    and sinv: "sys_inv s" and res: "sys_consume p s = (r, s')"
  shows "r = (if length (rcvd s p) < pub then Inr (sent s p ! length (rcvd s p)) else Inl ENOENT)"
    and "rcvd s' p = (if length (rcvd s p) < pub then rcvd s p @ [sent s p ! length (rcvd s p)]
                      else rcvd s p)"
    and "sent s' = sent s" and "sys_inv s'"
proof -
  obtain ok q1 where can: "xgq_can_consume (\<not> p) (sy_mem s) (sy_q s (\<not> p)) = (ok, q1)" by fastforce
  from xgq_can_consume_cases [OF inv can] obtain cp' where
    inv1: "chan_inv (sy_mem s) (prod_ring p (sy_q s p)) (cons_ring (\<not> p) q1)
       (sent s p) (rcvd s p) b pub cp' ack pc"
    and ok: "ok = (\<not> xgq_ring_empty (cons_ring (\<not> p) q1))"
    and p1: "prod_ring (\<not> p) q1 = prod_ring (\<not> p) (sy_q s (\<not> p))"
    and ok': "ok = (length (rcvd s p) < pub)" by blast
  note defs = sys_consume_def xgq_consume_def can Let_def
  have got: "xgq_copy_from_ring (sy_mem s) (xq_io_hdl q1)
      (xgq_ring_slot_ptr_consumed (cons_ring (\<not> p) q1)) (slot_words (cons_ring (\<not> p) q1))
      = sent s p ! length (rcvd s p)" if ok
    using chan_get(1) [OF inv1] that ok by blast
  have *: "r = (if ok then Inr (sent s p ! length (rcvd s p)) else Inl ENOENT)
    \<and> rcvd s' p = (if ok then rcvd s p @ [sent s p ! length (rcvd s p)] else rcvd s p)
    \<and> sent s' = sent s \<and> rcvd s' (\<not> p) = rcvd s (\<not> p) \<and> sy_mem s' = sy_mem s
    \<and> sy_q s' p = sy_q s p \<and> prod_ring (\<not> p) (sy_q s' (\<not> p)) = prod_ring (\<not> p) (sy_q s (\<not> p))"
    using res p1 got by (cases ok) (auto simp: defs)
  have "chan_ok s' p"
  proof (cases ok)
    case True
    then have "\<not> xgq_ring_empty (cons_ring (\<not> p) q1)" using ok by simp
    from chan_get(3) [OF inv1 this] show ?thesis
      using res True got by (intro chan_okI) (auto simp: defs)
  next
    case False
    then show ?thesis using res inv1 by (intro chan_okI) (auto simp: defs)
  qed
  then show "sys_inv s'"
    by (rule sys_inv_stepI [OF sinv]) (use * in auto)
  show "r = (if length (rcvd s p) < pub then Inr (sent s p ! length (rcvd s p)) else Inl ENOENT)"
    "rcvd s' p = (if length (rcvd s p) < pub then rcvd s p @ [sent s p ! length (rcvd s p)]
                  else rcvd s p)" "sent s' = sent s"
    using * ok' by simp_all
qed

lemma sys_notify_produced_inv:
  assumes "sys_inv s"
  shows "sys_inv (sys_notify_produced p s)"
proof -
  obtain b pub cp ack pc where
    inv: "chan_inv (sy_mem s) (prod_ring p (sy_q s p)) (cons_ring (\<not> p) (sy_q s (\<not> p)))
       (sent s p) (rcvd s p) b pub cp ack pc" and lay: "layout_ok (prod_ring p (sy_q s p))"
    using sys_inv_chan [OF assms] by blast
  note defs = sys_notify_produced_def xgq_notify_peer_produced_def xgq_ring_write_produced_def xgq_io_defs
  have "chan_ok (sys_notify_produced p s) p"
    using chan_publish [OF inv lay] by (intro chan_okI) (simp add: defs)
  then show ?thesis
    by (rule sys_inv_stepI [OF assms]) (auto simp: defs footprint_def)
qed

lemma sys_notify_consumed_inv:
  assumes "sys_inv s"
  shows "sys_inv (sys_notify_consumed p s)"
proof -
  obtain b pub cp ack pc where
    inv: "chan_inv (sy_mem s) (prod_ring p (sy_q s p)) (cons_ring (\<not> p) (sy_q s (\<not> p)))
       (sent s p) (rcvd s p) b pub cp ack pc" and lay: "layout_ok (prod_ring p (sy_q s p))"
    using sys_inv_chan [OF assms] by blast
  have addr: "xr_consumed_addr (cons_ring (\<not> p) (sy_q s (\<not> p))) = xr_consumed_addr (prod_ring p (sy_q s p))"
    using inv by (simp add: chan_inv_def same_ring_def)
  note defs = sys_notify_consumed_def xgq_notify_peer_consumed_def xgq_ring_write_consumed_def xgq_io_defs
  have "chan_ok (sys_notify_consumed p s) p"
    using chan_acknowledge [OF inv lay] by (intro chan_okI) (simp add: defs)
  then show ?thesis
    by (rule sys_inv_stepI [OF assms]) (auto simp: defs footprint_def addr)
qed

lemma sys_step_inv:
  assumes "sys_step s t" and inv: "sys_inv s"
  shows "sys_inv t"
  using assms(1)
proof cases
  case (produce e p)
  from inv obtain b pub cp ack pc where
    "chan_inv (sy_mem s) (prod_ring p (sy_q s p)) (cons_ring (\<not> p) (sy_q s (\<not> p)))
       (sent s p) (rcvd s p) b pub cp ack pc" and "layout_ok (prod_ring p (sy_q s p))"
    by (rule sys_inv_chan)
  from sys_produce_spec(5) [OF this inv produce(2) surjective_pairing] show ?thesis
    using produce(1) by simp
next
  case (consume p)
  from inv obtain b pub cp ack pc where
    "chan_inv (sy_mem s) (prod_ring p (sy_q s p)) (cons_ring (\<not> p) (sy_q s (\<not> p)))
       (sent s p) (rcvd s p) b pub cp ack pc"
    by (rule sys_inv_chan)
  from sys_consume_spec(4) [OF this inv surjective_pairing] show ?thesis
    using consume by simp
qed (simp_all add: inv sys_notify_produced_inv sys_notify_consumed_inv)

lemma sys_steps_inv: "sys_step\<^sup>*\<^sup>* s t \<Longrightarrow> sys_inv s \<Longrightarrow> sys_inv t"
  by (induction rule: rtranclp_induct) (auto intro: sys_step_inv)

end
