(* ===== verification/Xgq_Setup.thy ===== *)
theory Xgq_Setup
  imports Xgq_Fifo
begin

text \<open>
  Setting the protocol up: how many slots \<open>xgq_alloc\<close> finds room for, that the header it
  writes is the one \<open>xgq_attach\<close> reads, and that the client and the server that result
  satisfy the invariant of the protocol.
\<close>


text \<open>The length of the rings with \<open>2 ^ k\<close> slots each, as a natural number.\<close>

definition rings_len :: "nat \<Rightarrow> u32 list \<Rightarrow> nat" where
  "rings_len k szs = (\<Sum>sz\<leftarrow>szs. 44 + 2 ^ k * (unat sz + 16))"

text \<open>
  A client that allocates the queue, with the producer pointers in the header, and a server
  that attaches to it; \<open>q0\<close> is what the server's queue object held before.
\<close>

definition sys_start ::
  "mem \<Rightarrow> u64 \<Rightarrow> u64 \<Rightarrow> u64 \<Rightarrow> u64 \<Rightarrow> u32 \<Rightarrow> xgq \<Rightarrow> u64 \<Rightarrow> xgq_sys res" where
  "sys_start m flags io_hdl ring_addr ring_len slot_size q0 aflags =
     (case xgq_alloc m flags io_hdl ring_addr ring_len slot_size 0 0 of
        Inl e \<Rightarrow> Inl e
      | Inr (qc, len, m1) \<Rightarrow>
          (case xgq_attach m1 q0 aflags io_hdl ring_addr 0 0 of
             Inl e \<Rightarrow> Inl e
           | Inr (qs, m2) \<Rightarrow> Inr \<lparr>sy_mem = m2, sy_q = (\<lambda>srv. if srv then qs else qc),
                                 sent = (\<lambda>_. []), rcvd = (\<lambda>_. [])\<rparr>))"

text \<open>The header of a queue with \<open>n\<close> slots of \<open>sz\<close> bytes, complete and with nothing produced.\<close>

definition init_header :: "u32 \<Rightarrow> u32 \<Rightarrow> u32 \<Rightarrow> xgq_header" where
  "init_header flags n sz = \<lparr>xh_magic = XGQ_ALLOC_MAGIC, xh_version = XGQ_VERSION, xh_slot_num = n,
     xh_sq_offset = 44, xh_sq_slot_size = sz, xh_cq_offset = 44 + n * sz, xh_sq_consumed = 0,
     xh_cq_consumed = 0, xh_flags = flags, xh_sq_produced = 0, xh_cq_produced = 0\<rparr>"

text \<open>The addresses at the offsets \<open>X\<close> from \<open>ra\<close>.\<close>

definition area :: "u64 \<Rightarrow> nat set \<Rightarrow> u64 set" where
  "area ra X = (\<lambda>x. ra + of_nat x) ` X"

section \<open>The number of slots\<close>

lemma pow2_less_u32: "k < 32 \<Longrightarrow> (2::nat) ^ k < 2 ^ 32"
  by (rule power_strict_increasing) auto

lemma unat_slots: "k < 32 \<Longrightarrow> unat (2 ^ k :: u32) = 2 ^ k"
  using unat_of_nat_small [where 'a = 32, of "2 ^ k"] pow2_less_u32 [of k] by simp

lemma ring_len_of_nat:
  assumes "k < 32"
  shows "xgq_ring_len (ucast (2 ^ k :: u32)) (ucast (sz :: u32)) = of_nat (44 + 2 ^ k * (unat sz + 16))"
proof -
  have "ucast (2 ^ k :: u32) = (of_nat (unat (2 ^ k :: u32)) :: u64)" by (rule of_nat_unat [symmetric])
  also have "\<dots> = of_nat (2 ^ k)" by (simp only: unat_slots assms)
  finally have 1: "ucast (2 ^ k :: u32) = (of_nat (2 ^ k) :: u64)" .
  have 2: "ucast sz = (of_nat (unat sz) :: u64)" by (rule of_nat_unat [symmetric])
  show ?thesis unfolding xgq_ring_len_def 1 2 by simp
qed

lemma ucast_u64_of_nat: "ucast (of_nat n :: u64) = (of_nat n :: u32)"
  by (simp add: unsigned_of_nat bit_eq_iff bit_simps)

lemma total_ring_len_of_nat:
  assumes "k < 32"
  shows "total_ring_len (2 ^ k) szs = of_nat (rings_len k szs)"
proof -
  have "foldl (\<lambda>total sz. total + ucast (xgq_ring_len (ucast (2 ^ k :: u32)) (ucast sz))) t szs
      = t + (of_nat (rings_len k szs) :: u32)" for t
  proof (induction szs arbitrary: t)
    case Nil
    show ?case by (simp add: rings_len_def)
  next
    case (Cons sz szs)
    have "ucast (xgq_ring_len (ucast (2 ^ k :: u32)) (ucast sz)) + of_nat (rings_len k szs)
        = (of_nat (rings_len k (sz # szs)) :: u32)"
      unfolding ring_len_of_nat [OF assms] ucast_u64_of_nat by (simp add: rings_len_def)
    then show ?case by (simp only: foldl_Cons Cons.IH add.assoc)
  qed
  then show ?thesis by (simp add: total_ring_len_def)
qed

lemma rings_len_Suc: "rings_len k szs \<le> rings_len (Suc k) szs \<and> rings_len (Suc k) szs \<le> 2 * rings_len k szs"
  by (induction szs) (auto simp: rings_len_def algebra_simps)

lemma rings_len_ge: "szs \<noteq> [] \<Longrightarrow> 16 * 2 ^ k < rings_len k szs"
  by (cases szs) (auto simp: rings_len_def algebra_simps)

lemma num_slots_loop_spec:
  assumes "szs \<noteq> []" and "unat rlen < 2 ^ 31"
    and "1 \<le> k" and "k < 32" and "rings_len k szs < 2 ^ 32"
  shows "\<exists>j. num_slots_loop rlen szs k (of_nat (rings_len k szs)) = 2 ^ j \<and> k \<le> j \<and> j < 28
     \<and> (k < j \<longrightarrow> rings_len (j - 1) szs \<le> unat rlen) \<and> unat rlen < rings_len j szs"
  using assms(3-5)
proof (induction "31 - k" arbitrary: k)
  case 0
  then have "k = 31" by simp
  then show ?case using 0 rings_len_ge [OF assms(1), of 31] by simp
next
  case (Suc n)
  have small: "ucast (of_nat (rings_len k szs) :: u32) \<le> rlen \<longleftrightarrow> rings_len k szs \<le> unat rlen"
    using Suc.prems(3) unat_of_nat_small [where 'a = 64, of "rings_len k szs"]
    by (simp add: word_le_nat_alt unsigned_of_nat take_bit_nat_eq_self)
  have lt31: "k < 31" using Suc by simp
  have ge: "16 * 2 ^ k < rings_len k szs" by (rule rings_len_ge [OF assms(1)])
  show ?case
  proof (cases "rings_len k szs \<le> unat rlen")
    case True
    have dbl: "rings_len (Suc k) szs < 2 ^ 32" using True assms(2) rings_len_Suc [of k szs] by simp
    have eq: "num_slots_loop rlen szs k (of_nat (rings_len k szs))
        = num_slots_loop rlen szs (Suc k) (of_nat (rings_len (Suc k) szs))"
      using True lt31 small total_ring_len_of_nat [of "Suc k" szs]
      by (subst num_slots_loop.simps) (simp add: push_bit_of_1)
    have n: "n = 31 - Suc k" using Suc.hyps(2) by simp
    from Suc.hyps(1) [OF n] dbl lt31 obtain j where j:
      "num_slots_loop rlen szs (Suc k) (of_nat (rings_len (Suc k) szs)) = 2 ^ j" "Suc k \<le> j" "j < 28"
      "Suc k < j \<longrightarrow> rings_len (j - 1) szs \<le> unat rlen" "unat rlen < rings_len j szs" by auto
    moreover have "rings_len (j - 1) szs \<le> unat rlen" using j True by (cases "j = Suc k") auto
    ultimately show ?thesis using eq by (intro exI [of _ j]) simp
  next
    case False
    then have eq: "num_slots_loop rlen szs k (of_nat (rings_len k szs)) = 2 ^ k"
      using small by (subst num_slots_loop.simps) (simp add: push_bit_of_1)
    have "(2::nat) ^ k < 2 ^ 28" using ge Suc.prems(3) by simp
    then have "k < 28" by (rule power_less_imp_less_exp [rotated]) simp
    then show ?thesis using eq False by (intro exI [of _ k]) simp
  qed
qed

lemma xgq_alloc_num_slots_spec:
  assumes "szs \<noteq> []" and "unat rlen < 2 ^ 31" and "rings_len 1 szs < 2 ^ 32"
  shows "\<exists>j. xgq_alloc_num_slots rlen szs = 2 ^ j \<and> j < 27
     \<and> (0 < j \<longrightarrow> rings_len j szs \<le> unat rlen) \<and> unat rlen < rings_len (Suc j) szs"
proof -
  from num_slots_loop_spec [OF assms(1,2), of 1] assms(3) obtain j where j:
    "num_slots_loop rlen szs 1 (of_nat (rings_len 1 szs)) = 2 ^ j" "1 \<le> j" "j < 28"
    "1 < j \<longrightarrow> rings_len (j - 1) szs \<le> unat rlen" "unat rlen < rings_len j szs" by auto
  have "num_slots_loop rlen szs 0 0 = num_slots_loop rlen szs 1 (of_nat (rings_len 1 szs))"
    using total_ring_len_of_nat [of 1 szs] by (subst num_slots_loop.simps) (simp add: push_bit_of_1)
  then have "xgq_alloc_num_slots rlen szs = drop_bit 1 (2 ^ j)" using j(1) by (simp add: xgq_alloc_num_slots_def)
  also have "\<dots> = 2 ^ (j - 1)"
  proof -
    have "unat (drop_bit 1 (2 ^ j :: u32)) = 2 ^ j div 2"
      using j(3) unat_slots [of j] by (simp add: drop_bit_eq_div unat_div)
    also have "\<dots> = unat (2 ^ (j - 1) :: u32)"
      using j(2,3) unat_slots [of "j - 1"] by (cases j) simp_all
    finally show ?thesis by (rule unsigned_word_eqI)
  qed
  finally show ?thesis using j by (intro exI [of _ "j - 1"]) auto
qed

section \<open>Allocating and attaching\<close>

lemma in_mem_flags:
  "XGQ_IS_IN_MEM_PROD ((f OR (x AND 2)) OR (x AND 4)) = (XGQ_IS_IN_MEM_PROD f \<or> XGQ_IS_IN_MEM_PROD x)"
proof -
  have "((f OR (x AND 2)) OR (x AND 4)) AND 4 = (f AND 4) OR (x AND 4)" for f x :: u32
    by (rule bit_eqI) (auto simp: bit_simps bit_numeral_rec)
  then show ?thesis by (auto simp: XGQ_IS_IN_MEM_PROD_def or_eq_0_iff)
qed

lemma upt_11: "[0..<11] = [0, 1, 2, 3, 4, 5, 6, 7, 8, 9, 10::nat]"
  by (simp add: upt_rec)

lemma ucast_down_up: "ucast (ucast n :: u64) = (n :: u32)"
  using ucast_u64_of_nat [of "unat n"] by simp

lemma xgq_init_in_mem_eq:
  assumes "XGQ_IS_IN_MEM_PROD (ucast flags)"
  shows "xgq_init m flags h ra (ucast (n :: u32)) sz sp cp =
    (\<lparr>xq_io_hdl = h, xq_header_addr = ra, xq_flags = ucast flags,
       xq_sq = xgq_init_ring (ra + 36) (ra + 24) (ra + 44) n sz,
       xq_cq = xgq_init_ring (ra + 40) (ra + 28) (ra + 44 + ucast n * ucast sz) n 16\<rparr>,
     xgq_copy_to_ring m h (header_words (init_header (ucast flags) n sz)) ra)"
proof -
  have cast: "ucast (44 + ucast n * ucast sz :: u64) = 44 + n * sz"
    using ucast_u64_of_nat [of "44 + unat n * unat sz"] by simp
  have off: "ra + (a + b) - ra = a + b" "ra + a + b - ra = a + b" for a b :: u64
    by simp_all
  show ?thesis
    using assms
    by (simp add: xgq_init_def Let_def xgq_soft_reset_def xgq_ring_write_consumed_def xgq_init_ring_def
      header_words_def init_header_def off cast ucast_down_up xgq_io_defs fun_upd_twist add.commute [of _ ra])
qed

lemma header_round_trip: "words_header (header_words hdr) = hdr"
  by (simp add: words_header_def header_words_def)

lemma pow2_and_mask: "j < 32 \<Longrightarrow> (2 ^ j :: u32) AND (2 ^ j - 1) = 0"
  using unat_and_pow2_minus_1 [where 'a = 32, of j "2 ^ j"] by (simp add: unat_slots unat_eq_0)

lemma two_le_pow2_u32: "1 \<le> j \<Longrightarrow> j < 32 \<Longrightarrow> \<not> (2 ^ j :: u32) < 2"
  using power_increasing [of 1 j "2::nat"] by (simp add: word_less_nat_alt unat_slots)

text \<open>
  What \<open>xgq_attach\<close> makes of a memory that holds a complete header with the producer pointers
  in it: the rings of the client, with the counters the memory has.
\<close>

lemma xgq_attach_header:
  assumes hdr: "xgq_copy_from_ring m (xq_io_hdl q0) ra 11 = header_words (init_header fl (2 ^ j) sz)"
    and fl: "XGQ_IS_IN_MEM_PROD fl" and j: "1 \<le> j" "j < 32"
    and fits: "44 + 2 ^ j * unat sz < 2 ^ 32"
  shows "xgq_attach m q0 af h ra sp cp = Inr (q0\<lparr>
     xq_flags := (ucast af OR (fl AND XGQ_DOUBLE_READ)) OR (fl AND XGQ_IN_MEM_PROD),
     xq_sq := (xgq_init_ring (ra + 36) (ra + 24) (ra + 44) (2 ^ j) sz)
        \<lparr>xr_produced := m (ra + 36), xr_consumed := m (ra + 24)\<rparr>,
     xq_cq := (xgq_init_ring (ra + 40) (ra + 28) (ra + 44 + ucast (2 ^ j :: u32) * ucast sz) (2 ^ j) 16)
        \<lparr>xr_produced := m (ra + 40), xr_consumed := m (ra + 28)\<rparr>\<rparr>, m)"
proof -
  have one: "xgq_copy_from_ring m (xq_io_hdl q0) ra 1 = take 1 (xgq_copy_from_ring m (xq_io_hdl q0) ra 11)"
    by (simp add: xgq_copy_from_ring_eq upt_11)
  have cq: "ucast (44 + 2 ^ j * sz :: u32) = (44 + ucast (2 ^ j :: u32) * ucast sz :: u64)"
  proof -
    have "unat (of_nat (44 + 2 ^ j * unat sz) :: u32) = 44 + 2 ^ j * unat sz"
      using fits by (intro unat_of_nat_small) simp
    then have "unat (44 + 2 ^ j * sz :: u32) = 44 + 2 ^ j * unat sz" by simp
    then have "ucast (44 + 2 ^ j * sz :: u32) = (of_nat (44 + 2 ^ j * unat sz) :: u64)"
      by (metis of_nat_unat)
    moreover have "ucast (2 ^ j :: u32) = (of_nat (2 ^ j) :: u64)"
      by (metis of_nat_unat unat_slots j(2))
    ultimately show ?thesis by simp
  qed
  have v: "drop_bit 16 (65536 :: u32) = 1" by (simp add: drop_bit_eq_div)
  show ?thesis
    unfolding xgq_attach_def one hdr header_round_trip
    using fl j
    by (simp add: init_header_def header_words_def pow2_and_mask two_le_pow2_u32 in_mem_flags Let_def
        xgq_fast_forward_def xgq_init_ring_def xgq_io_defs cq add.assoc v)
qed

lemma area_disjoint:
  assumes "X \<subseteq> {..<2 ^ 32}" and "Y \<subseteq> {..<2 ^ 32}" and "X \<inter> Y = {}"
  shows "area ra X \<inter> area ra Y = {}"
proof -
  have False if "x \<in> X" "y \<in> Y" "ra + of_nat x = ra + of_nat y" for x y
    using that assms of_nat_word_eq_iff [where 'a = 64, of x y] by (auto dest!: subsetD)
  then show ?thesis by (auto simp: area_def)
qed

lemma in_area: "x < 2 ^ 32 \<Longrightarrow> X \<subseteq> {..<2 ^ 32} \<Longrightarrow> (ra + of_nat x \<in> area ra X) = (x \<in> X)"
  using area_disjoint [of "{x}" X ra] by (auto simp: area_def)

lemma ring_cells_area:
  assumes "xr_slot_addr r = ra + of_nat off" and "unat (xr_slot_sz r) mod 4 = 0"
  shows "ring_cells r \<subseteq> area ra {off..<off + unat (xr_slot_num r) * unat (xr_slot_sz r)}"
proof
  fix x assume "x \<in> ring_cells r"
  then obtain i where x: "x = ring_cell r i" and i: "i < unat (xr_slot_num r) * slot_words r"
    by (auto simp: ring_cells_def)
  have sz: "unat (xr_slot_sz r) = 4 * slot_words r"
    using assms(2) by (auto simp: slot_words_def)
  have "x = ra + of_nat (off + 4 * i)" using x assms(1) by (simp add: ring_cell_def add.assoc)
  moreover have "off + 4 * i < off + unat (xr_slot_num r) * unat (xr_slot_sz r)"
    using i unfolding sz by simp
  ultimately show "x \<in> area ra {off..<off + unat (xr_slot_num r) * unat (xr_slot_sz r)}"
    unfolding area_def by (intro image_eqI [of _ _ "off + 4 * i"]) auto
qed

text \<open>The two rings of a fresh queue, side by side behind its header.\<close>

lemma fresh_rings:
  assumes "SQ = xgq_init_ring (ra + 36) (ra + 24) (ra + 44) (2 ^ j) sz"
    and "CQ = xgq_init_ring (ra + 40) (ra + 28) (ra + 44 + ucast (2 ^ j :: u32) * ucast sz) (2 ^ j) 16"
    and j: "1 \<le> j" "j < 32" and sz: "sz mod 4 = 0"
    and fits: "rings_len j [sz] < 2 ^ 32"
  shows "ring_wf SQ \<and> ring_wf CQ \<and> layout_ok SQ \<and> layout_ok CQ \<and> footprint CQ \<inter> footprint SQ = {}"
proof -
  have "unat (sz mod 4) = unat sz mod 4" by (simp add: unat_mod)
  then have sz': "unat sz mod 4 = 0" using sz by simp
  have len: "44 + 2 ^ j * unat sz + 2 ^ j * 16 < 2 ^ 32"
    using fits by (simp add: rings_len_def algebra_simps)
  have off: "ra + 44 + ucast (2 ^ j :: u32) * ucast sz = ra + of_nat (44 + 2 ^ j * unat sz)"
  proof -
    have "ucast (2 ^ j :: u32) = (of_nat (2 ^ j) :: u64)"
      by (metis of_nat_unat unat_slots j(2))
    then show ?thesis by (simp add: add.assoc)
  qed
  let ?S = "{44..<44 + 2 ^ j * unat sz}" and ?C = "{44 + 2 ^ j * unat sz..<44 + 2 ^ j * unat sz + 2 ^ j * 16}"
  have S: "ring_cells SQ \<subseteq> area ra ?S"
    using ring_cells_area [of SQ ra 44] assms(1) sz' j by (simp add: xgq_init_ring_def unat_slots)
  have C: "ring_cells CQ \<subseteq> area ra ?C"
    using ring_cells_area [of CQ ra "44 + 2 ^ j * unat sz"] assms(2) off j
    by (simp add: xgq_init_ring_def unat_slots)
  have sub: "?S \<subseteq> {..<2 ^ 32}" "?C \<subseteq> {..<2 ^ 32}" using len by auto
  have SC: "area ra ?C \<inter> area ra ?S = {}" using sub by (intro area_disjoint) auto
  have ptr: "ra + of_nat x \<notin> area ra ?S" "ra + of_nat x \<notin> area ra ?C" if "x < 44" for x
    using in_area [of x ?S ra] in_area [of x ?C ra] sub that by auto
  note ptrs = ptr [of 24] ptr [of 28] ptr [of 36] ptr [of 40]
  have "ring_wf SQ" "ring_wf CQ"
    using assms(1,2) sz' len j by (auto simp: ring_wf_def xgq_init_ring_def unat_slots intro!: exI [of _ j])
  moreover have "layout_ok SQ" "layout_ok CQ"
    using assms(1,2) S C ptrs by (auto simp: layout_ok_def xgq_init_ring_def)
  moreover have "footprint CQ \<inter> footprint SQ = {}"
  proof -
    have "footprint CQ \<subseteq> {ra + 40, ra + 28} \<union> area ra ?C" "footprint SQ \<subseteq> {ra + 36, ra + 24} \<union> area ra ?S"
      using S C assms(1,2) by (auto simp: footprint_def xgq_init_ring_def)
    moreover have "{ra + 40, ra + 28} \<inter> ({ra + 36, ra + 24} \<union> area ra ?S) = {}"
      and "area ra ?C \<inter> {ra + 36, ra + 24} = {}"
      using ptrs by simp_all
    ultimately show ?thesis using SC by blast
  qed
  ultimately show ?thesis by blast
qed

lemma xgq_alloc_eq:
  assumes "unat rlen < 2 ^ 31" and "sz mod 4 = 0" and "rings_len 1 [sz] \<le> unat rlen"
  obtains j where "1 \<le> j" "j < 27" "rings_len j [sz] \<le> unat rlen" "unat rlen < rings_len (Suc j) [sz]"
    "xgq_alloc m flags h ra rlen sz sp cp =
       (let (q, m') = xgq_init m flags h ra (ucast (2 ^ j :: u32)) sz sp cp
        in Inr (q, of_nat (rings_len j [sz]), m'))"
proof -
  obtain j where j: "xgq_alloc_num_slots rlen [sz] = 2 ^ j" "j < 27"
      "0 < j \<longrightarrow> rings_len j [sz] \<le> unat rlen" "unat rlen < rings_len (Suc j) [sz]"
    using xgq_alloc_num_slots_spec [of "[sz]" rlen] assms by auto
  have j1: "1 \<le> j" using j(4) assms(3) by (cases j) auto
  have "xgq_alloc m flags h ra rlen sz sp cp =
       (let (q, m') = xgq_init m flags h ra (ucast (2 ^ j :: u32)) sz sp cp
        in Inr (q, of_nat (rings_len j [sz]), m'))"
    using ring_len_of_nat [of j sz] assms(2) j j1 two_le_pow2_u32 [of j]
    by (simp add: xgq_alloc_def rings_len_def Let_def split_beta)
  then show thesis using that j j1 by auto
qed

lemma xgq_alloc_too_big:
  assumes "unat rlen < 2 ^ 31" and "rings_len 1 [sz] < 2 ^ 32"
    and "sz mod 4 = 0" and "unat rlen < rings_len 1 [sz]"
  shows "xgq_alloc m flags h ra rlen sz sp cp = Inl E2BIG"
proof -
  obtain j where j: "xgq_alloc_num_slots rlen [sz] = 2 ^ j" "j < 27"
      "0 < j \<longrightarrow> rings_len j [sz] \<le> unat rlen"
    using xgq_alloc_num_slots_spec [of "[sz]" rlen] assms by auto
  have mono: "rings_len 1 [sz] \<le> rings_len j [sz]" if "0 < j"
    using mult_le_mono1 [of 2 "2 ^ j" "unat sz + 16"] power_increasing [of 1 j "2::nat"] that
    by (simp add: rings_len_def)
  have "j = 0" using j(3) mono assms(4) by (cases "j = 0") auto
  then show ?thesis using j(1) assms(3) by (simp add: xgq_alloc_def)
qed

lemma sys_start_ok:
  assumes fl: "XGQ_IS_IN_MEM_PROD (ucast flags)" and rlen: "unat rlen < 2 ^ 31"
    and sz: "sz mod 4 = 0" and room: "rings_len 1 [sz] \<le> unat rlen"
  obtains s j where "sys_start m flags h ra rlen sz q0 af = Inr s" "sys_inv s"
    "sent s = (\<lambda>_. [])" "rcvd s = (\<lambda>_. [])" "1 \<le> j" "rings_len j [sz] \<le> unat rlen"
    "unat rlen < rings_len (Suc j) [sz]" "\<And>p. unat (xr_slot_num (prod_ring p (sy_q s p))) = 2 ^ j"
    "\<And>p. slot_words (prod_ring p (sy_q s p)) = (if p then 4 else unat sz div 4)"
proof -
  obtain j where j: "1 \<le> j" "j < 27" "rings_len j [sz] \<le> unat rlen" "unat rlen < rings_len (Suc j) [sz]"
    and alloc: "xgq_alloc m flags h ra rlen sz 0 0 =
       (let (q, m') = xgq_init m flags h ra (ucast (2 ^ j :: u32)) sz 0 0
        in Inr (q, of_nat (rings_len j [sz]), m'))"
    using xgq_alloc_eq [OF rlen sz room] by blast
  define SQ where "SQ = xgq_init_ring (ra + 36) (ra + 24) (ra + 44) (2 ^ j) sz"
  define CQ where "CQ = xgq_init_ring (ra + 40) (ra + 28) (ra + 44 + ucast (2 ^ j :: u32) * ucast sz) (2 ^ j) 16"
  define hw where "hw = header_words (init_header (ucast flags) (2 ^ j) sz)"
  define m1 where "m1 = xgq_copy_to_ring m h hw ra"
  have len: "length hw = 11" by (simp add: hw_def header_words_def)
  have at: "m1 (ra + of_nat (4 * i)) = hw ! i" if "i < 11" for i
    unfolding m1_def using xgq_copy_to_ring_at [of hw i m h ra] len that by simp
  have ptr: "m1 (ra + 24) = 0" "m1 (ra + 28) = 0" "m1 (ra + 36) = 0" "m1 (ra + 40) = 0"
    using at [of 6] at [of 7] at [of 9] at [of 10] by (simp_all add: hw_def header_words_def init_header_def)
  have hdr: "xgq_copy_from_ring m1 (xq_io_hdl q0) ra 11 = hw"
    using copy_from_copy_to_ring [of hw m h ra "xq_io_hdl q0"] len by (simp add: m1_def)
  have fits: "rings_len j [sz] < 2 ^ 32" "44 + 2 ^ j * unat sz < 2 ^ 32"
    using j(3) rlen by (simp_all add: rings_len_def algebra_simps)
  define qc where "qc = \<lparr>xq_io_hdl = h, xq_header_addr = ra, xq_flags = ucast flags, xq_sq = SQ, xq_cq = CQ\<rparr>"
  obtain fl' where att: "xgq_attach m1 q0 af h ra 0 0 = Inr (q0\<lparr>xq_flags := fl', xq_sq := SQ, xq_cq := CQ\<rparr>, m1)"
    using xgq_attach_header [of m1 q0 ra "ucast flags" j sz af h 0 0] hdr fl j fits(2) ptr
    by (simp add: hw_def SQ_def CQ_def xgq_init_ring_def)
  define s where "s = \<lparr>sy_mem = m1,
      sy_q = (\<lambda>srv. if srv then q0\<lparr>xq_flags := fl', xq_sq := SQ, xq_cq := CQ\<rparr> else qc),
      sent = (\<lambda>_. []), rcvd = (\<lambda>_. [])\<rparr>"
  have st: "sys_start m flags h ra rlen sz q0 af = Inr s"
    using alloc att fl by (simp add: sys_start_def xgq_init_in_mem_eq s_def qc_def SQ_def CQ_def m1_def hw_def cong: if_cong)
  have rings: "prod_ring p (sy_q s p) = (if p then CQ else SQ)" "cons_ring (\<not> p) (sy_q s (\<not> p)) = (if p then CQ else SQ)" for p
    by (simp_all add: s_def qc_def prod_ring_def cons_ring_def)
  have fr: "ring_wf SQ \<and> ring_wf CQ \<and> layout_ok SQ \<and> layout_ok CQ \<and> footprint CQ \<inter> footprint SQ = {}"
    using j sz fits by (intro fresh_rings [OF SQ_def CQ_def]) auto
  have "chan_inv m1 R R [] [] 0 0 0 0 0" if "R = SQ \<or> R = CQ" for R
    using that fr ptr by (auto simp: chan_inv_def same_ring_def SQ_def CQ_def xgq_init_ring_def)
  then have "chan_ok s p" for p
    using rings [of p] by (intro chan_okI) (auto simp: s_def)
  then have inv: "sys_inv s" using fr rings by (simp add: sys_inv_def)
  have slots: "unat (xr_slot_num (prod_ring p (sy_q s p))) = 2 ^ j"
    and words: "slot_words (prod_ring p (sy_q s p)) = (if p then 4 else unat sz div 4)" for p
    using rings(1) [of p] j
    by (simp_all add: SQ_def CQ_def xgq_init_ring_def unat_slots slot_words_def)
  have "sent s = (\<lambda>_. [])" "rcvd s = (\<lambda>_. [])" by (simp_all add: s_def)
  from that [OF st inv this j(1,3,4) slots words] show thesis .
qed

end
