(* ===== verification/Xgq_Spec.thy ===== *)
theory Xgq_Spec
  imports Xgq_Setup
begin

text \<open>
  What XGQ promises: each direction of a queue is a bounded FIFO. \<open>fifo_step\<close> is that
  specification, \<open>queue_of\<close> the abstraction of the protocol's state to it; the properties
  start at a client that has allocated the queue and a server that has attached to it.
\<close>

section \<open>The specification\<close>

text \<open>The entries in flight: produced by side \<open>p\<close> and not yet consumed by its peer.\<close>


definition queue_of :: "xgq_sys \<Rightarrow> bool \<Rightarrow> entry list" where
  "queue_of s p = drop (length (rcvd s p)) (sent s p)"

inductive fifo_step :: "nat \<Rightarrow> (bool \<Rightarrow> entry list) \<Rightarrow> (bool \<Rightarrow> entry list) \<Rightarrow> bool" for N where
  put: "length (f p) < N \<Longrightarrow> fifo_step N f (f(p := f p @ [e]))"
| get: "f p = e # es \<Longrightarrow> fifo_step N f (f(p := es))"

definition sys_slots :: "xgq_sys \<Rightarrow> bool \<Rightarrow> nat" where
  "sys_slots s p = unat (xr_slot_num (prod_ring p (sy_q s p)))"

text \<open>The states the two sides reach from an allocated and attached queue.\<close>

definition xgq_reach :: "u64 \<Rightarrow> u64 \<Rightarrow> u64 \<Rightarrow> u32 \<Rightarrow> xgq_sys \<Rightarrow> bool" where
  "xgq_reach flags ra rlen sz s =
     (\<exists>m h q0 af s0. sys_start m flags h ra rlen sz q0 af = Inr s0 \<and> sys_step\<^sup>*\<^sup>* s0 s)"

section \<open>Refinement of a bounded FIFO\<close>

lemma can_produce_slots:
  "xr_slot_num (prod_ring p' (snd (xgq_can_produce p m q))) = xr_slot_num (prod_ring p' q)"
  by (auto simp: xgq_can_produce_def Let_def xgq_io_defs prod_ring_def set_prod_ring_def)

lemma can_consume_slots:
  "xr_slot_num (prod_ring p' (snd (xgq_can_consume p m q))) = xr_slot_num (prod_ring p' q)"
  by (auto simp: xgq_can_consume_def Let_def xgq_io_defs prod_ring_def cons_ring_def set_cons_ring_def)

lemma set_ring_slots:
  "xr_slot_num r = xr_slot_num (prod_ring p q) \<Longrightarrow>
     xr_slot_num (prod_ring p' (set_prod_ring p r q)) = xr_slot_num (prod_ring p' q)"
  "xr_slot_num r = xr_slot_num (cons_ring p q) \<Longrightarrow>
     xr_slot_num (prod_ring p' (set_cons_ring p r q)) = xr_slot_num (prod_ring p' q)"
  by (auto simp: prod_ring_def cons_ring_def set_prod_ring_def set_cons_ring_def)

lemma sys_produce_slots: "sys_slots (snd (sys_produce p e s)) = sys_slots s"
  using can_produce_slots [of _ p "sy_mem s" "sy_q s p"]
  by (auto simp: sys_slots_def fun_eq_iff sys_produce_def xgq_produce_def Let_def set_ring_slots
      split: prod.splits sum.splits if_splits)

lemma sys_consume_slots: "sys_slots (snd (sys_consume p s)) = sys_slots s"
  using can_consume_slots [of _ "\<not> p" "sy_mem s" "sy_q s (\<not> p)"]
  by (auto simp: sys_slots_def fun_eq_iff sys_consume_def xgq_consume_def Let_def set_ring_slots
      split: prod.splits sum.splits if_splits)

lemma sys_step_slots: "sys_step s t \<Longrightarrow> sys_slots t = sys_slots s"
  by (induction rule: sys_step.induct)
    (simp_all add: sys_produce_slots sys_consume_slots,
     simp_all add: sys_slots_def fun_eq_iff sys_notify_produced_def sys_notify_consumed_def)

lemma sys_steps_slots: "sys_step\<^sup>*\<^sup>* s t \<Longrightarrow> sys_slots t = sys_slots s"
  by (induction rule: rtranclp_induct) (auto simp: sys_step_slots)

lemma side_ext: "f p = g p \<Longrightarrow> f (\<not> p) = g (\<not> p) \<Longrightarrow> f = g"
  by (cases p) (auto simp: fun_eq_iff all_bool_eq)

lemma sys_inv_fifo:
  assumes "sys_inv s"
  shows "sent s p = rcvd s p @ queue_of s p" and "length (queue_of s p) \<le> sys_slots s p"
proof -
  obtain b pub cp ack pc where "chan_inv (sy_mem s) (prod_ring p (sy_q s p))
      (cons_ring (\<not> p) (sy_q s (\<not> p))) (sent s p) (rcvd s p) b pub cp ack pc"
    using assms by (rule sys_inv_chan)
  then have "rcvd s p = take (length (rcvd s p)) (sent s p)"
    "length (sent s p) - length (rcvd s p) \<le> sys_slots s p"
    by (auto simp: chan_inv_def sys_slots_def)
  then show "sent s p = rcvd s p @ queue_of s p" "length (queue_of s p) \<le> sys_slots s p"
    unfolding queue_of_def by (metis append_take_drop_id, simp)
qed

lemma sys_produce_fifo:
  assumes "sys_inv s" and len: "length e = slot_words (prod_ring p (sy_q s p))"
    and res: "sys_produce p e s = (r, t)"
  shows "r = Inl ENOSPC \<and> queue_of t = queue_of s
    \<or> r = Inr () \<and> length (queue_of s p) < sys_slots s p
        \<and> queue_of t = (queue_of s)(p := queue_of s p @ [e])"
proof -
  obtain b pub cp ack pc where
    inv: "chan_inv (sy_mem s) (prod_ring p (sy_q s p)) (cons_ring (\<not> p) (sy_q s (\<not> p)))
       (sent s p) (rcvd s p) b pub cp ack pc" and lay: "layout_ok (prod_ring p (sy_q s p))"
    using assms(1) by (rule sys_inv_chan)
  note spec = sys_produce_spec [OF inv lay assms(1) len res]
  have other: "sent t (\<not> p) = sent s (\<not> p)"
    using res by (auto simp: sys_produce_def Let_def split: prod.splits sum.splits)
  have le: "ack \<le> length (rcvd s p)" "length (rcvd s p) \<le> length (sent s p)"
    using inv by (auto simp: chan_inv_def)
  have "queue_of t (\<not> p) = queue_of s (\<not> p)" using other spec(3) by (simp add: queue_of_def)
  moreover have "queue_of t p = (if r = Inr () then queue_of s p @ [e] else queue_of s p)"
    using spec(2,3) le by (simp add: queue_of_def)
  ultimately have q: "queue_of t = (if r = Inr () then (queue_of s)(p := queue_of s p @ [e]) else queue_of s)"
    by (intro side_ext [of _ p]) simp_all
  show ?thesis
    using spec(1) q le by (auto simp: queue_of_def sys_slots_def split: if_splits)
qed

lemma sys_consume_fifo:
  assumes "sys_inv s" and res: "sys_consume p s = (r, t)"
  shows "r = Inl ENOENT \<and> queue_of t = queue_of s
    \<or> (\<exists>e es. r = Inr e \<and> queue_of s p = e # es \<and> queue_of t = (queue_of s)(p := es))"
proof -
  obtain b pub cp ack pc where
    inv: "chan_inv (sy_mem s) (prod_ring p (sy_q s p)) (cons_ring (\<not> p) (sy_q s (\<not> p)))
       (sent s p) (rcvd s p) b pub cp ack pc"
    using assms(1) by (rule sys_inv_chan)
  note spec = sys_consume_spec [OF inv assms(1) res]
  have other: "rcvd t (\<not> p) = rcvd s (\<not> p)"
    using res by (auto simp: sys_consume_def Let_def split: prod.splits sum.splits)
  have pub: "pub \<le> length (sent s p)" using inv by (auto simp: chan_inv_def)
  have o: "queue_of t (\<not> p) = queue_of s (\<not> p)" using other spec(3) by (simp add: queue_of_def)
  show ?thesis
  proof (cases "length (rcvd s p) < pub")
    case True
    then have "queue_of s p = sent s p ! length (rcvd s p) # queue_of t p"
      using pub spec(2,3) by (simp add: queue_of_def Cons_nth_drop_Suc)
    moreover have "queue_of t = (queue_of s)(p := queue_of t p)"
      using o by (intro side_ext [of _ p]) simp_all
    ultimately show ?thesis using spec(1) True by auto
  next
    case False
    then have "queue_of t p = queue_of s p" using spec(2,3) by (simp add: queue_of_def)
    then have "queue_of t = queue_of s" using o by (intro side_ext [of _ p])
    then show ?thesis using spec(1) False by simp
  qed
qed

lemma sys_step_fifo:
  assumes "sys_step s t" and "sys_inv s" and N: "\<And>p. sys_slots s p = N"
  shows "queue_of t = queue_of s \<or> fifo_step N (queue_of s) (queue_of t)"
  using assms(1)
proof cases
  case (produce e p)
  from sys_produce_fifo [OF assms(2) produce(2) surjective_pairing] show ?thesis
    unfolding produce(1) by (elim disjE conjE) (simp_all add: fifo_step.put N)
next
  case (consume p)
  from sys_consume_fifo [OF assms(2) surjective_pairing, of p] show ?thesis
    unfolding consume by (elim disjE conjE exE) (simp_all add: fifo_step.get)
qed (simp_all add: queue_of_def fun_eq_iff sys_notify_produced_def sys_notify_consumed_def)

lemma xgq_reach_inv:
  assumes "xgq_reach flags ra rlen sz s" and "XGQ_IS_IN_MEM_PROD (ucast flags)"
    and "unat rlen < 2 ^ 31" and "sz mod 4 = 0" and "rings_len 1 [sz] \<le> unat rlen"
  obtains j where "sys_inv s" "\<And>p. sys_slots s p = 2 ^ j" "1 \<le> j" "rings_len j [sz] \<le> unat rlen"
    "unat rlen < rings_len (Suc j) [sz]"
proof -
  obtain m h q0 af s0 where start: "sys_start m flags h ra rlen sz q0 af = Inr s0"
    and steps: "sys_step\<^sup>*\<^sup>* s0 s" using assms(1) by (auto simp: xgq_reach_def)
  obtain s1 j where s1: "sys_start m flags h ra rlen sz q0 af = Inr s1" "sys_inv s1" "1 \<le> j"
    "rings_len j [sz] \<le> unat rlen" "unat rlen < rings_len (Suc j) [sz]"
    and slots: "\<And>p. sys_slots s1 p = 2 ^ j"
    unfolding sys_slots_def
    by (rule sys_start_ok [OF assms(2-5), where m = m and h = h and ?q0.0 = q0 and af = af and ra = ra]) blast
  have eq: "s1 = s0" using start s1(1) by simp
  show thesis
    by (rule that [of j]) (use s1 slots steps sys_steps_inv [of s0 s] sys_steps_slots [of s0 s] in \<open>simp_all add: eq\<close>)
qed

lemma sys_deliver:
  assumes "sys_inv s"
  shows "fst (sys_consume p (sys_notify_produced p s))
    = (case queue_of s p of [] \<Rightarrow> Inl ENOENT | e # _ \<Rightarrow> Inr e)"
proof -
  let ?s = "sys_notify_produced p s"
  obtain b pub cp ack pc where
    "chan_inv (sy_mem s) (prod_ring p (sy_q s p)) (cons_ring (\<not> p) (sy_q s (\<not> p)))
       (sent s p) (rcvd s p) b pub cp ack pc" and "layout_ok (prod_ring p (sy_q s p))"
    using assms by (rule sys_inv_chan)
  from chan_publish [OF this]
  have "chan_inv (sy_mem ?s) (prod_ring p (sy_q ?s p)) (cons_ring (\<not> p) (sy_q ?s (\<not> p)))
     (sent ?s p) (rcvd ?s p) b (length (sent s p)) cp ack pc"
    by (simp add: sys_notify_produced_def xgq_notify_peer_produced_def xgq_ring_write_produced_def xgq_io_defs)
  from sys_consume_spec(1) [OF this sys_notify_produced_inv [OF assms] surjective_pairing]
  show ?thesis
    using Cons_nth_drop_Suc [of "length (rcvd s p)" "sent s p", symmetric]
    by (cases "length (rcvd s p) < length (sent s p)")
      (simp_all add: queue_of_def sys_notify_produced_def)
qed

lemma sys_accept:
  assumes "sys_inv s" and len: "length e = slot_words (prod_ring p (sy_q s p))"
  shows "fst (sys_produce p e (sys_notify_consumed p s))
    = (if length (queue_of s p) < sys_slots s p then Inr () else Inl ENOSPC)"
proof -
  let ?s = "sys_notify_consumed p s"
  obtain b pub cp ack pc where
    "chan_inv (sy_mem s) (prod_ring p (sy_q s p)) (cons_ring (\<not> p) (sy_q s (\<not> p)))
       (sent s p) (rcvd s p) b pub cp ack pc" and "layout_ok (prod_ring p (sy_q s p))"
    using assms(1) by (rule sys_inv_chan)
  from chan_acknowledge [OF this] this(2)
  have "chan_inv (sy_mem ?s) (prod_ring p (sy_q ?s p)) (cons_ring (\<not> p) (sy_q ?s (\<not> p)))
     (sent ?s p) (rcvd ?s p) b pub cp (length (rcvd s p)) pc" "layout_ok (prod_ring p (sy_q ?s p))"
    by (simp_all add: sys_notify_consumed_def xgq_notify_peer_consumed_def xgq_ring_write_consumed_def xgq_io_defs)
  from sys_produce_spec(1) [OF this sys_notify_consumed_inv [OF assms(1)] _ surjective_pairing, of e] len
  show ?thesis by (simp add: queue_of_def sys_slots_def sys_notify_consumed_def)
qed

section \<open>Properties\<close>

text \<open>
  C1. A client that allocates a queue with its producer pointers in memory and a server that
  attaches to it always succeed when the ring buffer has room for two slots. From then on,
  in every interleaving of both sides' produce, consume and notify calls, what a side has
  consumed is a prefix of what its peer has produced, word for word and in order, and at
  most as many entries are in flight as the queue has slots, however often the 32-bit
  counters wrap around. The number of slots is the largest power of two that fits.
\<close>

theorem xgq_fifo:
  assumes "XGQ_IS_IN_MEM_PROD (ucast flags)" and "unat rlen < 2 ^ 31"
    and "sz mod 4 = 0" and "rings_len 1 [sz] \<le> unat rlen"
  shows "\<exists>s0 j. sys_start m flags h ra rlen sz q0 af = Inr s0
    \<and> 1 \<le> j \<and> rings_len j [sz] \<le> unat rlen \<and> unat rlen < rings_len (Suc j) [sz]
    \<and> (\<forall>s p. sys_step\<^sup>*\<^sup>* s0 s \<longrightarrow> (\<exists>rest. sent s p = rcvd s p @ rest \<and> length rest \<le> 2 ^ j))"
proof -
  obtain s0 j where start: "sys_start m flags h ra rlen sz q0 af = Inr s0" "sys_inv s0"
    "1 \<le> j" "rings_len j [sz] \<le> unat rlen" "unat rlen < rings_len (Suc j) [sz]"
    and slots: "\<And>p. sys_slots s0 p = 2 ^ j"
    unfolding sys_slots_def
    by (rule sys_start_ok [OF assms, where m = m and h = h and ?q0.0 = q0 and af = af and ra = ra]) blast
  have "sent s p = rcvd s p @ queue_of s p \<and> length (queue_of s p) \<le> 2 ^ j"
    if "sys_step\<^sup>*\<^sup>* s0 s" for s p
    using sys_inv_fifo [OF sys_steps_inv [OF that start(2)], of p] sys_steps_slots [OF that] slots
    by simp
  with start show ?thesis by blast
qed

text \<open>Witness of C1: a queue with 64-byte slots in a 4096-byte buffer at address 0.\<close>

theorem xgq_fifo_witness:
  "XGQ_IS_IN_MEM_PROD (ucast (4::u64)) \<and> rings_len 1 [64] \<le> unat (4096::u64)
   \<and> (\<forall>q. \<exists>s0 j. sys_start (\<lambda>_. 0) 4 0 0 4096 64 q 0 = Inr s0
    \<and> 1 \<le> j \<and> rings_len j [64] \<le> unat (4096::u64) \<and> unat (4096::u64) < rings_len (Suc j) [64]
    \<and> (\<forall>s p. sys_step\<^sup>*\<^sup>* s0 s \<longrightarrow> (\<exists>rest. sent s p = rcvd s p @ rest \<and> length rest \<le> 2 ^ j)))"
  using xgq_fifo [of 4 4096 64] by (simp add: XGQ_IS_IN_MEM_PROD_def rings_len_def)

text \<open>A state used by the witnesses below: one entry is in flight from the client.\<close>

lemma reach_one_entry:
  "\<exists>s. xgq_reach 4 0 4096 64 s \<and> queue_of s False = [replicate 16 7]
     \<and> slot_words (prod_ring False (sy_q s False)) = 16"
proof -
  have hyps: "XGQ_IS_IN_MEM_PROD (ucast (4::u64))" "unat (4096::u64) < 2 ^ 31" "(64::u32) mod 4 = 0"
    "rings_len 1 [64] \<le> unat (4096::u64)"
    by (simp_all add: XGQ_IS_IN_MEM_PROD_def rings_len_def)
  obtain s0 j where s0: "sys_start (\<lambda>_. 0) 4 0 0 4096 64 undefined 0 = Inr s0" "sys_inv s0"
    "sent s0 = (\<lambda>_. [])" "\<And>p. sys_slots s0 p = 2 ^ j"
    "\<And>p. slot_words (prod_ring p (sy_q s0 p)) = (if p then 4 else unat (64::u32) div 4)"
    unfolding sys_slots_def by (rule sys_start_ok [OF hyps]) blast
  let ?e = "replicate 16 7 :: entry" and ?s1 = "sys_notify_consumed False s0"
  let ?s2 = "snd (sys_produce False ?e ?s1)"
  have w: "slot_words (prod_ring False (sy_q ?s1 False)) = 16"
    using s0(5) [of False] by (simp add: sys_notify_consumed_def)
  have ok: "fst (sys_produce False ?e ?s1) = Inr ()"
    using sys_accept [OF s0(2), of ?e False] s0(3,4) s0(5) [of False] by (simp add: queue_of_def)
  have "queue_of ?s2 = (queue_of ?s1)(False := queue_of ?s1 False @ [?e])"
    using sys_produce_fifo [OF sys_notify_consumed_inv [OF s0(2)] _ surjective_pairing, of ?e False False] ok w
    by simp
  then have "queue_of ?s2 False = [?e]" using s0(3) by (simp add: queue_of_def sys_notify_consumed_def)
  moreover have "sys_step\<^sup>*\<^sup>* s0 ?s2"
    using sys_step.notify_consumed [of s0 False] sys_step.produce [of ?e False ?s1] w
    by (simp add: converse_rtranclp_into_rtranclp r_into_rtranclp)
  moreover have "slot_words (prod_ring False (sy_q ?s2 False)) = 16"
    using w by (auto simp: sys_produce_def xgq_produce_def xgq_can_produce_def prod_ring_def set_prod_ring_def
        xgq_io_defs Let_def slot_words_def split: prod.splits sum.splits if_splits)
  ultimately show ?thesis using s0(1) unfolding xgq_reach_def by blast
qed

text \<open>
  C2. Every step that either side takes in a reachable state refines the bounded FIFO with as
  many places as the queue has slots: it leaves both directions as they are, appends one
  entry to a direction that is not full, or removes the oldest entry of one.
\<close>

theorem xgq_refines_fifo:
  assumes "XGQ_IS_IN_MEM_PROD (ucast flags)" and "unat rlen < 2 ^ 31"
    and "sz mod 4 = 0" and "rings_len 1 [sz] \<le> unat rlen"
    and "xgq_reach flags ra rlen sz s" and "sys_step s t"
  shows "\<exists>j. rings_len j [sz] \<le> unat rlen \<and> unat rlen < rings_len (Suc j) [sz]
    \<and> (queue_of t = queue_of s \<or> fifo_step (2 ^ j) (queue_of s) (queue_of t))"
proof -
  from xgq_reach_inv [OF assms(5,1-4)] obtain j where j: "sys_inv s" "\<And>p. sys_slots s p = 2 ^ j"
    "rings_len j [sz] \<le> unat rlen" "unat rlen < rings_len (Suc j) [sz]" by blast
  with sys_step_fifo [OF assms(6) j(1,2)] show ?thesis by blast
qed

theorem xgq_refines_fifo_witness:
  "\<exists>s t. xgq_reach 4 0 4096 64 s \<and> sys_step s t
    \<and> (\<exists>j. rings_len j [64] \<le> unat (4096::u64) \<and> unat (4096::u64) < rings_len (Suc j) [64]
        \<and> (queue_of t = queue_of s \<or> fifo_step (2 ^ j) (queue_of s) (queue_of t)))"
proof -
  from reach_one_entry obtain s where "xgq_reach 4 0 4096 64 s" by blast
  with xgq_refines_fifo [of 4 4096 64 0 s, OF _ _ _ _ _ sys_step.consume] sys_step.consume [of s]
  show ?thesis by (simp add: XGQ_IS_IN_MEM_PROD_def rings_len_def) blast
qed

text \<open>
  C3. Nothing is lost: in a reachable state, once the producer publishes its entries, the
  peer's consume returns the oldest entry in flight, and \<open>-ENOENT\<close> exactly when there is none.
\<close>

theorem xgq_delivers:
  assumes "XGQ_IS_IN_MEM_PROD (ucast flags)" and "unat rlen < 2 ^ 31"
    and "sz mod 4 = 0" and "rings_len 1 [sz] \<le> unat rlen"
    and "xgq_reach flags ra rlen sz s"
  shows "fst (sys_consume p (sys_notify_produced p s))
    = (case queue_of s p of [] \<Rightarrow> Inl ENOENT | e # _ \<Rightarrow> Inr e)"
  using xgq_reach_inv [OF assms(5,1-4)] sys_deliver by blast

theorem xgq_delivers_witness:
  "\<exists>s. xgq_reach 4 0 4096 64 s
     \<and> fst (sys_consume False (sys_notify_produced False s)) = Inr (replicate 16 7)"
proof -
  from reach_one_entry obtain s where "xgq_reach 4 0 4096 64 s" "queue_of s False = [replicate 16 7]"
    by blast
  with xgq_delivers [of 4 4096 64 0 s False] show ?thesis
    by (auto simp: XGQ_IS_IN_MEM_PROD_def rings_len_def)
qed

text \<open>
  C4. No slot is leaked: in a reachable state, once the consumer has published what it consumed,
  a produce succeeds if fewer entries are in flight than the queue has slots, and returns
  \<open>-ENOSPC\<close> exactly when all slots hold entries in flight.
\<close>

theorem xgq_accepts:
  assumes "XGQ_IS_IN_MEM_PROD (ucast flags)" and "unat rlen < 2 ^ 31"
    and "sz mod 4 = 0" and "rings_len 1 [sz] \<le> unat rlen"
    and "xgq_reach flags ra rlen sz s" and "length e = slot_words (prod_ring p (sy_q s p))"
  shows "\<exists>j. rings_len j [sz] \<le> unat rlen \<and> unat rlen < rings_len (Suc j) [sz]
    \<and> fst (sys_produce p e (sys_notify_consumed p s))
        = (if length (queue_of s p) < 2 ^ j then Inr () else Inl ENOSPC)"
proof -
  from xgq_reach_inv [OF assms(5,1-4)] obtain j where j: "sys_inv s" "\<And>p. sys_slots s p = 2 ^ j"
    "rings_len j [sz] \<le> unat rlen" "unat rlen < rings_len (Suc j) [sz]" by blast
  with sys_accept [OF j(1) assms(6)] show ?thesis by auto
qed

theorem xgq_accepts_witness:
  "\<exists>s. xgq_reach 4 0 4096 64 s \<and> length (queue_of s False) = 1
    \<and> fst (sys_produce False (replicate 16 0) (sys_notify_consumed False s)) = Inr ()"
proof -
  from reach_one_entry obtain s where "xgq_reach 4 0 4096 64 s" "queue_of s False = [replicate 16 7]"
    "slot_words (prod_ring False (sy_q s False)) = 16" by blast
  with xgq_accepts [of 4 4096 64 0 s "replicate 16 0" False] show ?thesis
    by (auto simp: XGQ_IS_IN_MEM_PROD_def rings_len_def)
qed



lemma and_pred_pow2:
  fixes n :: nat
  assumes "n AND (n - 1) = 0" and "0 < n"
  shows "\<exists>k. n = 2 ^ k"
  using assms
proof (induction n rule: less_induct)
  case (less n)
  show ?case
  proof (cases "odd n")
    case True
    then obtain m where "n = 2 * m + 1" by (auto elim: oddE)
    moreover have "(2 * m + 1) AND (2 * m) = 2 * m" for m :: nat
      by (rule bit_eqI) (auto simp: bit_simps bit_Suc gr0_conv_Suc bit_0)
    ultimately have "n = 1" using less.prems by simp
    then show ?thesis by (intro exI [of _ 0]) simp
  next
    case False
    then obtain m where m: "n = 2 * m" "0 < m" using less.prems by (auto elim: evenE)
    have "(2 * m) AND (2 * m - 1) = 2 * (m AND (m - 1))"
      using m(2) by (subst and_nat_rec) (auto simp: gr0_conv_Suc)
    then have "m AND (m - 1) = 0" using less.prems m by simp
    then obtain k where "m = 2 ^ k" using less.IH [of m] m by auto
    then show ?thesis using m by (intro exI [of _ "Suc k"]) simp
  qed
qed

lemma double_read_loop_stops:
  "i \<le> n \<Longrightarrow> \<forall>k. i \<le> k \<and> k < n \<longrightarrow> rd k \<noteq> rd (Suc k) \<Longrightarrow> rd n = rd (Suc n) \<Longrightarrow>
   v0 \<noteq> v1 \<Longrightarrow> (if even i then v1 else v0) = rd i \<Longrightarrow> double_read_loop rd i v0 v1 = Some (rd n)"
proof (induction "n - i" arbitrary: i v0 v1)
  case 0
  then have "i = n" by simp
  then show ?case using 0
    by (simp add: double_read_loop.simps [of rd n v0 v1] double_read_loop.simps [of rd "Suc n"] split: if_splits)
next
  case (Suc d)
  then have "rd i \<noteq> rd (Suc i)" by auto
  with Suc.hyps(2) Suc.prems Suc.hyps(1) [of "Suc i" "rd (Suc i)" v1] Suc.hyps(1) [of "Suc i" v0 "rd (Suc i)"]
  show ?case by (subst double_read_loop.simps) auto
qed

lemma double_read_loop_reads:
  "double_read_loop rd i v0 v1 = Some y \<Longrightarrow> v0 \<noteq> v1 \<and> (if even i then v1 else v0) = rd i \<longrightarrow>
     (\<exists>n. rd n = rd (Suc n))"
proof (erule double_read_loop.raw_induct [where P = "\<lambda>rd i v0 v1 y.
    v0 \<noteq> v1 \<and> (if even i then v1 else v0) = rd i \<longrightarrow> (\<exists>n. rd n = rd (Suc n))", rotated])
  fix loop :: "(nat \<Rightarrow> u32) \<Rightarrow> nat \<Rightarrow> u32 \<Rightarrow> u32 \<Rightarrow> u32 option" and rd i v0 v1 y
  assume 1: "\<And>rd i v0 v1 y. loop rd i v0 v1 = Some y \<Longrightarrow>
      v0 \<noteq> v1 \<and> (if even i then v1 else v0) = rd i \<longrightarrow> (\<exists>n. rd n = rd (Suc n))"
    "(if v0 \<noteq> v1
      then if even i then loop rd (Suc i) (rd (Suc i)) v1 else loop rd (Suc i) v0 (rd (Suc i))
      else Some v0) = Some y"
  show "v0 \<noteq> v1 \<and> (if even i then v1 else v0) = rd i \<longrightarrow> (\<exists>n. rd n = rd (Suc n))"
  proof (intro impI)
    assume vs: "v0 \<noteq> v1 \<and> (if even i then v1 else v0) = rd i"
    show "\<exists>n. rd n = rd (Suc n)"
    proof (cases "rd i = rd (Suc i) \<or> odd i")
      case True
      moreover have "loop rd (Suc i) v0 (rd (Suc i)) = Some y" if "odd i" using 1(2) vs that by simp
      ultimately show ?thesis using 1(1) [of rd "Suc i" v0 "rd (Suc i)" y] vs by auto
    next
      case False
      then have "loop rd (Suc i) (rd (Suc i)) v1 = Some y" using 1(2) vs by simp
      from 1(1) [OF this] vs False show ?thesis by auto
    qed
  qed
qed

lemma attach_slots:
  assumes "(n :: u32) AND (n - 1) = 0" and "\<not> n < 2"
  shows "\<exists>k. 1 \<le> k \<and> k < 32 \<and> unat n = 2 ^ k"
proof -
  have two: "2 \<le> unat n" using assms(2) by (simp add: word_less_nat_alt)
  have "unat (n AND (n - 1)) = unat n AND (unat n - 1)"
    using two by (simp add: unsigned_and_eq unat_sub word_le_nat_alt)
  then obtain k where k: "unat n = 2 ^ k" using and_pred_pow2 [of "unat n"] assms(1) two by auto
  have "unat n < 2 ^ 32" using unsigned_less [of n] by simp
  then have "(2::nat) ^ k < 2 ^ 32" using k by simp
  then have "k < 32" by (rule power_less_imp_less_exp [rotated]) simp
  moreover have "1 \<le> k" using two k by (cases k) auto
  ultimately show ?thesis using k by blast
qed

text \<open>
  C29. \<open>xgq_attach\<close> accepts no header that would break the ring arithmetic: whatever the shared
  memory holds, a queue it returns has the magic and the major version in its header, and both
  of its rings have the same number of slots, a power of two from 2 to \<open>2 ^ 31\<close>, so masking a
  counter with that number minus one is the remainder modulo it.
\<close>

theorem xgq_attach_safe:
  assumes "xgq_attach m q0 flags h ra sp cp = Inr (q, m')"
  shows "m ra = XGQ_ALLOC_MAGIC \<and> drop_bit 16 (m (ra + 4)) = XGQ_MAJOR
    \<and> (\<exists>k. 1 \<le> k \<and> k < 32 \<and> unat (xr_slot_num (xq_sq q)) = 2 ^ k)
    \<and> xr_slot_num (xq_cq q) = xr_slot_num (xq_sq q)
    \<and> unat (c AND (xr_slot_num (xq_sq q) - 1)) = unat c mod unat (xr_slot_num (xq_sq q))"
proof -
  let ?n = "m (ra + 8)"
  have n: "xr_slot_num (xq_sq q) = ?n \<and> xr_slot_num (xq_cq q) = ?n \<and> m ra = XGQ_ALLOC_MAGIC
      \<and> drop_bit 16 (m (ra + 4)) = XGQ_MAJOR \<and> ?n AND (?n - 1) = 0 \<and> \<not> ?n < 2"
    using assms
    by (auto simp: xgq_attach_def Let_def words_header_def xgq_copy_from_ring_eq upt_11 xgq_io_defs
        xgq_fast_forward_def xgq_init_ring_def split: if_splits)
  then obtain k where k: "1 \<le> k" "k < 32" "unat ?n = 2 ^ k" using attach_slots by blast
  have "unat ?n = unat (2 ^ k :: u32)" using k unat_slots [of k] by simp
  then have "?n = 2 ^ k" by (rule unsigned_word_eqI)
  then have "unat (c AND (?n - 1)) = unat c mod unat ?n"
    using unat_and_pow2_minus_1 [where 'a = 32, of k c] k by simp
  then show ?thesis using n k by auto
qed

text \<open>Witness of C29: the header a client wrote, with two 64-byte slots.\<close>

theorem xgq_attach_safe_witness:
  "\<exists>q m'. xgq_attach (xgq_copy_to_ring (\<lambda>_. 0) 0 (header_words (init_header 4 2 64)) 4096)
      \<lparr>xq_io_hdl = 0, xq_header_addr = 0, xq_flags = 0, xq_sq = xgq_init_ring 0 0 0 0 0,
       xq_cq = xgq_init_ring 0 0 0 0 0\<rparr> 0 0 4096 0 0 = Inr (q, m')
    \<and> unat (5 AND (xr_slot_num (xq_sq q) - 1)) = 5 mod unat (xr_slot_num (xq_sq q))"
proof -
  let ?m = "xgq_copy_to_ring (\<lambda>_. 0) 0 (header_words (init_header 4 2 64)) 4096"
  let ?q0 = "\<lparr>xq_io_hdl = 0, xq_header_addr = 0, xq_flags = 0, xq_sq = xgq_init_ring 0 0 0 0 0,
       xq_cq = xgq_init_ring 0 0 0 0 0\<rparr>"
  have len: "length (header_words (init_header 4 2 64)) = 11" by (simp add: header_words_def)
  have "xgq_copy_from_ring ?m 0 4096 11 = header_words (init_header 4 2 64)"
    using copy_from_copy_to_ring [of "header_words (init_header 4 2 64)" "\<lambda>_. 0" 0 4096 0]
    unfolding len by simp
  then have "xgq_copy_from_ring ?m (xq_io_hdl ?q0) 4096 11 = header_words (init_header 4 (2 ^ 1) 64)"
    by simp
  from xgq_attach_header [OF this, of 0 0 0 0]
  have "\<exists>q m'. xgq_attach ?m ?q0 0 0 4096 0 0 = Inr (q, m')"
    by (simp add: XGQ_IS_IN_MEM_PROD_def)
  then obtain q m' where q: "xgq_attach ?m ?q0 0 0 4096 0 0 = Inr (q, m')" by blast
  from xgq_attach_safe [OF q, of 5] q show ?thesis by auto
qed

text \<open>
  \<open>xgq_double_read32\<close> on a location that another party may be writing returns the value of
  the first read that agrees with the read right after it; it never returns exactly when no two
  successive reads agree.
\<close>

theorem xgq_double_read_first_agreement:
  "xgq_double_read_seq rd =
     (if \<exists>n. rd n = rd (Suc n) then Some (rd (LEAST n. rd n = rd (Suc n))) else None)"
proof (cases "\<exists>n. rd n = rd (Suc n)")
  case True
  define P where "P = (\<lambda>n. rd n = rd (Suc n))"
  define n where "n = Least P"
  have "P n" unfolding n_def by (rule LeastI_ex) (use True in \<open>simp add: P_def\<close>)
  then have stop: "rd n = rd (Suc n)" by (simp only: P_def)
  have "\<not> P k" if "k < n" for k using that unfolding n_def by (rule not_less_Least)
  then have first: "\<forall>k. 0 \<le> k \<and> k < n \<longrightarrow> rd k \<noteq> rd (Suc k)" by (simp only: P_def) simp
  have "double_read_loop rd 0 (rd 0 - 1) (rd 0) = Some (rd n)"
    by (rule double_read_loop_stops [OF le0 first stop]) simp_all
  then show ?thesis using True by (simp add: xgq_double_read_seq_def n_def P_def)
next
  case False
  have "xgq_double_read_seq rd \<noteq> Some y" for y
  proof
    assume "xgq_double_read_seq rd = Some y"
    then have "double_read_loop rd 0 (rd 0 - 1) (rd 0) = Some y" by (simp only: xgq_double_read_seq_def)
    from double_read_loop_reads [OF this] False show False by simp
  qed
  then have "xgq_double_read_seq rd = None" by (cases "xgq_double_read_seq rd") auto
  then show ?thesis using False by simp
qed

end
