(* ===== verification/Ert.thy ===== *)
theory Ert
  imports Prelude
begin

text \<open>
  The packets of \<open>core/include/ert.h\<close>, in which user space submits commands: the header's
  bit fields, the check \<open>ert_valid_opcode\<close> that every packet passes before it is used, the
  bounds of the register map inside a packet, and the copy-BO packet. A packet is the sequence
  of its 32-bit words, word 0 the header; \<open>data\<close> starts at word 1 of a plain packet and at
  word 2, behind the CU mask, of a start-kernel packet.
\<close>

section \<open>Bit fields\<close>

definition get_field :: "nat \<Rightarrow> nat \<Rightarrow> u32 \<Rightarrow> u32" where
  "get_field lo n w = take_bit n (drop_bit lo w)"

definition set_field :: "nat \<Rightarrow> nat \<Rightarrow> u32 \<Rightarrow> u32 \<Rightarrow> u32" where
  "set_field lo n v w = (w AND NOT (push_bit lo (mask n))) OR push_bit lo (take_bit n v)"

section \<open>Packets\<close>

type_synonym execbuf = "nat \<Rightarrow> u32"

datatype ert_cmd_state =
    ERT_CMD_STATE_NEW | ERT_CMD_STATE_QUEUED | ERT_CMD_STATE_RUNNING | ERT_CMD_STATE_COMPLETED
  | ERT_CMD_STATE_ERROR | ERT_CMD_STATE_ABORT | ERT_CMD_STATE_SUBMITTED | ERT_CMD_STATE_TIMEOUT
  | ERT_CMD_STATE_NORESPONSE | ERT_CMD_STATE_SKERROR | ERT_CMD_STATE_SKCRASHED | ERT_CMD_STATE_MAX

fun ert_state_val :: "ert_cmd_state \<Rightarrow> u32" where
  "ert_state_val ERT_CMD_STATE_NEW = 1"
| "ert_state_val ERT_CMD_STATE_QUEUED = 2"
| "ert_state_val ERT_CMD_STATE_RUNNING = 3"
| "ert_state_val ERT_CMD_STATE_COMPLETED = 4"
| "ert_state_val ERT_CMD_STATE_ERROR = 5"
| "ert_state_val ERT_CMD_STATE_ABORT = 6"
| "ert_state_val ERT_CMD_STATE_SUBMITTED = 7"
| "ert_state_val ERT_CMD_STATE_TIMEOUT = 8"
| "ert_state_val ERT_CMD_STATE_NORESPONSE = 9"
| "ert_state_val ERT_CMD_STATE_SKERROR = 10"
| "ert_state_val ERT_CMD_STATE_SKCRASHED = 11"
| "ert_state_val ERT_CMD_STATE_MAX = 12"

text \<open>Opcodes and command types are the numbers that the header's fields hold.\<close>

abbreviation (input) ERT_START_CU :: u32 where "ERT_START_CU \<equiv> 0"
abbreviation (input) ERT_CONFIGURE :: u32 where "ERT_CONFIGURE \<equiv> 2"
abbreviation (input) ERT_EXIT :: u32 where "ERT_EXIT \<equiv> 3"
abbreviation (input) ERT_ABORT :: u32 where "ERT_ABORT \<equiv> 4"
abbreviation (input) ERT_EXEC_WRITE :: u32 where "ERT_EXEC_WRITE \<equiv> 5"
abbreviation (input) ERT_CU_STAT :: u32 where "ERT_CU_STAT \<equiv> 6"
abbreviation (input) ERT_START_COPYBO :: u32 where "ERT_START_COPYBO \<equiv> 7"
abbreviation (input) ERT_SK_CONFIG :: u32 where "ERT_SK_CONFIG \<equiv> 8"
abbreviation (input) ERT_SK_START :: u32 where "ERT_SK_START \<equiv> 9"
abbreviation (input) ERT_INIT_CU :: u32 where "ERT_INIT_CU \<equiv> 11"
abbreviation (input) ERT_START_FA :: u32 where "ERT_START_FA \<equiv> 12"
abbreviation (input) ERT_CLK_CALIB :: u32 where "ERT_CLK_CALIB \<equiv> 13"
abbreviation (input) ERT_MB_VALIDATE :: u32 where "ERT_MB_VALIDATE \<equiv> 14"
abbreviation (input) ERT_START_KEY_VAL :: u32 where "ERT_START_KEY_VAL \<equiv> 15"
abbreviation (input) ERT_ACCESS_TEST_C :: u32 where "ERT_ACCESS_TEST_C \<equiv> 16"
abbreviation (input) ERT_START_DPU :: u32 where "ERT_START_DPU \<equiv> 18"
abbreviation (input) ERT_CMD_CHAIN :: u32 where "ERT_CMD_CHAIN \<equiv> 19"
abbreviation (input) ERT_START_NPU :: u32 where "ERT_START_NPU \<equiv> 20"
abbreviation (input) ERT_START_NPU_PREEMPT :: u32 where "ERT_START_NPU_PREEMPT \<equiv> 21"

abbreviation (input) ERT_DEFAULT :: u32 where "ERT_DEFAULT \<equiv> 0"
abbreviation (input) ERT_CTRL :: u32 where "ERT_CTRL \<equiv> 2"
abbreviation (input) ERT_CU :: u32 where "ERT_CU \<equiv> 3"
abbreviation (input) ERT_SCU :: u32 where "ERT_SCU \<equiv> 4"

definition pkt_state :: "execbuf \<Rightarrow> u32" where "pkt_state p = get_field 0 4 (p 0)"
definition pkt_stat_enabled :: "execbuf \<Rightarrow> bool" where "pkt_stat_enabled p = (get_field 4 1 (p 0) \<noteq> 0)"
definition pkt_extra_cu_masks :: "execbuf \<Rightarrow> u32" where "pkt_extra_cu_masks p = get_field 10 2 (p 0)"
definition pkt_count :: "execbuf \<Rightarrow> u32" where "pkt_count p = get_field 12 11 (p 0)"
definition pkt_opcode :: "execbuf \<Rightarrow> u32" where "pkt_opcode p = get_field 23 5 (p 0)"
definition pkt_type :: "execbuf \<Rightarrow> u32" where "pkt_type p = get_field 28 4 (p 0)"

definition set_pkt_state :: "u32 \<Rightarrow> execbuf \<Rightarrow> execbuf" where
  "set_pkt_state v p = p(0 := set_field 0 4 v (p 0))"
definition set_pkt_extra_cu_masks :: "u32 \<Rightarrow> execbuf \<Rightarrow> execbuf" where
  "set_pkt_extra_cu_masks v p = p(0 := set_field 10 2 v (p 0))"
definition set_pkt_count :: "u32 \<Rightarrow> execbuf \<Rightarrow> execbuf" where
  "set_pkt_count v p = p(0 := set_field 12 11 v (p 0))"
definition set_pkt_opcode :: "u32 \<Rightarrow> execbuf \<Rightarrow> execbuf" where
  "set_pkt_opcode v p = p(0 := set_field 23 5 v (p 0))"
definition set_pkt_type :: "u32 \<Rightarrow> execbuf \<Rightarrow> execbuf" where
  "set_pkt_type v p = p(0 := set_field 28 4 v (p 0))"

text \<open>\<open>extra_cu_masks\<close> and \<open>count\<close> as the C integers they are promoted to.\<close>

abbreviation n_extra :: "execbuf \<Rightarrow> nat" where "n_extra p \<equiv> unat (pkt_extra_cu_masks p)"
abbreviation n_count :: "execbuf \<Rightarrow> nat" where "n_count p \<equiv> unat (pkt_count p)"

text \<open>
  \<open>ert_valid_opcode\<close>. The fields of a bit-field struct are promoted to \<open>int\<close>, so most sums are
  exact; \<open>num_cus\<close> of a configure packet is a \<open>uint32_t\<close>, so \<open>5 + ccmd->num_cus\<close> wraps. Counts
  multiplied by a \<open>sizeof\<close> are 64 bits wide.
\<close>

definition ert_valid_opcode :: "execbuf \<Rightarrow> bool" where
  "ert_valid_opcode p =
     (let opc = pkt_opcode p; count = n_count p; extra = n_extra p in
      if opc = ERT_START_CU then count \<ge> extra + 1 + 4
      else if opc = ERT_START_DPU then count \<ge> 1 + extra + 16 div 4
      else if opc = ERT_CMD_CHAIN then
        (ucast (pkt_count p) :: u64) = (ucast (p 1) * 8 + 24) div 4
      else if opc = ERT_START_NPU then count \<ge> 1 + extra + 16 div 4
      else if opc = ERT_START_NPU_PREEMPT then count \<ge> 1 + extra + 40 div 4
      else if opc = ERT_START_KEY_VAL then count \<ge> extra + 1
      else if opc = ERT_EXEC_WRITE then count \<ge> extra + 1 + 6
      else if opc = ERT_START_FA then count \<ge> extra + 1
      else if opc = ERT_SK_START then count \<ge> extra + 1 + 1
      else if opc = ERT_CONFIGURE then pkt_count p \<ge> 5 + p 2
      else if opc = ERT_START_COPYBO then count = 16
      else if opc = ERT_INIT_CU then count \<ge> extra + 9 + 4
      else if opc = ERT_SK_CONFIG then
        (ucast (pkt_count p) :: u64) = 28 * ucast (p 1) div 4 + 1
      else opc \<in> {ERT_CLK_CALIB, ERT_MB_VALIDATE, ERT_ACCESS_TEST_C, ERT_CU_STAT, ERT_EXIT, ERT_ABORT})"

definition get_ert_packet_size_bytes :: "execbuf \<Rightarrow> nat" where
  "get_ert_packet_size_bytes p = 4 + n_count p * 4"

text \<open>
  Pointers into a packet are word indices; the typed views return the index at which they
  start, \<open>None\<close> for a null pointer.
\<close>

definition get_ert_dpu_data :: "execbuf \<Rightarrow> nat option" where
  "get_ert_dpu_data p = (if pkt_opcode p \<noteq> ERT_START_DPU then None else Some (2 + n_extra p))"

definition get_ert_dpu_data_next :: "execbuf \<Rightarrow> nat \<Rightarrow> nat option" where
  "get_ert_dpu_data_next p d = (if p (d + 3) = 0 then None else Some (d + 4))"

definition get_ert_cmd_chain_data :: "execbuf \<Rightarrow> nat option" where
  "get_ert_cmd_chain_data p = (if pkt_opcode p \<noteq> ERT_CMD_CHAIN then None else Some 1)"

definition get_ert_npu_data :: "execbuf \<Rightarrow> nat option" where
  "get_ert_npu_data p = (if pkt_opcode p \<noteq> ERT_START_NPU then None else Some (2 + n_extra p))"

definition get_ert_npu_preempt_data :: "execbuf \<Rightarrow> nat option" where
  "get_ert_npu_preempt_data p =
     (if pkt_opcode p \<noteq> ERT_START_NPU_PREEMPT then None else Some (2 + n_extra p))"

text \<open>\<open>chained + 1\<close> is a \<open>uint32_t\<close> before it is multiplied; the property count is not.\<close>

definition get_ert_regmap_begin :: "execbuf \<Rightarrow> nat" where
  "get_ert_regmap_begin p =
     (case (get_ert_dpu_data p, get_ert_npu_data p, get_ert_npu_preempt_data p) of
        (Some d, _, _) \<Rightarrow> 2 + n_extra p + unat (p (d + 3) + 1) * 16 div 4
      | (None, Some d, _) \<Rightarrow> 2 + n_extra p + 16 div 4 + unat (p (d + 3))
      | (None, None, Some d) \<Rightarrow> 2 + n_extra p + 40 div 4 + unat (p (d + 9))
      | (None, None, None) \<Rightarrow> 2 + n_extra p)"

definition get_ert_regmap_end :: "execbuf \<Rightarrow> nat" where
  "get_ert_regmap_end p = 1 + n_count p"

text \<open>A pointer difference is signed; the result is converted to \<open>uint64_t\<close>.\<close>

definition get_ert_regmap_size_bytes :: "execbuf \<Rightarrow> u64" where
  "get_ert_regmap_size_bytes p =
     word_of_int (int (get_ert_regmap_end p) - int (get_ert_regmap_begin p)) * 4"

definition P2ROUNDUP :: "u64 \<Rightarrow> u64 \<Rightarrow> u64" where
  "P2ROUNDUP x align = - ((- x) AND (- align))"

definition ert_start_kernel_timestamps :: "execbuf \<Rightarrow> u64" where
  "ert_start_kernel_timestamps p = P2ROUNDUP (ucast (pkt_count p) * 4 + 4) 8"

definition get_size_with_timestamps_or_zero :: "execbuf \<Rightarrow> u64" where
  "get_size_with_timestamps_or_zero p =
     (if pkt_opcode p \<in> {ERT_START_CU, ERT_EXEC_WRITE, ERT_START_FA, ERT_SK_START} \<and> pkt_stat_enabled p
      then ert_start_kernel_timestamps p + 96 else 0)"

text \<open>
  The return code that a soft kernel leaves in the last word of its packet
  (\<open>ert_write_return_code\<close> and \<open>ert_read_return_code\<close>, without \<open>U30_DEBUG\<close>).
\<close>

definition return_code_index :: "execbuf \<Rightarrow> int" where
  "return_code_index p = 2 + (int (n_count p) - 1 - int (n_extra p))"

definition ert_write_return_code :: "execbuf \<Rightarrow> u32 \<Rightarrow> execbuf res" where
  "ert_write_return_code p v =
     (if return_code_index p < 0 then Inl FAULT else Inr (p(nat (return_code_index p) := v)))"

definition ert_read_return_code :: "execbuf \<Rightarrow> u32 res" where
  "ert_read_return_code p =
     (if return_code_index p < 0 then Inl FAULT else Inr (p (nat (return_code_index p))))"

section \<open>The copy-BO packet\<close>

text \<open>
  Word 0 is the header, words 1 to 4 the CU masks, 5 to 8 are reserved, 9 to 16 hold source,
  destination and size; the pointer \<open>arg\<close> follows at the next multiple of eight bytes.
\<close>

definition ert_fill_copybo_cmd ::
  "execbuf \<Rightarrow> u32 \<Rightarrow> u32 \<Rightarrow> u64 \<Rightarrow> u64 \<Rightarrow> u32 \<Rightarrow> execbuf" where
  "ert_fill_copybo_cmd p src_bo dst_bo src_offset dst_offset sz =
     (set_pkt_type ERT_DEFAULT (set_pkt_opcode ERT_START_COPYBO (set_pkt_count 16
        (set_pkt_extra_cu_masks 3 (set_pkt_state 1 p)))))
     (1 := 0, 2 := 0, 3 := 0, 4 := 0,
      9 := ucast src_offset, 10 := ucast (drop_bit 32 src_offset AND 0xFFFFFFFF), 11 := src_bo,
      12 := ucast dst_offset, 13 := ucast (drop_bit 32 dst_offset AND 0xFFFFFFFF), 14 := dst_bo,
      15 := sz, 16 := 0, 18 := 0, 19 := 0)"

definition ert_copybo_src_offset :: "execbuf \<Rightarrow> u64" where
  "ert_copybo_src_offset p = push_bit 32 (ucast (p 10)) OR ucast (p 9)"

definition ert_copybo_dst_offset :: "execbuf \<Rightarrow> u64" where
  "ert_copybo_dst_offset p = push_bit 32 (ucast (p 13)) OR ucast (p 12)"

definition ert_copybo_size :: "execbuf \<Rightarrow> u64" where
  "ert_copybo_size p = ucast (p 15)"

section \<open>Laws of the bit fields\<close>

named_theorems field_simps \<open>reading a bit field after writing one\<close>

lemma get_set_field_same:
  "lo + n \<le> 32 \<Longrightarrow> get_field lo n (set_field lo n v w) = take_bit n v"
  by (rule bit_eqI) (auto simp: get_field_def set_field_def bit_simps)

lemma get_set_field_other:
  "lo + n \<le> lo' \<or> lo' + n' \<le> lo \<Longrightarrow> get_field lo n (set_field lo' n' v w) = get_field lo n w"
  by (rule bit_eqI) (auto simp: get_field_def set_field_def bit_simps dest: bit_imp_le_length)

lemma unat_get_field_less: "unat (get_field lo n w) < 2 ^ n"
  by (simp add: get_field_def unsigned_take_bit_eq take_bit_nat_less_exp)

lemma pkt_field_bounds: "n_extra p < 4" "n_count p < 2048"
  using unat_get_field_less [of 10 2 "p 0"] unat_get_field_less [of 12 11 "p 0"]
  by (simp_all add: pkt_extra_cu_masks_def pkt_count_def)

lemmas pkt_field_defs = pkt_state_def pkt_stat_enabled_def pkt_extra_cu_masks_def pkt_count_def
  pkt_opcode_def pkt_type_def set_pkt_state_def set_pkt_extra_cu_masks_def set_pkt_count_def
  set_pkt_opcode_def set_pkt_type_def

lemma pkt_get_set [field_simps]:
  "pkt_count (set_pkt_count v p) = take_bit 11 v"
  "pkt_count (set_pkt_state v p) = pkt_count p" "pkt_count (set_pkt_extra_cu_masks v p) = pkt_count p"
  "pkt_count (set_pkt_opcode v p) = pkt_count p" "pkt_count (set_pkt_type v p) = pkt_count p"
  "pkt_opcode (set_pkt_opcode v p) = take_bit 5 v"
  "pkt_opcode (set_pkt_state v p) = pkt_opcode p" "pkt_opcode (set_pkt_extra_cu_masks v p) = pkt_opcode p"
  "pkt_opcode (set_pkt_count v p) = pkt_opcode p" "pkt_opcode (set_pkt_type v p) = pkt_opcode p"
  "pkt_extra_cu_masks (set_pkt_extra_cu_masks v p) = take_bit 2 v"
  "pkt_extra_cu_masks (set_pkt_state v p) = pkt_extra_cu_masks p"
  "pkt_extra_cu_masks (set_pkt_count v p) = pkt_extra_cu_masks p"
  "pkt_extra_cu_masks (set_pkt_opcode v p) = pkt_extra_cu_masks p"
  "pkt_extra_cu_masks (set_pkt_type v p) = pkt_extra_cu_masks p"
  "pkt_type (set_pkt_type v p) = take_bit 4 v" "pkt_type (set_pkt_state v p) = pkt_type p"
  "pkt_type (set_pkt_count v p) = pkt_type p" "pkt_type (set_pkt_opcode v p) = pkt_type p"
  "pkt_type (set_pkt_extra_cu_masks v p) = pkt_type p"
  "pkt_state (set_pkt_state v p) = take_bit 4 v" "pkt_state (set_pkt_type v p) = pkt_state p"
  "pkt_state (set_pkt_count v p) = pkt_state p" "pkt_state (set_pkt_opcode v p) = pkt_state p"
  "pkt_state (set_pkt_extra_cu_masks v p) = pkt_state p"
  by (simp_all add: pkt_field_defs get_set_field_same get_set_field_other)

lemma pkt_word_upd [field_simps]:
  "i \<noteq> 0 \<Longrightarrow> pkt_count (p(i := v)) = pkt_count p"
  "i \<noteq> 0 \<Longrightarrow> pkt_opcode (p(i := v)) = pkt_opcode p"
  "i \<noteq> 0 \<Longrightarrow> pkt_extra_cu_masks (p(i := v)) = pkt_extra_cu_masks p"
  "i \<noteq> 0 \<Longrightarrow> pkt_type (p(i := v)) = pkt_type p"
  "i \<noteq> 0 \<Longrightarrow> pkt_state (p(i := v)) = pkt_state p"
  by (simp_all add: pkt_field_defs)

lemma set_pkt_word [field_simps]:
  "i \<noteq> 0 \<Longrightarrow> set_pkt_count v p i = p i" "i \<noteq> 0 \<Longrightarrow> set_pkt_opcode v p i = p i"
  "i \<noteq> 0 \<Longrightarrow> set_pkt_extra_cu_masks v p i = p i" "i \<noteq> 0 \<Longrightarrow> set_pkt_type v p i = p i"
  "i \<noteq> 0 \<Longrightarrow> set_pkt_state v p i = p i"
  by (simp_all add: pkt_field_defs)

lemma join_halves:
  "push_bit 32 (ucast (ucast (drop_bit 32 (x :: u64) AND 0xFFFFFFFF) :: u32)) OR ucast (ucast x :: u32) = x"
proof -
  have m: "(0xFFFFFFFF :: u64) = mask 32" by (simp add: mask_eq_exp_minus_1)
  show ?thesis unfolding m by (rule bit_eqI) (auto simp: bit_simps)
qed

section \<open>Rounding up\<close>

lemma P2ROUNDUP_8: "P2ROUNDUP x 8 = x + take_bit 3 (- x)"
proof -
  have m: "(- 8 :: u64) = NOT (mask 3)" by (simp add: mask_eq_exp_minus_1 not_eq_complement)
  have split: "y = (y AND NOT (mask 3)) + take_bit 3 y" for y :: u64
    by (subst disjunctive_add_eq_or) (auto simp: bit_eq_iff bit_simps)
  have "(- x) AND NOT (mask 3) = - x - take_bit 3 (- x)"
    using split [of "- x"] by (metis add_diff_cancel_right')
  then show ?thesis by (simp only: P2ROUNDUP_def m) simp
qed

lemma unat_take_bit_u64: "unat (take_bit n (x :: u64)) < 2 ^ n"
  by (simp add: unsigned_take_bit_eq take_bit_nat_less_exp)

lemma P2ROUNDUP_8_bounds:
  assumes "unat x < 2 ^ 63"
  shows "unat (P2ROUNDUP x 8) mod 8 = 0" and "unat x \<le> unat (P2ROUNDUP x 8)"
    and "unat (P2ROUNDUP x 8) < unat x + 8"
proof -
  let ?r = "unat (take_bit 3 (- x))"
  have r8: "?r < 8" using unat_take_bit_u64 [of 3 "- x"] by simp
  then have sum: "unat (P2ROUNDUP x 8) = unat x + ?r"
    using assms by (simp add: P2ROUNDUP_8 unat_word_ariths)
  have "?r = unat (- x) mod 8"
    by (simp only: unsigned_take_bit_eq) (simp add: take_bit_eq_mod)
  then have "(unat x + ?r) mod 8 = (unat x + unat (- x)) mod 8" by (simp add: mod_add_right_eq)
  also have "\<dots> = 0"
  proof -
    have "2 ^ 64 dvd unat x + unat (- x)" using unat_word_ariths(1) [of x "- x"] by (simp add: mod_eq_0_iff_dvd)
    moreover have "(8::nat) dvd 2 ^ 64" by simp
    ultimately show ?thesis using dvd_trans mod_eq_0_iff_dvd by blast
  qed
  finally show "unat (P2ROUNDUP x 8) mod 8 = 0" using sum by simp
  show "unat x \<le> unat (P2ROUNDUP x 8)" "unat (P2ROUNDUP x 8) < unat x + 8"
    using sum r8 by simp_all
qed

section \<open>Properties\<close>

text \<open>
  The timestamps that the driver appends to a start packet are at a multiple of eight
  bytes, behind the last word of the packet, with less than eight bytes of padding.
\<close>

theorem ert_timestamps_placed:
  "unat (ert_start_kernel_timestamps p) mod 8 = 0
   \<and> get_ert_packet_size_bytes p \<le> unat (ert_start_kernel_timestamps p)
   \<and> unat (ert_start_kernel_timestamps p) < get_ert_packet_size_bytes p + 8"
proof -
  let ?x = "ucast (pkt_count p) * 4 + 4 :: u64"
  have "?x = of_nat (n_count p * 4 + 4)" by simp
  then have "unat ?x = n_count p * 4 + 4"
    using pkt_field_bounds(2) [of p] unat_of_nat_small [where 'a = 64, of "n_count p * 4 + 4"] by simp
  then show ?thesis
    using P2ROUNDUP_8_bounds [of ?x] pkt_field_bounds(2) [of p]
    by (simp add: ert_start_kernel_timestamps_def get_ert_packet_size_bytes_def)
qed

text \<open>
  A copy-BO packet that \<open>ert_fill_copybo_cmd\<close> fills passes \<open>ert_valid_opcode\<close> whatever the
  buffer held before, and its accessors return the offsets and the size that were put in.
\<close>

theorem ert_copybo_round_trip:
  "ert_valid_opcode (ert_fill_copybo_cmd p src_bo dst_bo src_offset dst_offset sz)
   \<and> ert_copybo_src_offset (ert_fill_copybo_cmd p src_bo dst_bo src_offset dst_offset sz) = src_offset
   \<and> ert_copybo_dst_offset (ert_fill_copybo_cmd p src_bo dst_bo src_offset dst_offset sz) = dst_offset
   \<and> ert_copybo_size (ert_fill_copybo_cmd p src_bo dst_bo src_offset dst_offset sz) = ucast sz"
proof -
  let ?p = "ert_fill_copybo_cmd p src_bo dst_bo src_offset dst_offset sz"
  have "pkt_opcode ?p = take_bit 5 7" "pkt_count ?p = take_bit 11 16"
    by (simp_all add: ert_fill_copybo_cmd_def field_simps del: fun_upd_apply)
  then have "pkt_opcode ?p = 7" "n_count ?p = 16" by simp_all
  then have "ert_valid_opcode ?p" by (simp add: ert_valid_opcode_def)
  moreover have "ert_copybo_src_offset ?p = src_offset" "ert_copybo_dst_offset ?p = dst_offset"
    using join_halves [of src_offset] join_halves [of dst_offset]
    by (simp_all add: ert_copybo_src_offset_def ert_copybo_dst_offset_def ert_fill_copybo_cmd_def)
  ultimately show ?thesis by (simp add: ert_copybo_size_def ert_fill_copybo_cmd_def)
qed

text \<open>
  In a packet of one of the plain start opcodes that \<open>ert_valid_opcode\<close> accepts, the register
  map lies inside the packet and its size in bytes does not wrap: it is four times the number of
  words behind the CU masks.
\<close>

theorem ert_valid_regmap:
  assumes "ert_valid_opcode p"
    and "pkt_opcode p \<in> {ERT_START_CU, ERT_START_KEY_VAL, ERT_EXEC_WRITE, ERT_START_FA, ERT_SK_START}"
  shows "get_ert_regmap_begin p \<le> get_ert_regmap_end p
    \<and> 4 * get_ert_regmap_end p \<le> get_ert_packet_size_bytes p
    \<and> unat (get_ert_regmap_size_bytes p) = 4 * (n_count p - (1 + n_extra p))"
proof -
  have le: "1 + n_extra p \<le> n_count p"
    using assms by (auto simp: ert_valid_opcode_def Let_def)
  have b: "get_ert_regmap_begin p = 2 + n_extra p"
    using assms(2) by (auto simp: get_ert_regmap_begin_def get_ert_dpu_data_def get_ert_npu_data_def
        get_ert_npu_preempt_data_def)
  have "get_ert_regmap_size_bytes p = of_nat (4 * (n_count p - (1 + n_extra p)))"
    using le by (simp add: get_ert_regmap_size_bytes_def b get_ert_regmap_end_def of_nat_diff algebra_simps)
  then have "unat (get_ert_regmap_size_bytes p) = 4 * (n_count p - (1 + n_extra p))"
    using pkt_field_bounds(2) [of p] unat_of_nat_small [where 'a = 64, of "4 * (n_count p - (1 + n_extra p))"]
    by simp
  then show ?thesis using le b by (simp add: get_ert_regmap_end_def get_ert_packet_size_bytes_def)
qed

theorem ert_valid_regmap_witness:
  "ert_valid_opcode (\<lambda>i. if i = 0 then 0x6001 else 0)
   \<and> unat (get_ert_regmap_size_bytes (\<lambda>i. if i = 0 then 0x6001 else 0)) = 20"
proof -
  let ?p = "(\<lambda>i. if i = 0 then 0x6001 else 0) :: execbuf"
  have "pkt_opcode ?p = 0" "n_count ?p = 6" "n_extra ?p = 0"
    by (simp_all add: pkt_field_defs get_field_def drop_bit_eq_div take_bit_eq_mod)
  then show ?thesis using ert_valid_regmap [of ?p] by (simp add: ert_valid_opcode_def)
qed

text \<open>
  The check of a configure packet adds 5 to the 32-bit \<open>num_cus\<close>, which wraps: a packet that
  claims \<open>2 ^ 32 - 5\<close> CUs passes it with an empty payload.
\<close>

lemma ert_configure_check_wraps:
  "\<exists>p. ert_valid_opcode p \<and> pkt_opcode p = ERT_CONFIGURE \<and> n_count p = 0 \<and> unat (p 2) = 2 ^ 32 - 5"
proof -
  let ?p = "(\<lambda>i. if i = 0 then 0x1000001 else if i = 2 then 0xFFFFFFFB else 0) :: execbuf"
  have "pkt_opcode ?p = 2" "pkt_count ?p = 0"
    by (simp_all add: pkt_field_defs get_field_def drop_bit_eq_div take_bit_eq_mod)
  then show ?thesis by (intro exI [of _ ?p]) (simp add: ert_valid_opcode_def)
qed

end
