(* ===== verification/Kds_Command.thy ===== *)
theory Kds_Command
  imports Ert
begin

text \<open>
  Commands of the kernel driver scheduler: the type of \<open>kds_command.h\<close>, the tables between KDS
  and ERT states (\<open>kds_ert_table.h\<close>), the conversions of user packets into commands at the end
  of \<open>kds_core.c\<close>, and the conversions into XGQ submission entries of \<open>xgq_execbuf.c\<close>.
\<close>

section \<open>Data\<close>

datatype kds_opcode =
    OP_NONE | OP_CONFIG | OP_START | OP_ABORT | OP_CONFIG_SK | OP_START_SK | OP_CLK_CALIB
  | OP_VALIDATE | OP_GET_STAT

datatype kds_status =
    KDS_NEW | KDS_QUEUED | KDS_RUNNING | KDS_COMPLETED | KDS_ERROR | KDS_ABORT | KDS_TIMEOUT
  | KDS_SKCRASHED | KDS_STAT_MAX

abbreviation (input) REGMAP :: u32 where "REGMAP \<equiv> 0"
abbreviation (input) KEY_VAL :: u32 where "KEY_VAL \<equiv> 1"
abbreviation (input) XGQ_CMD :: u32 where "XGQ_CMD \<equiv> 2"
abbreviation (input) NO_INDEX :: int where "NO_INDEX \<equiv> - 1"

abbreviation (input) KDS_CU :: u32 where "KDS_CU \<equiv> 0"
abbreviation (input) KDS_SCU :: u32 where "KDS_SCU \<equiv> 1"
abbreviation (input) KDS_ERT :: u32 where "KDS_ERT \<equiv> 2"

text \<open>
  The buffer \<open>info\<close> is the list of its 32-bit words, so its length is the size allocated; the
  client is named by a number. \<open>kc_tag\<close> stands for the address of the command: it tells
  commands apart and is never changed.
\<close>

record kds_command =
  kc_tag :: nat
  kc_client :: nat
  kc_status :: kds_status
  kc_rcode :: u32
  kc_cu_idx :: int
  kc_hw_ctx_id :: u32
  kc_type :: u32
  kc_opcode :: kds_opcode
  kc_payload_alloc :: bool
  kc_payload_type :: u32
  kc_info :: "u32 list"
  kc_isize :: u64
  kc_tick :: u32
  kc_timestamp_enabled :: bool
  kc_timestamp :: "kds_status \<Rightarrow> u64"
  kc_cu_mask :: "u32 list"
  kc_num_mask :: u32
  kc_start :: u64
  kc_execbuf :: execbuf
  kc_exec_bo_handle :: u32

text \<open>
  \<open>sz\<close> is in bytes; the buffer holds the words that lie in it completely. \<open>ok1\<close> and \<open>ok2\<close> say
  whether the two allocations succeed.
\<close>

definition kds_alloc_command :: "bool \<Rightarrow> bool \<Rightarrow> nat \<Rightarrow> nat \<Rightarrow> u32 \<Rightarrow> kds_command option" where
  "kds_alloc_command ok1 ok2 tag client sz =
     (if \<not> ok1 \<or> sz \<noteq> 0 \<and> \<not> ok2 then None
      else Some
       \<lparr>kc_tag = tag, kc_client = client, kc_status = KDS_NEW, kc_rcode = 0, kc_cu_idx = NO_INDEX,
        kc_hw_ctx_id = 0, kc_type = 0, kc_opcode = OP_NONE, kc_payload_alloc = (sz \<noteq> 0),
        kc_payload_type = 0, kc_info = replicate (unat sz div 4) 0, kc_isize = ucast sz,
        kc_tick = 0, kc_timestamp_enabled = False, kc_timestamp = (\<lambda>_. 0),
        kc_cu_mask = [0, 0, 0, 0], kc_num_mask = 0, kc_start = 0, kc_execbuf = (\<lambda>_. 0),
        kc_exec_bo_handle = 0\<rparr>)"

section \<open>State tables\<close>

fun kds_ert_table :: "kds_status \<Rightarrow> ert_cmd_state" where
  "kds_ert_table KDS_NEW = ERT_CMD_STATE_NEW"
| "kds_ert_table KDS_QUEUED = ERT_CMD_STATE_QUEUED"
| "kds_ert_table KDS_RUNNING = ERT_CMD_STATE_RUNNING"
| "kds_ert_table KDS_COMPLETED = ERT_CMD_STATE_COMPLETED"
| "kds_ert_table KDS_ERROR = ERT_CMD_STATE_ERROR"
| "kds_ert_table KDS_ABORT = ERT_CMD_STATE_ABORT"
| "kds_ert_table KDS_TIMEOUT = ERT_CMD_STATE_TIMEOUT"
| "kds_ert_table KDS_SKCRASHED = ERT_CMD_STATE_SKCRASHED"
| "kds_ert_table KDS_STAT_MAX = ERT_CMD_STATE_MAX"

text \<open>An entry that the initialiser of the C array does not name is zero, that is \<open>KDS_NEW\<close>.\<close>

fun ert_kds_table :: "ert_cmd_state \<Rightarrow> kds_status" where
  "ert_kds_table ERT_CMD_STATE_NEW = KDS_NEW"
| "ert_kds_table ERT_CMD_STATE_QUEUED = KDS_QUEUED"
| "ert_kds_table ERT_CMD_STATE_RUNNING = KDS_RUNNING"
| "ert_kds_table ERT_CMD_STATE_COMPLETED = KDS_COMPLETED"
| "ert_kds_table ERT_CMD_STATE_ERROR = KDS_ERROR"
| "ert_kds_table ERT_CMD_STATE_ABORT = KDS_ABORT"
| "ert_kds_table ERT_CMD_STATE_TIMEOUT = KDS_TIMEOUT"
| "ert_kds_table ERT_CMD_STATE_NORESPONSE = KDS_TIMEOUT"
| "ert_kds_table ERT_CMD_STATE_SKERROR = KDS_ERROR"
| "ert_kds_table ERT_CMD_STATE_SKCRASHED = KDS_SKCRASHED"
| "ert_kds_table ERT_CMD_STATE_MAX = KDS_STAT_MAX"
| "ert_kds_table ERT_CMD_STATE_SUBMITTED = KDS_NEW"

section \<open>Conversion of user packets\<close>

definition set_xcmd_timestamp :: "clock \<Rightarrow> kds_command \<Rightarrow> kds_status \<Rightarrow> kds_command \<times> clock" where
  "set_xcmd_timestamp c xcmd s =
     (if \<not> kc_timestamp_enabled xcmd then (xcmd, c)
      else let (t, c') = ktime_get c
           in (xcmd\<lparr>kc_timestamp := (kc_timestamp xcmd)(s := t)\<rparr>, c'))"

text \<open>
  \<open>memcpy\<close> of \<open>n\<close> words of a packet, starting at word \<open>src\<close>, to the front of a buffer. A copy
  that does not fit the buffer it writes to is a fault.
\<close>

definition words_from :: "execbuf \<Rightarrow> nat \<Rightarrow> nat \<Rightarrow> u32 list" where
  "words_from p src n = map p [src..<src + n]"

definition memcpy_front :: "u32 list \<Rightarrow> execbuf \<Rightarrow> nat \<Rightarrow> nat \<Rightarrow> u32 list res" where
  "memcpy_front dst p src n =
     (if n \<le> length dst then Inr (words_from p src n @ drop n dst) else Inl FAULT)"

text \<open>
  The loop \<open>i = 0; i < num_cus\<close> of \<open>cfg_ecmd2xcmd\<close> clears the low byte of the \<open>num_cus\<close> words
  from word 6 on; \<open>i\<close> is converted to unsigned for the comparison.
\<close>

definition cfg_ecmd2xcmd :: "execbuf \<Rightarrow> kds_command \<Rightarrow> (execbuf \<times> kds_command) res" where
  "cfg_ecmd2xcmd ecmd xcmd =
     (let e1 = ecmd(5 := set_field 8 1 1 (ecmd 5));
          n = unat (e1 2);
          e2 = (\<lambda>i. if 6 \<le> i \<and> i < 6 + n then e1 i AND NOT 0xFF else e1 i);
          x1 = xcmd\<lparr>kc_opcode := OP_CONFIG, kc_execbuf := e2, kc_isize := ucast (e1 2) * 4\<rparr>
      in case memcpy_front (kc_info x1) e2 6 n of
           Inl e \<Rightarrow> Inl e | Inr info \<Rightarrow> Inr (e2, x1\<lparr>kc_info := info\<rparr>))"

text \<open>The part that the start conversions share: time stamps and the CU masks.\<close>

definition start_common :: "clock \<Rightarrow> kds_opcode \<Rightarrow> execbuf \<Rightarrow> kds_command \<Rightarrow> kds_command \<times> clock" where
  "start_common c opc ecmd xcmd =
     (let x1 = xcmd\<lparr>kc_opcode := opc, kc_execbuf := ecmd\<rparr>;
          (x2, c') = (if pkt_stat_enabled ecmd
                      then set_xcmd_timestamp c (x1\<lparr>kc_timestamp_enabled := True\<rparr>) KDS_NEW
                      else (x1, c));
          extra = n_extra ecmd
      in (x2\<lparr>kc_cu_mask := ecmd 1 # words_from ecmd 2 extra @ drop (1 + extra) (kc_cu_mask x2),
            kc_num_mask := 1 + pkt_extra_cu_masks ecmd\<rparr>, c'))"

text \<open>
  Copy the words of the packet from \<open>data[skip + extra_cu_masks]\<close> on. \<open>num_mask\<close> is a \<open>u32\<close>, so
  the number of words is computed modulo \<open>2 ^ 32\<close> before it is scaled to bytes.
\<close>

definition copy_payload :: "u32 \<Rightarrow> execbuf \<Rightarrow> kds_command \<Rightarrow> kds_command res" where
  "copy_payload skip ecmd xcmd =
     (let n = pkt_count ecmd - kc_num_mask xcmd - skip
      in case memcpy_front (kc_info xcmd) ecmd (2 + unat skip + n_extra ecmd) (unat n) of
           Inl e \<Rightarrow> Inl e
         | Inr info \<Rightarrow> Inr (xcmd\<lparr>kc_isize := ucast n * 4, kc_info := info\<rparr>))"

definition start_skrnl_ecmd2xcmd ::
  "clock \<Rightarrow> execbuf \<Rightarrow> kds_command \<Rightarrow> (execbuf \<times> kds_command \<times> clock) res" where
  "start_skrnl_ecmd2xcmd c ecmd xcmd =
     (let (x1, c') = start_common c OP_START_SK ecmd xcmd
      in case copy_payload 0 ecmd x1 of
           Inl e \<Rightarrow> Inl e
         | Inr x2 \<Rightarrow> (let e' = set_pkt_type ERT_SCU ecmd in Inr (e', x2\<lparr>kc_execbuf := e'\<rparr>, c')))"

definition start_krnl_ecmd2xcmd ::
  "clock \<Rightarrow> execbuf \<Rightarrow> kds_command \<Rightarrow> (execbuf \<times> kds_command \<times> clock) res" where
  "start_krnl_ecmd2xcmd c ecmd xcmd =
     (let (x1, c') = start_common c OP_START ecmd xcmd
      in case copy_payload 4 ecmd x1 of
           Inl e \<Rightarrow> Inl e
         | Inr x2 \<Rightarrow> (let e' = set_pkt_type ERT_CU ecmd
                      in Inr (e', x2\<lparr>kc_payload_type := REGMAP, kc_execbuf := e'\<rparr>, c')))"

definition start_krnl_kv_ecmd2xcmd ::
  "clock \<Rightarrow> execbuf \<Rightarrow> kds_command \<Rightarrow> (execbuf \<times> kds_command \<times> clock) res" where
  "start_krnl_kv_ecmd2xcmd c ecmd xcmd =
     (let (x1, c') = start_common c OP_START ecmd xcmd
      in case copy_payload 0 ecmd x1 of
           Inl e \<Rightarrow> Inl e
         | Inr x2 \<Rightarrow> (let e' = set_pkt_type ERT_CU ecmd
                      in Inr (e', x2\<lparr>kc_payload_type := KEY_VAL, kc_execbuf := e'\<rparr>, c')))"

definition start_fa_ecmd2xcmd ::
  "clock \<Rightarrow> execbuf \<Rightarrow> kds_command \<Rightarrow> (execbuf \<times> kds_command \<times> clock) res" where
  "start_fa_ecmd2xcmd c ecmd xcmd =
     (let (x1, c') = start_common c OP_START ecmd xcmd
      in case copy_payload 0 ecmd x1 of
           Inl e \<Rightarrow> Inl e
         | Inr x2 \<Rightarrow> (let e' = set_pkt_type ERT_CTRL ecmd in Inr (e', x2\<lparr>kc_execbuf := e'\<rparr>, c')))"

text \<open>The 64-bit \<open>exec_bo_handle\<close> of an abort packet is aligned to byte 8; its low half is kept.\<close>

definition abort_ecmd2xcmd :: "execbuf \<Rightarrow> kds_command \<Rightarrow> kds_command res" where
  "abort_ecmd2xcmd ecmd xcmd =
     (case kc_info xcmd of
        [] \<Rightarrow> Inl FAULT
      | _ # ws \<Rightarrow> Inr (xcmd\<lparr>kc_opcode := OP_ABORT, kc_info := ecmd 2 # ws\<rparr>))"

section \<open>CU masks\<close>

text \<open>
  \<open>cu_mask_to_cu_idx\<close>: the inner loop scans the bits of one mask from bit \<open>j\<close> on, the outer loop
  the first \<open>num_mask\<close> masks. The indices are stored in a \<open>uint8_t\<close> array.
\<close>

function mask_bits :: "nat \<Rightarrow> nat \<Rightarrow> u32 \<Rightarrow> u8 list" where
  "mask_bits i j m =
     (if m > 0
      then (if m AND 1 = 0 then mask_bits i (Suc j) (drop_bit 1 m)
            else of_nat (i * 32 + j) # mask_bits i (Suc j) (drop_bit 1 m))
      else [])"
  by pat_completeness auto
termination
proof (relation "measure (\<lambda>(i, j, m). unat m)", goal_cases)
  case 1
  show ?case by simp
next
  case (2 i j m)
  then show ?case by (simp add: drop_bit_eq_div unat_div word_gt_0 unat_gt_0)
next
  case (3 i j m)
  then show ?case by (simp add: drop_bit_eq_div unat_div word_gt_0 unat_gt_0)
qed

declare mask_bits.simps [simp del]

definition cu_mask_to_cu_idx :: "kds_command \<Rightarrow> u8 list" where
  "cu_mask_to_cu_idx xcmd =
     concat (map (\<lambda>i. mask_bits i 0 (kc_cu_mask xcmd ! i)) [0..<unat (kc_num_mask xcmd)])"

section \<open>Conversion into XGQ submission entries\<close>

text \<open>
  The entry is built in the command's buffer: two header words (opcode 16 bits, count 15,
  state 1; then cid 16, CU index 12, CU domain 4) and the payload behind them. The payload size
  is an \<open>int\<close>; a negative one or one beyond the buffer makes the copy a fault.
\<close>

abbreviation (input) XGQ_CMD_OP_START_CUIDX :: u32 where "XGQ_CMD_OP_START_CUIDX \<equiv> 0x100"
abbreviation (input) XGQ_CMD_OP_START_CUIDX_KV :: u32 where "XGQ_CMD_OP_START_CUIDX_KV \<equiv> 0x102"
abbreviation (input) XGQ_CMD_OP_CLOCK_CALIB :: u32 where "XGQ_CMD_OP_CLOCK_CALIB \<equiv> 0x10c"
abbreviation (input) XGQ_CMD_OP_ACCESS_VALID :: u32 where "XGQ_CMD_OP_ACCESS_VALID \<equiv> 0x10d"
abbreviation (input) XGQ_CMD_OP_DATA_INTEGRITY :: u32 where "XGQ_CMD_OP_DATA_INTEGRITY \<equiv> 0x10e"
abbreviation (input) DOMAIN_PL :: u32 where "DOMAIN_PL \<equiv> 0"
abbreviation (input) DOMAIN_PS :: u32 where "DOMAIN_PS \<equiv> 1"

definition sq_hdr_word :: "u32 \<Rightarrow> u32 \<Rightarrow> u32 \<Rightarrow> u32" where
  "sq_hdr_word opc count w = set_field 31 1 1 (set_field 16 15 count (set_field 0 16 opc w))"

definition sq_write ::
  "u32 list \<Rightarrow> execbuf \<Rightarrow> nat \<Rightarrow> int \<Rightarrow> u32 \<Rightarrow> u32 \<Rightarrow> u32 option \<Rightarrow> u32 list res" where
  "sq_write buf ecmd src n opc count cdom =
     (if n < 0 \<or> length buf < 2 + nat n then Inl FAULT
      else let buf1 = take 2 buf @ words_from ecmd src (nat n) @ drop (2 + nat n) buf;
               buf2 = buf1[0 := sq_hdr_word opc count (buf1 ! 0)]
           in Inr (case cdom of None \<Rightarrow> buf2 | Some d \<Rightarrow> buf2[1 := set_field 28 4 d (buf2 ! 1)]))"

definition xgq_exec_convert_start_cu_cmd :: "u32 list \<Rightarrow> execbuf \<Rightarrow> (u32 list \<times> int) res" where
  "xgq_exec_convert_start_cu_cmd buf ecmd =
     (let n = int (n_count ecmd) - (1 + int (n_extra ecmd)) - 4
      in case sq_write buf ecmd (2 + 4 + n_extra ecmd) n XGQ_CMD_OP_START_CUIDX
                (word_of_int (n * 4)) (Some DOMAIN_PL) of
           Inl e \<Rightarrow> Inl e | Inr b \<Rightarrow> Inr (b, 8 + n * 4))"

definition xgq_exec_convert_start_scu_cmd :: "u32 list \<Rightarrow> execbuf \<Rightarrow> (u32 list \<times> int) res" where
  "xgq_exec_convert_start_scu_cmd buf ecmd =
     (let n = int (n_count ecmd) - (1 + int (n_extra ecmd))
      in case sq_write buf ecmd (2 + n_extra ecmd) n XGQ_CMD_OP_START_CUIDX
                (word_of_int (n * 4)) (Some DOMAIN_PS) of
           Inl e \<Rightarrow> Inl e | Inr b \<Rightarrow> Inr (b, 8 + n * 4))"

definition xgq_exec_convert_start_kv_cu_cmd :: "u32 list \<Rightarrow> execbuf \<Rightarrow> (u32 list \<times> int) res" where
  "xgq_exec_convert_start_kv_cu_cmd buf ecmd =
     (let n = int (n_count ecmd) - (1 + int (n_extra ecmd))
      in case sq_write buf ecmd (2 + n_extra ecmd) n XGQ_CMD_OP_START_CUIDX_KV
                (word_of_int (n * 4)) None of
           Inl e \<Rightarrow> Inl e | Inr b \<Rightarrow> Inr (b, 8 + n * 4))"

text \<open>
  The remaining conversions write the header only. \<open>hdr.count\<close> is a 15-bit field, and two of them
  add the value read back from it.
\<close>

definition xgq_exec_convert_clock_calib_cmd :: "u32 list \<Rightarrow> execbuf \<Rightarrow> (u32 list \<times> int) res" where
  "xgq_exec_convert_clock_calib_cmd buf ecmd =
     (case sq_write buf ecmd 0 0 XGQ_CMD_OP_CLOCK_CALIB (pkt_count ecmd * 4) None of
        Inl e \<Rightarrow> Inl e | Inr b \<Rightarrow> Inr (b, 8 + uint (get_field 16 15 (b ! 0))))"

definition xgq_exec_convert_accessible_cmd :: "u32 list \<Rightarrow> execbuf \<Rightarrow> (u32 list \<times> int) res" where
  "xgq_exec_convert_accessible_cmd buf ecmd =
     (case sq_write buf ecmd 0 0 XGQ_CMD_OP_ACCESS_VALID (pkt_count ecmd * 4) None of
        Inl e \<Rightarrow> Inl e | Inr b \<Rightarrow> Inr (b, 8 + uint (get_field 16 15 (b ! 0))))"

definition xgq_exec_convert_data_integrity_cmd :: "u32 list \<Rightarrow> execbuf \<Rightarrow> (u32 list \<times> int) res" where
  "xgq_exec_convert_data_integrity_cmd buf ecmd =
     (case sq_write buf ecmd 0 0 XGQ_CMD_OP_DATA_INTEGRITY (pkt_count ecmd * 4) None of
        Inl e \<Rightarrow> Inl e | Inr b \<Rightarrow> Inr (b, 16))"

section \<open>Specification of the conversions\<close>

text \<open>
  What a conversion that skips \<open>skip\<close> words of the payload should produce: the packet with type
  \<open>ty\<close> and a command that has the packet's CU masks and the rest of its payload.
\<close>

definition payload_converted ::
  "nat \<Rightarrow> u32 \<Rightarrow> execbuf \<Rightarrow> kds_command \<Rightarrow> (execbuf \<times> kds_command \<times> clock) res \<Rightarrow> bool" where
  "payload_converted skip ty p x r =
     (\<exists>x' c'. r = Inr (set_pkt_type ty p, x', c')
       \<and> unat (kc_isize x') = 4 * (n_count p - (1 + n_extra p) - skip)
       \<and> take (n_count p - (1 + n_extra p) - skip) (kc_info x')
           = words_from p (2 + skip + n_extra p) (n_count p - (1 + n_extra p) - skip)
       \<and> kc_cu_mask x' = p 1 # words_from p 2 (n_extra p) @ drop (1 + n_extra p) (kc_cu_mask x))"

section \<open>CU masks as bit sets\<close>

lemma mask_bits_eq:
  "j \<le> 32 \<Longrightarrow> unat m < 2 ^ (32 - j) \<Longrightarrow>
   mask_bits i j m = map (\<lambda>k. of_nat (i * 32 + k)) (filter (\<lambda>k. bit m (k - j)) [j..<32])"
proof (induction i j m rule: mask_bits.induct)
  case (1 i j m)
  show ?case
  proof (cases "m > 0")
    case False
    then have "m = 0" by (simp add: word_gt_0)
    then show ?thesis by (simp add: mask_bits.simps)
  next
    case True
    have j: "j < 32"
    proof (rule ccontr)
      assume "\<not> j < 32"
      then have "unat m < 1" using "1.prems" by simp
      then show False using True by (simp add: unat_eq_0)
    qed
    have "32 - j = Suc (32 - Suc j)" using j by simp
    then have "(2::nat) ^ (32 - j) = 2 * 2 ^ (32 - Suc j)" by simp
    then have half: "unat (drop_bit 1 m) < 2 ^ (32 - Suc j)"
      using "1.prems"(2) by (simp add: drop_bit_eq_div unat_div less_mult_imp_div_less mult.commute)
    have bits: "bit m (k - j) = bit (drop_bit 1 m) (k - Suc j)" if "Suc j \<le> k" for k
      using that by (simp add: bit_simps Suc_diff_Suc)
    have upt: "[j..<32] = j # [Suc j..<32]" using j by (simp add: upt_conv_Cons)
    have flt: "filter (\<lambda>k. bit m (k - j)) [Suc j..<32] = filter (\<lambda>k. bit (drop_bit 1 m) (k - Suc j)) [Suc j..<32]"
      using bits by (intro filter_cong) auto
    have b0: "bit m 0 \<longleftrightarrow> m AND 1 \<noteq> 0"
      by (simp add: bit_0 even_iff_mod_2_eq_zero and_one_eq)
    show ?thesis
      using True j half "1.IH" flt b0 by (subst mask_bits.simps) (simp add: upt)
  qed
qed

lemma mask_bits_word:
  assumes "i < 4"
  shows "map unat (mask_bits i 0 m) = filter (\<lambda>k. bit m (k mod 32)) [i * 32..<i * 32 + 32]"
proof -
  have "unat m < 2 ^ 32" using unsigned_less [of m] by simp
  then have "mask_bits i 0 m = map (\<lambda>k. of_nat (i * 32 + k)) (filter (bit m) [0..<32])"
    using mask_bits_eq [of 0 m i] by simp
  moreover have "unat (of_nat (i * 32 + k) :: u8) = i * 32 + k" if "k < 32" for k
    using that assms by (intro unat_of_nat_small) simp
  ultimately have "map unat (mask_bits i 0 m) = map (\<lambda>k. i * 32 + k) (filter (bit m) [0..<32])"
    by (simp del: of_nat_add)
  also have "\<dots> = filter (\<lambda>k. bit m (k mod 32)) (map (\<lambda>k. i * 32 + k) [0..<32])"
    by (simp add: filter_map comp_def) (rule filter_cong, auto)
  also have "map (\<lambda>k. i * 32 + k) [0..<32] = [i * 32..<i * 32 + 32]"
    by (simp add: map_add_upt add.commute)
  finally show ?thesis .
qed

lemma cu_mask_bits:
  "n \<le> 4 \<Longrightarrow> map unat (concat (map (\<lambda>i. mask_bits i 0 (ms ! i)) [0..<n]))
     = filter (\<lambda>k. bit (ms ! (k div 32)) (k mod 32)) [0..<32 * n]"
proof (induction n)
  case 0
  show ?case by simp
next
  case (Suc n)
  have parts: "[0..<32 * Suc n] = [0..<32 * n] @ [n * 32..<n * 32 + 32]"
    using upt_add_eq_append [of 0 "32 * n" 32] by (simp add: mult.commute add.commute)
  have "filter (\<lambda>k. bit (ms ! n) (k mod 32)) [n * 32..<n * 32 + 32]
      = filter (\<lambda>k. bit (ms ! (k div 32)) (k mod 32)) [n * 32..<n * 32 + 32]"
  proof (rule filter_cong [OF refl])
    fix k assume "k \<in> set [n * 32..<n * 32 + 32]"
    then have "k div 32 = n" by (simp add: div_nat_eqI)
    then show "bit (ms ! n) (k mod 32) = bit (ms ! (k div 32)) (k mod 32)" by simp
  qed
  then show ?case unfolding parts filter_append using Suc mask_bits_word [of n "ms ! n"] by simp
qed

section \<open>Conversions of valid packets\<close>

lemma copy_payload_ok:
  assumes "kc_num_mask x = 1 + pkt_extra_cu_masks p" and "n_count p \<le> length (kc_info x)"
    and "1 + n_extra p + unat skip \<le> n_count p"
  shows "copy_payload skip p x = Inr (x\<lparr>
     kc_isize := of_nat (4 * (n_count p - (1 + n_extra p) - unat skip)),
     kc_info := words_from p (2 + unat skip + n_extra p) (n_count p - (1 + n_extra p) - unat skip)
       @ drop (n_count p - (1 + n_extra p) - unat skip) (kc_info x)\<rparr>)"
proof -
  let ?k = "n_count p - (1 + n_extra p) - unat skip" and ?n = "pkt_count p - kc_num_mask x - skip"
  have le: "1 + n_extra p \<le> n_count p" using assms(3) by simp
  have "unat (1 + pkt_extra_cu_masks p) = 1 + n_extra p"
    using pkt_field_bounds(1) [of p] by (simp add: unat_word_ariths)
  then have "unat (pkt_count p - (1 + pkt_extra_cu_masks p)) = n_count p - (1 + n_extra p)"
    using le by (subst unat_sub) (simp_all add: word_le_nat_alt)
  then have n: "unat ?n = ?k"
    using assms by (subst unat_sub) (simp_all add: word_le_nat_alt)
  have "ucast ?n = (of_nat ?k :: u64)" using n by (metis of_nat_unat)
  then show ?thesis using n assms(2) by (simp add: copy_payload_def memcpy_front_def Let_def mult.commute)
qed

lemma start_common_fields:
  "start_common c opc p x = (x', c') \<Longrightarrow>
     kc_info x' = kc_info x \<and> kc_num_mask x' = 1 + pkt_extra_cu_masks p
     \<and> kc_opcode x' = opc \<and> kc_cu_mask x' = p 1 # words_from p 2 (n_extra p) @ drop (1 + n_extra p) (kc_cu_mask x)"
  by (auto simp: start_common_def Let_def set_xcmd_timestamp_def split: if_splits prod.splits)

lemma length_words_from [simp]: "length (words_from p src n) = n"
  by (simp add: words_from_def)

lemma converted:
  assumes "length (kc_info x) = n_count p" and "1 + n_extra p + unat skip \<le> n_count p"
    and "\<And>x. kc_isize (f x) = kc_isize x \<and> kc_info (f x) = kc_info x \<and> kc_cu_mask (f x) = kc_cu_mask x"
  shows "payload_converted (unat skip) ty p x
    (case copy_payload skip p (fst (start_common c opc p x)) of Inl e \<Rightarrow> Inl e
     | Inr x2 \<Rightarrow> Inr (set_pkt_type ty p, (f x2)\<lparr>kc_execbuf := set_pkt_type ty p\<rparr>, snd (start_common c opc p x)))"
proof -
  obtain x1 c' where x1: "start_common c opc p x = (x1, c')" by fastforce
  let ?k = "n_count p - (1 + n_extra p) - unat skip"
  note f = start_common_fields [OF x1]
  have "copy_payload skip p x1 = Inr (x1\<lparr>kc_isize := of_nat (4 * ?k),
      kc_info := words_from p (2 + unat skip + n_extra p) ?k @ drop ?k (kc_info x1)\<rparr>)"
    using f assms by (intro copy_payload_ok) auto
  moreover have "unat (of_nat (4 * ?k) :: u64) = 4 * ?k"
    using pkt_field_bounds(2) [of p] by (intro unat_of_nat_small) simp
  ultimately show ?thesis
    using f assms(3) x1 by (simp add: payload_converted_def)
qed

text \<open>Length and type of the payload of a converted command, for the cores that use it.\<close>

lemma copied_payload_shape:
  assumes "start_common c opc p x = (x1, c')" and "copy_payload skip p x1 = Inr x2"
    and "length (kc_info x) = n_count p" and "1 + n_extra p + unat skip \<le> n_count p"
  shows "unat (kc_isize x2) = 4 * (n_count p - (1 + n_extra p) - unat skip) \<and> length (kc_info x2) = n_count p"
proof -
  let ?k = "n_count p - (1 + n_extra p) - unat skip"
  note f = start_common_fields [OF assms(1)]
  have "x2 = x1\<lparr>kc_isize := of_nat (4 * ?k),
      kc_info := words_from p (2 + unat skip + n_extra p) ?k @ drop ?k (kc_info x1)\<rparr>"
    using copy_payload_ok [of x1 p skip] f assms by simp
  moreover have "unat (of_nat (4 * ?k) :: u64) = 4 * ?k"
    using pkt_field_bounds(2) [of p] by (intro unat_of_nat_small) simp
  ultimately show ?thesis using f assms(3) by simp
qed

section \<open>Properties\<close>

text \<open>
  \<open>cu_mask_to_cu_idx\<close> returns exactly the indices whose bit is set in the command's CU masks,
  in increasing order; none is lost to the 8-bit array it stores them in.
\<close>

theorem cu_mask_to_cu_idx_bits:
  assumes "unat (kc_num_mask x) \<le> 4"
  shows "map unat (cu_mask_to_cu_idx x)
    = filter (\<lambda>k. bit (kc_cu_mask x ! (k div 32)) (k mod 32)) [0..<32 * unat (kc_num_mask x)]"
  unfolding cu_mask_to_cu_idx_def by (rule cu_mask_bits [OF assms])

text \<open>An instance: two masks with bits 0, 2 and 33 set.\<close>

theorem cu_mask_to_cu_idx_bits_witness:
  "map unat (cu_mask_to_cu_idx ((the (kds_alloc_command True True 0 0 0))
     \<lparr>kc_cu_mask := [5, 2, 0, 0], kc_num_mask := 2\<rparr>))
   = filter (\<lambda>k. bit ([5, 2, 0, 0::u32] ! (k div 32)) (k mod 32)) [0..<64]"
  using cu_mask_to_cu_idx_bits [of "(the (kds_alloc_command True True 0 0 0))
     \<lparr>kc_cu_mask := [5, 2, 0, 0], kc_num_mask := 2\<rparr>"] by (simp add: kds_alloc_command_def)

text \<open>
  C30. Every start packet that \<open>ert_valid_opcode\<close> accepts is converted without a fault into a
  command whose buffer was allocated with \<open>count\<close> words, and the converted command carries the
  packet's CU masks and exactly the payload behind them (behind the four control registers for
  \<open>ERT_START_CU\<close>), with \<open>isize\<close> its true length: the unsigned subtractions do not wrap.
\<close>

theorem ecmd2xcmd_valid_packets:
  assumes "ert_valid_opcode p" and "length (kc_info x) = n_count p"
  shows "(pkt_opcode p = ERT_START_CU \<longrightarrow> payload_converted 4 ERT_CU p x (start_krnl_ecmd2xcmd c p x))
    \<and> (pkt_opcode p = ERT_START_KEY_VAL \<longrightarrow> payload_converted 0 ERT_CU p x (start_krnl_kv_ecmd2xcmd c p x))
    \<and> (pkt_opcode p = ERT_SK_START \<longrightarrow> payload_converted 0 ERT_SCU p x (start_skrnl_ecmd2xcmd c p x))
    \<and> (pkt_opcode p = ERT_START_FA \<longrightarrow> payload_converted 0 ERT_CTRL p x (start_fa_ecmd2xcmd c p x))"
proof -
  have cu: "1 + n_extra p + unat (4::u32) \<le> n_count p" if "pkt_opcode p = ERT_START_CU"
    using assms(1) that by (simp add: ert_valid_opcode_def Let_def)
  have others: "1 + n_extra p + unat (0::u32) \<le> n_count p"
    if "pkt_opcode p \<in> {ERT_START_KEY_VAL, ERT_SK_START, ERT_START_FA}"
    using assms(1) that by (auto simp: ert_valid_opcode_def Let_def)
  note conv = start_krnl_ecmd2xcmd_def start_krnl_kv_ecmd2xcmd_def start_skrnl_ecmd2xcmd_def start_fa_ecmd2xcmd_def
  show ?thesis
    using converted [OF assms(2) cu, where c = c and opc = OP_START and f = "\<lambda>x. x\<lparr>kc_payload_type := REGMAP\<rparr>" and ty = ERT_CU]
      converted [OF assms(2) others, where c = c and opc = OP_START and f = "\<lambda>x. x\<lparr>kc_payload_type := KEY_VAL\<rparr>" and ty = ERT_CU]
      converted [OF assms(2) others, where c = c and opc = OP_START_SK and f = "\<lambda>x. x" and ty = ERT_SCU]
      converted [OF assms(2) others, where c = c and opc = OP_START and f = "\<lambda>x. x" and ty = ERT_CTRL]
    unfolding conv Let_def split_beta by simp
qed

text \<open>Witness of C30: a packet with one CU mask, the four control registers and one argument.\<close>

theorem ecmd2xcmd_valid_packets_witness:
  "payload_converted 4 ERT_CU (\<lambda>i. if i = 0 then 0x6001 else of_nat i)
     (the (kds_alloc_command True True 0 0 24))
     (start_krnl_ecmd2xcmd (\<lambda>_. 0) (\<lambda>i. if i = 0 then 0x6001 else of_nat i)
        (the (kds_alloc_command True True 0 0 24)))"
proof -
  let ?p = "(\<lambda>i. if i = 0 then 0x6001 else of_nat i) :: execbuf"
  have "pkt_opcode ?p = 0" "n_count ?p = 6" "n_extra ?p = 0"
    by (simp_all add: pkt_field_defs get_field_def drop_bit_eq_div take_bit_eq_mod)
  then show ?thesis
    using ecmd2xcmd_valid_packets [of ?p "the (kds_alloc_command True True 0 0 24)" "\<lambda>_. 0"]
    by (simp add: ert_valid_opcode_def kds_alloc_command_def)
qed

lemma kds_ert_table_round_trip: "ert_kds_table (kds_ert_table s) = s"
  by (cases s) simp_all

lemma sq_hdr_word_fields:
  "get_field 0 16 (sq_hdr_word opc count w) = take_bit 16 opc"
  "get_field 16 15 (sq_hdr_word opc count w) = take_bit 15 count"
  "get_field 31 1 (sq_hdr_word opc count w) = 1"
  by (simp_all add: sq_hdr_word_def get_set_field_same get_set_field_other)

lemma sq_write_ok:
  assumes "2 + n \<le> length buf"
  shows "\<exists>b. sq_write buf p src (int n) opc count cdom = Inr b \<and> length b = length buf
    \<and> b ! 0 = sq_hdr_word opc count (buf ! 0) \<and> take n (drop 2 b) = words_from p src n"
proof -
  let ?b1 = "take 2 buf @ words_from p src n @ drop (2 + n) buf"
  obtain w0 w1 ws where buf: "buf = w0 # w1 # ws"
    using assms by (metis One_nat_def Suc_1 Suc_le_length_iff add_leE)
  show ?thesis using assms
    by (cases cdom) (simp_all add: sq_write_def buf numeral_2_eq_2)
qed

lemma sq_write_fault: "length buf < 2 + n \<Longrightarrow> sq_write buf p src (int n) opc count cdom = Inl FAULT"
  by (simp add: sq_write_def)

lemma convert_start_cu_entry:
  assumes "ert_valid_opcode p" and "pkt_opcode p = ERT_START_CU" and "length buf = n_count p"
  shows "\<exists>b. xgq_exec_convert_start_cu_cmd buf p = Inr (b, 8 + 4 * int (n_count p - (5 + n_extra p)))
    \<and> length b = length buf \<and> get_field 0 16 (b ! 0) = XGQ_CMD_OP_START_CUIDX
    \<and> unat (get_field 16 15 (b ! 0)) = 4 * (n_count p - (5 + n_extra p)) \<and> get_field 31 1 (b ! 0) = 1
    \<and> take (n_count p - (5 + n_extra p)) (drop 2 b)
        = words_from p (6 + n_extra p) (n_count p - (5 + n_extra p))"
proof -
  define k where "k = n_count p - (5 + n_extra p)"
  have le: "5 + n_extra p \<le> n_count p" using assms by (simp add: ert_valid_opcode_def Let_def)
  then have n: "int (n_count p) - (1 + int (n_extra p)) - 4 = int k" unfolding k_def by simp
  have room: "2 + k \<le> length buf" using le assms(3) unfolding k_def by linarith
  obtain b where b: "sq_write buf p (6 + n_extra p) (int k) 0x100 (word_of_int (int k * 4)) (Some 0) = Inr b"
    "length b = length buf" "b ! 0 = sq_hdr_word 0x100 (word_of_int (int k * 4)) (buf ! 0)"
    "take k (drop 2 b) = words_from p (6 + n_extra p) k"
    using sq_write_ok [OF room] by blast
  have "k * 4 < 2 ^ 15" using pkt_field_bounds(2) [of p] unfolding k_def by simp
  then have "unat (take_bit 15 (word_of_int (int k * 4) :: u32)) = k * 4"
    using unat_of_nat_small [where 'a = 32, of "k * 4"]
    by (simp add: unsigned_take_bit_eq take_bit_nat_eq_self)
  then show ?thesis unfolding k_def [symmetric] xgq_exec_convert_start_cu_cmd_def Let_def n
    using b by (simp add: sq_hdr_word_fields sq_hdr_word_fields(3) [unfolded One_nat_def] mult.commute)
qed

text \<open>
  \<open>xgq_exec_convert_start_cu_cmd\<close> turns every valid \<open>ERT_START_CU\<close> packet into a submission
  entry that fits the command's buffer of \<open>count\<close> words: the header has the opcode, the size of
  the payload and the new-entry flag, the payload follows it, and the returned size covers both.
\<close>

theorem xgq_exec_convert_start_cu_fits:
  assumes "ert_valid_opcode p" and "pkt_opcode p = ERT_START_CU" and "length buf = n_count p"
  shows "\<exists>b. xgq_exec_convert_start_cu_cmd buf p = Inr (b, 8 + 4 * int (n_count p - (5 + n_extra p)))
    \<and> length b = length buf \<and> get_field 0 16 (b ! 0) = XGQ_CMD_OP_START_CUIDX
    \<and> unat (get_field 16 15 (b ! 0)) = 4 * (n_count p - (5 + n_extra p)) \<and> get_field 31 1 (b ! 0) = 1
    \<and> take (n_count p - (5 + n_extra p)) (drop 2 b)
        = words_from p (6 + n_extra p) (n_count p - (5 + n_extra p))"
  using assms by (rule convert_start_cu_entry)

theorem xgq_exec_convert_start_cu_fits_witness:
  "\<exists>b. xgq_exec_convert_start_cu_cmd (replicate 6 0) (\<lambda>i. if i = 0 then 0x6001 else of_nat i) = Inr (b, 12)
     \<and> take 1 (drop 2 b) = [6]"
proof -
  let ?p = "(\<lambda>i. if i = 0 then 0x6001 else of_nat i) :: execbuf"
  have "pkt_opcode ?p = 0" "n_count ?p = 6" "n_extra ?p = 0"
    by (simp_all add: pkt_field_defs get_field_def drop_bit_eq_div take_bit_eq_mod)
  then show ?thesis
    using xgq_exec_convert_start_cu_fits [of ?p "replicate 6 0"]
    by (auto simp: ert_valid_opcode_def words_from_def)
qed

text \<open>
  C31. The buffer of \<open>count\<close> words is too small for soft-kernel and key-value commands without
  extra CU masks: for a valid \<open>ERT_SK_START\<close> or \<open>ERT_START_KEY_VAL\<close> packet the conversion writes
  one word past the end of the buffer exactly when \<open>extra_cu_masks\<close> is 0.
\<close>

theorem xgq_exec_convert_overflow:
  assumes "ert_valid_opcode p" and "pkt_opcode p \<in> {ERT_SK_START, ERT_START_KEY_VAL}"
    and "length buf = n_count p"
  shows "(xgq_exec_convert_start_scu_cmd buf p = Inl FAULT \<longleftrightarrow> n_extra p = 0)
    \<and> (xgq_exec_convert_start_kv_cu_cmd buf p = Inl FAULT \<longleftrightarrow> n_extra p = 0)"
proof -
  define k where "k = n_count p - (1 + n_extra p)"
  have le: "1 + n_extra p \<le> n_count p" using assms by (auto simp: ert_valid_opcode_def Let_def)
  then have n: "int (n_count p) - (1 + int (n_extra p)) = int k" unfolding k_def by simp
  have "sq_write buf p src (int k) opc count cdom \<noteq> Inl e" if "n_extra p \<noteq> 0" for src opc count cdom e
  proof -
    have "2 + k \<le> length buf" using that le assms(3) unfolding k_def by linarith
    from sq_write_ok [OF this, of p src opc count cdom] show ?thesis by auto
  qed
  moreover have "sq_write buf p src (int k) opc count cdom = Inl FAULT" if "n_extra p = 0" for src opc count cdom
    using that le assms(3) unfolding k_def by (intro sq_write_fault) linarith
  ultimately show ?thesis
    unfolding xgq_exec_convert_start_scu_cmd_def xgq_exec_convert_start_kv_cu_cmd_def Let_def n
    by (cases "n_extra p = 0") (auto split: sum.splits)
qed

text \<open>Witness of C31: a soft-kernel packet with a CU mask and one control word.\<close>

theorem xgq_exec_convert_overflow_witness:
  "xgq_exec_convert_start_scu_cmd (replicate 2 0) (\<lambda>i. if i = 0 then 0x4802001 else of_nat i) = Inl FAULT"
proof -
  let ?p = "(\<lambda>i. if i = 0 then 0x4802001 else of_nat i) :: execbuf"
  have "pkt_opcode ?p = 9" "n_count ?p = 2" "n_extra ?p = 0"
    by (simp_all add: pkt_field_defs get_field_def drop_bit_eq_div take_bit_eq_mod)
  then show ?thesis
    using xgq_exec_convert_overflow [of ?p "replicate 2 0"] by (simp add: ert_valid_opcode_def)
qed

end
