(* ===== verification/Xrt_Cu.thy ===== *)
theory Xrt_Cu
  imports Kds_Command "HOL-Library.Monad_Syntax" "HOL-Library.Multiset"
begin

text \<open>
  The compute unit of \<open>xrt_cu.h\<close> and \<open>xrt_cu.c\<close>: its queues and the thread that moves commands
  from the pending queue (\<open>pq\<close>) to the run queue (\<open>rq\<close>), into the core that drives the hardware
  (the submitted commands, of which only the number \<open>num_sq\<close> is kept here), to the completed
  queue (\<open>cq\<close>) and back to the host; the abort events, the debug log and the statistics.

  Commands are shared by pointer, so a queue is a list of addresses and the commands themselves
  are in a heap. \<open>kenv\<close> is what all the functions share: the heap, the clock, and what the
  callbacks \<open>notify_host\<close> and \<open>free\<close> of the commands have been called with. The core is reached
  through the function table \<open>xcu_funcs\<close>, an argument \<open>F\<close> of the functions that call it, over a
  core state of any type.

  A function that may not return normally (a loop that need not end, an access outside a list)
  returns an \<open>option\<close>.
\<close>

section \<open>Data\<close>

type_synonym cmd_heap = "nat \<Rightarrow> kds_command"

record kenv =
  e_heap :: cmd_heap
  e_clock :: clock
  e_notified :: "(nat \<times> kds_status) list"
  e_freed :: "nat list"

abbreviation (input) CU_AP_START :: u32 where "CU_AP_START \<equiv> 1"
abbreviation (input) CU_AP_DONE :: u32 where "CU_AP_DONE \<equiv> 2"
abbreviation (input) CU_AP_IDLE :: u32 where "CU_AP_IDLE \<equiv> 4"
abbreviation (input) CU_AP_CONTINUE :: u32 where "CU_AP_CONTINUE \<equiv> 0x10"
abbreviation (input) CU_AP_SW_RESET :: u32 where "CU_AP_SW_RESET \<equiv> 0x100"
abbreviation (input) CU_AP_CRASHED :: u32 where "CU_AP_CRASHED \<equiv> 0xFFFFFFFF"
abbreviation (input) CU_INTR_DONE :: u32 where "CU_INTR_DONE \<equiv> 1"
abbreviation (input) CU_INTR_READY :: u32 where "CU_INTR_READY \<equiv> 2"
abbreviation (input) CU_EXEC_DEFAULT_TTL :: u32 where "CU_EXEC_DEFAULT_TTL \<equiv> 10"
abbreviation (input) M2M_CU_ID :: u32 where "M2M_CU_ID \<equiv> 128"

datatype xcu_model = XCU_HLS | XCU_ACC | XCU_FA | XCU_XGQ | XCU_AUTO

datatype xcu_process_result = XCU_IDLE | XCU_BUSY

datatype cu_protocol = CTRL_HS | CTRL_CHAIN | CTRL_NONE | CTRL_ME | CTRL_ACC | CTRL_FA

record xcu_status =
  num_done :: u32
  num_ready :: u32
  new_status :: u32
  st_rcode :: u32

text \<open>
  The function table of a core; a \<open>None\<close> entry is a null pointer in the table. The table itself
  is there: every \<open>init\<close> function sets \<open>funcs\<close> before the compute unit is used.
\<close>

record 'c xcu_funcs =
  alloc_credit :: "'c \<Rightarrow> int \<times> 'c"
  free_credit :: "u32 \<Rightarrow> 'c \<Rightarrow> 'c"
  peek_credit :: "'c \<Rightarrow> int"
  configure :: "u32 list \<Rightarrow> u64 \<Rightarrow> u32 \<Rightarrow> 'c \<Rightarrow> (int \<times> 'c) option"
  fn_start :: "'c \<Rightarrow> 'c"
  fn_check :: "bool \<Rightarrow> cmd_heap \<Rightarrow> 'c \<Rightarrow> xcu_status \<times> cmd_heap \<times> 'c"
  submit_config :: "(nat \<Rightarrow> cmd_heap \<Rightarrow> 'c \<Rightarrow> (int \<times> 'c) option) option"
  get_complete :: "('c \<Rightarrow> nat option \<times> 'c) option"
  fn_abort :: "((kds_command \<Rightarrow> bool) \<Rightarrow> cmd_heap \<Rightarrow> 'c \<Rightarrow> int \<times> cmd_heap \<times> 'c) option"
  fn_reset :: "'c \<Rightarrow> 'c"
  reset_done :: "'c \<Rightarrow> bool \<times> 'c"
  enable_intr :: "u32 \<Rightarrow> 'c \<Rightarrow> 'c"
  disable_intr :: "u32 \<Rightarrow> 'c \<Rightarrow> 'c"
  clear_intr :: "'c \<Rightarrow> u32 \<times> 'c"

record xrt_cu_arg =
  arg_name :: string
  arg_offset :: u32
  arg_size :: u32
  arg_dir :: u32

record xrt_cu_info =
  ci_model :: xcu_model
  ci_slot_idx :: u32
  ci_cu_idx :: int
  ci_inst_idx :: int
  ci_addr :: u64
  ci_size :: u64
  ci_protocol :: cu_protocol
  ci_intr_id :: u32
  ci_intr_enable :: bool
  ci_sw_reset :: bool
  ci_args :: "xrt_cu_arg list"
  ci_iname :: string
  ci_kname :: string

record xrt_cu_stats =
  stats_tick :: u32
  stats_enabled :: bool
  last_ts_status :: bool
  max_sq_length :: u32
  sq_total :: u32
  sq_count :: u32
  st_idle :: bool
  last_timestamp :: u64
  last_read_idle_start :: u64
  last_idle_total :: u64
  usage_prev :: u64
  usage_curr :: u64
  idle_total :: u64
  idle_start :: u64
  idle_end :: u64

text \<open>The debug log: a ring of \<open>CIRC_BUF_SIZE\<close> bytes.\<close>

record circ_buf =
  circ_bytes :: "nat \<Rightarrow> u8"
  circ_head :: u64
  circ_tail :: u64

record 'c xrt_cu =
  x_info :: xrt_cu_info
  xcr_start :: u32
  xcr_end :: u32
  x_pq :: "nat list"
  num_pq :: u32
  x_hpq :: "nat list"
  num_hpq :: u32
  x_comp :: nat
  x_rq :: "nat list"
  num_rq :: u32
  num_sq :: u32
  x_cq :: "nat list"
  num_cq :: u32
  x_sem :: int
  x_sem_cu :: int
  x_core :: 'c
  x_stop :: bool
  bad_state :: bool
  done_cnt :: u32
  ready_cnt :: u32
  x_status :: u32
  x_rcode :: u32
  x_events :: "nat list"
  x_tick :: u32
  start_tick :: u32
  force_intr :: bool
  x_stats :: xrt_cu_stats
  x_thread :: bool
  poll_count :: u32
  poll_threshold :: u32
  interrupt_used :: bool
  sleep_cnt :: u32
  max_running :: u32
  is_ucu :: bool
  ucu_event :: int
  x_debug :: bool
  crc_buf :: circ_buf

text \<open>The structure as \<open>devm_kzalloc\<close> gives it to \<open>cu_probe\<close>, with the information filled in.\<close>

definition xrt_cu_zalloc :: "xrt_cu_info \<Rightarrow> 'c \<Rightarrow> 'c xrt_cu" where
  "xrt_cu_zalloc info core =
     \<lparr>x_info = info, xcr_start = 0, xcr_end = 0, x_pq = [], num_pq = 0, x_hpq = [], num_hpq = 0,
      x_comp = 0, x_rq = [], num_rq = 0, num_sq = 0, x_cq = [], num_cq = 0, x_sem = 0, x_sem_cu = 0,
      x_core = core, x_stop = False, bad_state = False, done_cnt = 0, ready_cnt = 0, x_status = 0,
      x_rcode = 0, x_events = [], x_tick = 0, start_tick = 0, force_intr = False,
      x_stats = \<lparr>stats_tick = 0, stats_enabled = False, last_ts_status = False, max_sq_length = 0,
        sq_total = 0, sq_count = 0, st_idle = False, last_timestamp = 0, last_read_idle_start = 0,
        last_idle_total = 0, usage_prev = 0, usage_curr = 0, idle_total = 0, idle_start = 0,
        idle_end = 0\<rparr>,
      x_thread = False, poll_count = 0, poll_threshold = 0, interrupt_used = False, sleep_cnt = 0,
      max_running = 0, is_ucu = False, ucu_event = 0, x_debug = False,
      crc_buf = \<lparr>circ_bytes = (\<lambda>_. 0), circ_head = 0, circ_tail = 0\<rparr>\<rparr>"

section \<open>The core's functions\<close>

definition xrt_cu_enable_intr :: "'c xcu_funcs \<Rightarrow> 'c xrt_cu \<Rightarrow> u32 \<Rightarrow> 'c xrt_cu" where
  "xrt_cu_enable_intr F xcu intr_type = xcu\<lparr>x_core := enable_intr F intr_type (x_core xcu)\<rparr>"

definition xrt_cu_disable_intr :: "'c xcu_funcs \<Rightarrow> 'c xrt_cu \<Rightarrow> u32 \<Rightarrow> 'c xrt_cu" where
  "xrt_cu_disable_intr F xcu intr_type = xcu\<lparr>x_core := disable_intr F intr_type (x_core xcu)\<rparr>"

definition xrt_cu_clear_intr :: "'c xcu_funcs \<Rightarrow> 'c xrt_cu \<Rightarrow> u32 \<times> 'c xrt_cu" where
  "xrt_cu_clear_intr F xcu = (let (r, c) = clear_intr F (x_core xcu) in (r, xcu\<lparr>x_core := c\<rparr>))"

definition xrt_cu_config ::
  "'c xcu_funcs \<Rightarrow> 'c xrt_cu \<Rightarrow> u32 list \<Rightarrow> u64 \<Rightarrow> u32 \<Rightarrow> (int \<times> 'c xrt_cu) option" where
  "xrt_cu_config F xcu data sz ty =
     do { (r, c) \<leftarrow> configure F data sz ty (x_core xcu); Some (r, xcu\<lparr>x_core := c\<rparr>) }"

definition xrt_cu_start :: "'c xcu_funcs \<Rightarrow> 'c xrt_cu \<Rightarrow> 'c xrt_cu" where
  "xrt_cu_start F xcu = xcu\<lparr>x_core := fn_start F (x_core xcu)\<rparr>"

definition xrt_cu_submit_config ::
  "'c xcu_funcs \<Rightarrow> 'c xrt_cu \<Rightarrow> kenv \<Rightarrow> nat \<Rightarrow> (int \<times> 'c xrt_cu) option" where
  "xrt_cu_submit_config F xcu e xcmd =
     (case submit_config F of
        None \<Rightarrow> Some (- 22, xcu)
      | Some f \<Rightarrow> do { (r, c) \<leftarrow> f xcmd (e_heap e) (x_core xcu); Some (r, xcu\<lparr>x_core := c\<rparr>) })"

definition xrt_cu_get_complete :: "'c xcu_funcs \<Rightarrow> 'c xrt_cu \<Rightarrow> nat option \<times> 'c xrt_cu" where
  "xrt_cu_get_complete F xcu =
     (case get_complete F of
        None \<Rightarrow> (None, xcu)
      | Some f \<Rightarrow> (let (r, c) = f (x_core xcu) in (r, xcu\<lparr>x_core := c\<rparr>)))"

definition xrt_cu_cmd_abort ::
  "'c xcu_funcs \<Rightarrow> 'c xrt_cu \<Rightarrow> kenv \<Rightarrow> (kds_command \<Rightarrow> bool) \<Rightarrow> int \<times> 'c xrt_cu \<times> kenv" where
  "xrt_cu_cmd_abort F xcu e match =
     (case fn_abort F of
        None \<Rightarrow> (- 22, xcu, e)
      | Some f \<Rightarrow> (let (r, h, c) = f match (e_heap e) (x_core xcu)
                  in (r, xcu\<lparr>x_core := c\<rparr>, e\<lparr>e_heap := h\<rparr>)))"

definition xrt_cu_reset :: "'c xcu_funcs \<Rightarrow> 'c xrt_cu \<Rightarrow> 'c xrt_cu" where
  "xrt_cu_reset F xcu = xcu\<lparr>x_core := fn_reset F (x_core xcu)\<rparr>"

definition xrt_cu_reset_done :: "'c xcu_funcs \<Rightarrow> 'c xrt_cu \<Rightarrow> bool \<times> 'c xrt_cu" where
  "xrt_cu_reset_done F xcu = (let (r, c) = reset_done F (x_core xcu) in (r, xcu\<lparr>x_core := c\<rparr>))"

definition xrt_cu_check_gen :: "'c xcu_funcs \<Rightarrow> bool \<Rightarrow> 'c xrt_cu \<Rightarrow> kenv \<Rightarrow> 'c xrt_cu \<times> kenv" where
  "xrt_cu_check_gen F force xcu e =
     (let (st, h, c) = fn_check F force (e_heap e) (x_core xcu)
      in (xcu\<lparr>x_core := c, done_cnt := done_cnt xcu + num_done st,
              ready_cnt := ready_cnt xcu + num_ready st,
              x_status := (if x_status xcu \<noteq> CU_AP_CRASHED then new_status st else x_status xcu),
              x_rcode := st_rcode st\<rparr>, e\<lparr>e_heap := h\<rparr>))"

definition xrt_cu_check :: "'c xcu_funcs \<Rightarrow> 'c xrt_cu \<Rightarrow> kenv \<Rightarrow> 'c xrt_cu \<times> kenv" where
  "xrt_cu_check F = xrt_cu_check_gen F False"

definition xrt_cu_check_force :: "'c xcu_funcs \<Rightarrow> 'c xrt_cu \<Rightarrow> kenv \<Rightarrow> 'c xrt_cu \<times> kenv" where
  "xrt_cu_check_force F = xrt_cu_check_gen F True"

definition xrt_cu_get_credit :: "'c xcu_funcs \<Rightarrow> 'c xrt_cu \<Rightarrow> int \<times> 'c xrt_cu" where
  "xrt_cu_get_credit F xcu = (let (r, c) = alloc_credit F (x_core xcu) in (r, xcu\<lparr>x_core := c\<rparr>))"

definition xrt_cu_peek_credit :: "'c xcu_funcs \<Rightarrow> 'c xrt_cu \<Rightarrow> int" where
  "xrt_cu_peek_credit F xcu = peek_credit F (x_core xcu)"

definition is_zero_credit :: "'c xcu_funcs \<Rightarrow> 'c xrt_cu \<Rightarrow> bool" where
  "is_zero_credit F xcu = (peek_credit F (x_core xcu) = 0)"

definition xrt_cu_put_credit :: "'c xcu_funcs \<Rightarrow> 'c xrt_cu \<Rightarrow> u32 \<Rightarrow> 'c xrt_cu" where
  "xrt_cu_put_credit F xcu cnt = xcu\<lparr>x_core := free_credit F cnt (x_core xcu)\<rparr>"

definition round_up_to_next_power2 :: "u32 \<Rightarrow> u32" where
  "round_up_to_next_power2 sz =
     (let v = sz - 1; v = v OR drop_bit 1 v; v = v OR drop_bit 2 v; v = v OR drop_bit 4 v;
          v = v OR drop_bit 8 v; v = v OR drop_bit 16 v
      in v + 1)"

section \<open>The debug log\<close>

abbreviation (input) CIRC_BUF_SIZE :: u64 where "CIRC_BUF_SIZE \<equiv> 2 * 4096"
abbreviation (input) CU_LOG_STAGE_RQ :: u32 where "CU_LOG_STAGE_RQ \<equiv> 1"
abbreviation (input) CU_LOG_STAGE_ISR :: u32 where "CU_LOG_STAGE_ISR \<equiv> 2"
abbreviation (input) CU_LOG_STAGE_SQ :: u32 where "CU_LOG_STAGE_SQ \<equiv> 3"
abbreviation (input) CU_LOG_STAGE_CQ :: u32 where "CU_LOG_STAGE_CQ \<equiv> 4"

text \<open>The macros of the kernel's \<open>circ_buf.h\<close>, for the size \<open>CIRC_BUF_SIZE\<close>.\<close>

definition CIRC_CNT :: "u64 \<Rightarrow> u64 \<Rightarrow> u64" where
  "CIRC_CNT head tail = (head - tail) AND (CIRC_BUF_SIZE - 1)"

definition CIRC_SPACE :: "u64 \<Rightarrow> u64 \<Rightarrow> u64" where
  "CIRC_SPACE head tail = CIRC_CNT tail (head + 1)"

definition CIRC_CNT_TO_END :: "u64 \<Rightarrow> u64 \<Rightarrow> u64" where
  "CIRC_CNT_TO_END head tail =
     (let end' = CIRC_BUF_SIZE - tail; n = (head + end') AND (CIRC_BUF_SIZE - 1)
      in if n < end' then n else end')"

text \<open>The 16 bytes of a log item: stage and command id, 32 bits each, then the time stamp.\<close>

definition log_item :: "u32 \<Rightarrow> u32 \<Rightarrow> u64 \<Rightarrow> u8 list" where
  "log_item stage cmd ts =
     map (\<lambda>i. ucast (drop_bit (8 * i) stage)) [0..<4]
     @ map (\<lambda>i. ucast (drop_bit (8 * i) cmd)) [0..<4]
     @ map (\<lambda>i. ucast (drop_bit (8 * i) ts)) [0..<8]"

definition write_bytes :: "(nat \<Rightarrow> u8) \<Rightarrow> nat \<Rightarrow> u8 list \<Rightarrow> nat \<Rightarrow> u8" where
  "write_bytes b off bs = (\<lambda>i. if off \<le> i \<and> i < off + length bs then bs ! (i - off) else b i)"

definition xrt_cu_circ_produce :: "'c xrt_cu \<Rightarrow> kenv \<Rightarrow> u32 \<Rightarrow> nat \<Rightarrow> 'c xrt_cu \<times> kenv" where
  "xrt_cu_circ_produce xcu e stage cmd =
     (if \<not> x_debug xcu then (xcu, e)
      else let b = crc_buf xcu; head = circ_head b; tail = circ_tail b;
               (ts, clk) = ktime_get (e_clock e);
               bytes = write_bytes (circ_bytes b) (unat head) (log_item stage (of_nat cmd) ts);
               tail1 = (if CIRC_SPACE head tail < 16
                        then (if tail + 16 \<ge> CIRC_BUF_SIZE then 0 else tail + 16) else tail);
               head1 = (if head + 16 \<ge> CIRC_BUF_SIZE then 0 else head + 16)
           in (xcu\<lparr>crc_buf := \<lparr>circ_bytes = bytes, circ_head = head1, circ_tail = tail1\<rparr>\<rparr>,
               e\<lparr>e_clock := clk\<rparr>))"

definition xrt_cu_circ_consume_all :: "'c xrt_cu \<Rightarrow> u64 \<Rightarrow> u8 list \<times> 'c xrt_cu" where
  "xrt_cu_circ_consume_all xcu sz =
     (let b = crc_buf xcu; head = circ_head b; tail = circ_tail b;
          cnt = CIRC_CNT head tail; cnt_to_end = CIRC_CNT_TO_END head tail;
          nread = (if sz < cnt then sz else cnt)
      in if nread \<le> cnt_to_end
         then (map (\<lambda>i. circ_bytes b (unat tail + i)) [0..<unat nread],
               xcu\<lparr>crc_buf := b\<lparr>circ_tail := tail + nread\<rparr>\<rparr>)
         else (map (\<lambda>i. circ_bytes b (unat tail + i)) [0..<unat cnt_to_end]
                 @ map (circ_bytes b) [0..<unat (nread - cnt_to_end)],
               xcu\<lparr>crc_buf := b\<lparr>circ_tail := nread - cnt_to_end\<rparr>\<rparr>))"

section \<open>Statistics\<close>

definition xrt_cu_init_ecmd_and_sq_count :: "'c xrt_cu \<Rightarrow> 'c xrt_cu" where
  "xrt_cu_init_ecmd_and_sq_count xcu =
     xcu\<lparr>x_stats := (x_stats xcu)\<lparr>sq_total := 0, sq_count := 0, usage_curr := 0, usage_prev := 0\<rparr>\<rparr>"

definition xrt_cu_incr_ecmd_count :: "'c xrt_cu \<Rightarrow> 'c xrt_cu" where
  "xrt_cu_incr_ecmd_count xcu =
     (if \<not> stats_enabled (x_stats xcu) then xcu
      else xcu\<lparr>x_stats := (x_stats xcu)\<lparr>usage_curr := usage_curr (x_stats xcu) + 1\<rparr>\<rparr>)"

definition xrt_cu_reset_sq_count :: "'c xrt_cu \<Rightarrow> 'c xrt_cu" where
  "xrt_cu_reset_sq_count xcu = xcu\<lparr>x_stats := (x_stats xcu)\<lparr>sq_total := 0, sq_count := 0\<rparr>\<rparr>"

definition xrt_cu_incr_sq_count :: "'c xrt_cu \<Rightarrow> 'c xrt_cu" where
  "xrt_cu_incr_sq_count xcu =
     (if \<not> stats_enabled (x_stats xcu) then xcu
      else xcu\<lparr>x_stats := (x_stats xcu)\<lparr>sq_total := sq_total (x_stats xcu) + num_sq xcu,
                                      sq_count := sq_count (x_stats xcu) + 1\<rparr>\<rparr>)"

definition xrt_cu_idle_start :: "'c xrt_cu \<Rightarrow> kenv \<Rightarrow> 'c xrt_cu \<times> kenv" where
  "xrt_cu_idle_start xcu e =
     (if \<not> stats_enabled (x_stats xcu) \<or> num_sq xcu > 0 \<or> num_rq xcu > 0 \<or> num_pq xcu > 0
      then (xcu, e)
      else let (t, clk) = ktime_get (e_clock e)
           in (xcu\<lparr>x_stats := (x_stats xcu)\<lparr>idle_start := t, st_idle := True\<rparr>\<rparr>, e\<lparr>e_clock := clk\<rparr>))"

definition xrt_cu_idle_end :: "'c xrt_cu \<Rightarrow> kenv \<Rightarrow> 'c xrt_cu \<times> kenv" where
  "xrt_cu_idle_end xcu e =
     (if \<not> stats_enabled (x_stats xcu) \<or> num_pq xcu = 0 \<and> num_sq xcu = 0 \<and> num_rq xcu = 0
      then (xcu, e)
      else if st_idle (x_stats xcu)
           then let (t, clk) = ktime_get (e_clock e); s = x_stats xcu
                in (xcu\<lparr>x_stats := s\<lparr>idle_end := t, idle_total := idle_total s + (t - idle_start s),
                                    st_idle := False\<rparr>\<rparr>, e\<lparr>e_clock := clk\<rparr>)
           else (xcu, e))"

definition cu_timer :: "'c xrt_cu \<Rightarrow> 'c xrt_cu" where
  "cu_timer xcu = xcu\<lparr>x_tick := x_tick xcu + 1\<rparr>"

definition cu_stats_timer :: "'c xrt_cu \<Rightarrow> 'c xrt_cu" where
  "cu_stats_timer xcu =
     (if \<not> stats_enabled (x_stats xcu) then xcu
      else xrt_cu_incr_sq_count (xcu\<lparr>x_stats := (x_stats xcu)\<lparr>stats_tick := stats_tick (x_stats xcu) + 1\<rparr>\<rparr>))"

text \<open>\<open>div64_u64\<close> by zero is a fault.\<close>

definition xrt_cu_get_idle ::
  "'c xrt_cu \<Rightarrow> u64 \<Rightarrow> u64 \<Rightarrow> u64 \<Rightarrow> u64 \<Rightarrow> bool \<Rightarrow> u64 \<Rightarrow> (u64 \<times> 'c xrt_cu) option" where
  "xrt_cu_get_idle xcu last_ts istart last_istart delta_idle idle new_ts =
     (let s = x_stats xcu; delta = new_ts - last_ts;
          cu_idle = (if idle
                     then (if last_ts_status s then delta_idle + new_ts - istart
                           else if delta_idle = 0 then delta
                           else delta_idle - (last_ts - last_istart) + (new_ts - istart))
                     else (if last_ts_status s then delta_idle
                           else delta_idle - (last_ts - last_istart)))
      in if delta = 0 then None
         else Some (cu_idle * 100 div delta,
                    xcu\<lparr>x_stats := s\<lparr>last_read_idle_start := istart, last_idle_total := idle_total s,
                                     last_ts_status := \<not> idle\<rparr>\<rparr>))"

definition xrt_cu_get_iops :: "u64 \<Rightarrow> u64 \<Rightarrow> u64 \<Rightarrow> u64" where
  "xrt_cu_get_iops last_ts incre_ecmds new_ts =
     (if new_ts - last_ts > 0 \<and> incre_ecmds \<noteq> 0
      then incre_ecmds * 1000000000 div (new_ts - last_ts) else 0)"

definition xrt_cu_get_average_sq :: "'c xrt_cu \<Rightarrow> u32 \<Rightarrow> u32 \<Rightarrow> u32 \<times> 'c xrt_cu" where
  "xrt_cu_get_average_sq xcu tot cnt =
     (if tot = 0 \<or> cnt = 0 then (0, xcu) else (tot div cnt, xrt_cu_reset_sq_count xcu))"

text \<open>
  What \<open>show_formatted_cu_stat\<close> prints: usage, increment, in flight, average and maximal
  length, maximum running, operations per second and idle percentage.
\<close>

definition show_formatted_cu_stat ::
  "'c xrt_cu \<Rightarrow> kenv \<Rightarrow> ((u64 \<times> u64 \<times> u32 \<times> u32 \<times> u32 \<times> u32 \<times> u64 \<times> u64) \<times> 'c xrt_cu \<times> kenv) option" where
  "show_formatted_cu_stat xcu e =
     (let s = x_stats xcu; incre = usage_curr s - usage_prev s;
          xcu1 = xcu\<lparr>x_stats := s\<lparr>usage_prev := usage_curr s\<rparr>\<rparr>;
          (new_ts, clk) = ktime_get (e_clock e);
          (avg, xcu2) = xrt_cu_get_average_sq xcu1 (sq_total s) (sq_count s);
          iops = xrt_cu_get_iops (last_timestamp s) incre new_ts
      in do { (cu_idle, xcu3) \<leftarrow> xrt_cu_get_idle xcu2 (last_timestamp s) (idle_start s)
                 (last_read_idle_start s) (idle_total s - last_idle_total s) (st_idle s) new_ts;
              Some ((usage_curr s, incre, num_sq xcu, avg, max_sq_length s, max_running xcu, iops, cu_idle),
                    xcu3\<lparr>x_stats := (x_stats xcu3)\<lparr>last_timestamp := new_ts\<rparr>\<rparr>, e\<lparr>e_clock := clk\<rparr>) })"

definition show_stats_begin :: "'c xrt_cu \<Rightarrow> 'c xrt_cu" where
  "show_stats_begin xcu = xcu\<lparr>x_stats := (x_stats xcu)\<lparr>stats_enabled := True, stats_tick := 0\<rparr>\<rparr>"

definition show_stats_end :: "'c xrt_cu \<Rightarrow> 'c xrt_cu" where
  "show_stats_end xcu = xcu\<lparr>x_stats := (x_stats xcu)\<lparr>stats_enabled := False\<rparr>\<rparr>"

section \<open>The queues\<close>

definition xrt_cu_switch_to_interrupt :: "'c xcu_funcs \<Rightarrow> 'c xrt_cu \<Rightarrow> 'c xrt_cu" where
  "xrt_cu_switch_to_interrupt F xcu =
     (xrt_cu_enable_intr F xcu (CU_INTR_DONE OR CU_INTR_READY))\<lparr>interrupt_used := True\<rparr>"

definition xrt_cu_switch_to_poll :: "'c xcu_funcs \<Rightarrow> 'c xrt_cu \<Rightarrow> 'c xrt_cu" where
  "xrt_cu_switch_to_poll F xcu =
     (xrt_cu_disable_intr F xcu (CU_INTR_DONE OR CU_INTR_READY))\<lparr>interrupt_used := False\<rparr>"

definition first_event_client_or_null :: "'c xrt_cu \<Rightarrow> nat option" where
  "first_event_client_or_null xcu = (case x_events xcu of [] \<Rightarrow> None | c # _ \<Rightarrow> Some c)"

definition abort_client :: "nat \<Rightarrow> kds_command \<Rightarrow> bool" where
  "abort_client client xcmd = (kc_client xcmd = client)"

definition abort_handle :: "u32 \<Rightarrow> kds_command \<Rightarrow> bool" where
  "abort_handle handle xcmd = (kc_exec_bo_handle xcmd = handle)"

text \<open>Writes to a command in the heap, and the two callbacks.\<close>

definition set_cmd_status :: "cmd_heap \<Rightarrow> nat \<Rightarrow> kds_status \<Rightarrow> cmd_heap" where
  "set_cmd_status h xcmd s = h(xcmd := (h xcmd)\<lparr>kc_status := s\<rparr>)"

definition env_timestamp :: "kenv \<Rightarrow> nat \<Rightarrow> kds_status \<Rightarrow> kenv" where
  "env_timestamp e xcmd s =
     (let (k, clk) = set_xcmd_timestamp (e_clock e) (e_heap e xcmd) s
      in e\<lparr>e_heap := (e_heap e)(xcmd := k), e_clock := clk\<rparr>)"

definition notify_host :: "kenv \<Rightarrow> nat \<Rightarrow> kds_status \<Rightarrow> kenv" where
  "notify_host e xcmd s = e\<lparr>e_notified := e_notified e @ [(xcmd, s)]\<rparr>"

definition free_cmd :: "kenv \<Rightarrow> nat \<Rightarrow> kenv" where
  "free_cmd e xcmd = e\<lparr>e_freed := e_freed e @ [xcmd]\<rparr>"

text \<open>One iteration of \<open>process_cq\<close>, and its loop over \<open>num_cq\<close>.\<close>

definition process_cq_one :: "'c xrt_cu \<Rightarrow> kenv \<Rightarrow> ('c xrt_cu \<times> kenv) option" where
  "process_cq_one xcu e =
     (case x_cq xcu of
        [] \<Rightarrow> None
      | xcmd # rest \<Rightarrow>
          (let st = kc_status (e_heap e xcmd);
               e1 = env_timestamp e xcmd st;
               (x1, e2) = xrt_cu_circ_produce xcu e1 CU_LOG_STAGE_CQ xcmd;
               x2 = x1\<lparr>bad_state := (st = KDS_SKCRASHED)\<rparr>;
               x3 = xrt_cu_incr_ecmd_count x2
           in Some (x3\<lparr>x_cq := rest, num_cq := num_cq xcu - 1\<rparr>, free_cmd (notify_host e2 xcmd st) xcmd)))"

fun process_cq_loop :: "nat \<Rightarrow> 'c xrt_cu \<Rightarrow> kenv \<Rightarrow> ('c xrt_cu \<times> kenv) option" where
  "process_cq_loop 0 xcu e = Some (xcu, e)"
| "process_cq_loop (Suc n) xcu e =
     do { (x1, e1) \<leftarrow> process_cq_one xcu e; process_cq_loop n x1 e1 }"

definition process_cq :: "'c xrt_cu \<Rightarrow> kenv \<Rightarrow> ('c xrt_cu \<times> kenv) option" where
  "process_cq xcu e = process_cq_loop (unat (num_cq xcu)) xcu e"

text \<open>
  The loop that takes completed commands from the core, with (\<open>__process_sq\<close>) or without
  (\<open>try_abort_cmd\<close>) a log item for each.
\<close>

partial_function (option) drain_complete ::
  "'c xcu_funcs \<Rightarrow> bool \<Rightarrow> 'c xrt_cu \<Rightarrow> kenv \<Rightarrow> ('c xrt_cu \<times> kenv) option" where
  "drain_complete F log xcu e =
     (let r = xrt_cu_get_complete F xcu in
      case fst r of
        None \<Rightarrow> Some (snd r, e)
      | Some xcmd \<Rightarrow>
          (let p = (if log then xrt_cu_circ_produce (snd r) e CU_LOG_STAGE_SQ xcmd else (snd r, e));
               x1 = fst p
           in drain_complete F log
                (x1\<lparr>x_cq := x_cq x1 @ [xcmd], num_cq := num_cq x1 + 1, num_sq := num_sq x1 - 1\<rparr>)
                (snd p)))"

text \<open>The part of \<open>__process_sq\<close> in which a closing client's commands time out.\<close>

definition sq_abort_event :: "'c xcu_funcs \<Rightarrow> 'c xrt_cu \<Rightarrow> kenv \<Rightarrow> 'c xrt_cu \<times> kenv" where
  "sq_abort_event F xcu e =
     (case first_event_client_or_null xcu of
        None \<Rightarrow> (xcu, e)
      | Some ev_client \<Rightarrow>
          (let tick = x_tick xcu in
           if start_tick xcu = 0 then (xcu\<lparr>start_tick := tick\<rparr>, e)
           else if tick - start_tick xcu < CU_EXEC_DEFAULT_TTL then (xcu, e)
           else let (r, x1, e1) = xrt_cu_cmd_abort F xcu e (abort_client ev_client)
                in (x1\<lparr>bad_state := (bad_state x1 \<or> r \<noteq> 0), start_tick := 0\<rparr>, e1)))"

definition process_sq_submitted :: "'c xcu_funcs \<Rightarrow> 'c xrt_cu \<Rightarrow> kenv \<Rightarrow> ('c xrt_cu \<times> kenv) option" where
  "process_sq_submitted F xcu e =
     (let x1 = (if ready_cnt xcu \<noteq> 0
                then (xrt_cu_put_credit F xcu (ready_cnt xcu))\<lparr>ready_cnt := 0\<rparr> else xcu)
      in if num_sq x1 = 0 then Some (x1, e)
         else let (x2, e2) = sq_abort_event F x1 e
              in do { (x3, e3) \<leftarrow> drain_complete F True x2 e2; Some (xrt_cu_idle_start x3 e3) })"

definition process_sq :: "'c xcu_funcs \<Rightarrow> 'c xrt_cu \<Rightarrow> kenv \<Rightarrow> ('c xrt_cu \<times> kenv) option" where
  "process_sq F xcu e =
     (if num_sq xcu = 0 \<and> \<not> is_zero_credit F xcu then Some (xcu, e)
      else let (x1, e1) = xrt_cu_check F xcu e in process_sq_submitted F x1 e1)"

definition abort_rq :: "nat \<Rightarrow> 'c xrt_cu \<Rightarrow> kenv \<Rightarrow> 'c xrt_cu \<times> kenv" where
  "abort_rq ev_client xcu e =
     (let sel = (\<lambda>xcmd. kc_client (e_heap e xcmd) = ev_client \<or> bad_state xcu);
          moved = filter sel (x_rq xcu)
      in (xcu\<lparr>x_rq := filter (\<lambda>xcmd. \<not> sel xcmd) (x_rq xcu), x_cq := x_cq xcu @ moved,
              num_cq := num_cq xcu + of_nat (length moved),
              num_rq := num_rq xcu - of_nat (length moved)\<rparr>,
          e\<lparr>e_heap := fold (\<lambda>xcmd h. set_cmd_status h xcmd KDS_ABORT) moved (e_heap e)\<rparr>))"

text \<open>\<open>process_rq\<close>; the flag is its return value. The command leaves the run queue in the core.\<close>

definition process_rq :: "'c xcu_funcs \<Rightarrow> 'c xrt_cu \<Rightarrow> kenv \<Rightarrow> (bool \<times> 'c xrt_cu \<times> kenv) option" where
  "process_rq F xcu e =
     (if num_rq xcu = 0 then Some (False, xcu, e)
      else case first_event_client_or_null xcu of
        Some ev_client \<Rightarrow> Some (False, abort_rq ev_client xcu e)
      | None \<Rightarrow>
         (case x_rq xcu of
            [] \<Rightarrow> None
          | xcmd # rest \<Rightarrow>
             (let (credit, x1) = xrt_cu_get_credit F xcu in
              if credit = 0 then Some (False, x1, e)
              else do {
                (r, x2) \<leftarrow> xrt_cu_submit_config F x1 e xcmd;
                if r \<noteq> 0 then Some (False, xrt_cu_put_credit F x2 1, e)
                else let x3 = xrt_cu_start F x2;
                         x4 = (if x_thread x3
                               then (if \<not> force_intr x3 \<and> interrupt_used x3
                                     then xrt_cu_switch_to_poll F (x3\<lparr>poll_count := 0\<rparr>)
                                     else x3\<lparr>poll_count := 0\<rparr>)
                               else x3);
                         e1 = env_timestamp e xcmd KDS_RUNNING;
                         (x5, e2) = xrt_cu_circ_produce x4 e1 CU_LOG_STAGE_RQ xcmd;
                         x6 = x5\<lparr>x_rq := rest, num_sq := num_sq x5 + 1, num_rq := num_rq x5 - 1\<rparr>;
                         x7 = (if max_sq_length (x_stats x6) < num_sq x6
                               then x6\<lparr>x_stats := (x_stats x6)\<lparr>max_sq_length := num_sq x6\<rparr>\<rparr> else x6)
                     in Some (True, x7, e2) })))"

definition process_pq :: "'c xrt_cu \<Rightarrow> kenv \<Rightarrow> 'c xrt_cu \<times> kenv" where
  "process_pq xcu e =
     (if num_pq xcu = 0 then (xcu, e)
      else let (x1, e1) = xrt_cu_idle_end xcu e;
               x2 = (if num_pq x1 \<noteq> 0
                     then x1\<lparr>x_pq := [], x_rq := x_rq x1 @ x_pq x1, num_rq := num_rq x1 + num_pq x1,
                             num_pq := 0\<rparr>
                     else x1)
           in (if max_running x2 < num_rq x2 then x2\<lparr>max_running := num_rq x2\<rparr> else x2, e1))"

text \<open>The first command of the run queue with the handle, if any, is aborted there.\<close>

definition try_abort_cmd ::
  "'c xcu_funcs \<Rightarrow> 'c xrt_cu \<Rightarrow> kenv \<Rightarrow> nat \<Rightarrow> ('c xrt_cu \<times> kenv) option" where
  "try_abort_cmd F xcu e abort_cmd =
     (case kc_info (e_heap e abort_cmd) of
        [] \<Rightarrow> None
      | handle # _ \<Rightarrow>
         (case find (\<lambda>xcmd. kc_exec_bo_handle (e_heap e xcmd) = handle) (x_rq xcu) of
            Some xcmd \<Rightarrow>
              Some (xcu\<lparr>x_rq := remove1 xcmd (x_rq xcu), x_cq := x_cq xcu @ [xcmd],
                        num_cq := num_cq xcu + 1, num_rq := num_rq xcu - 1\<rparr>,
                    e\<lparr>e_heap := set_cmd_status (set_cmd_status (e_heap e) abort_cmd KDS_COMPLETED)
                                  xcmd KDS_ABORT\<rparr>)
          | None \<Rightarrow>
              if num_sq xcu = 0 then Some (xcu, e)
              else let (r, x1, e1) = xrt_cu_cmd_abort F xcu e (abort_handle handle);
                       x2 = (if r \<noteq> 0 then x1\<lparr>bad_state := True\<rparr> else x1);
                       e2 = e1\<lparr>e_heap := set_cmd_status (e_heap e1) abort_cmd
                                 (if r \<noteq> 0 then KDS_TIMEOUT else KDS_COMPLETED)\<rparr>
                   in drain_complete F False x2 e2))"

fun process_hpq_loop ::
  "'c xcu_funcs \<Rightarrow> nat list \<Rightarrow> 'c xrt_cu \<Rightarrow> kenv \<Rightarrow> ('c xrt_cu \<times> kenv) option" where
  "process_hpq_loop F [] xcu e = Some (xcu, e)"
| "process_hpq_loop F (xcmd # rest) xcu e =
     do { (x1, e1) \<leftarrow> (if kc_opcode (e_heap e xcmd) = OP_ABORT then try_abort_cmd F xcu e xcmd
                       else Some (xcu, e));
          process_hpq_loop F rest (x1\<lparr>x_hpq := rest, num_hpq := num_hpq x1 - 1\<rparr>) e1 }"

definition process_hpq :: "'c xcu_funcs \<Rightarrow> 'c xrt_cu \<Rightarrow> kenv \<Rightarrow> ('c xrt_cu \<times> kenv) option" where
  "process_hpq F xcu e =
     (if num_hpq xcu = 0 then Some (xcu, e)
      else do { (x1, e1) \<leftarrow> process_hpq_loop F (x_hpq xcu) xcu e;
                Some (x1\<lparr>x_comp := x_comp x1 + 1\<rparr>, e1) })"

partial_function (option) process_rq_loop ::
  "'c xcu_funcs \<Rightarrow> 'c xrt_cu \<Rightarrow> kenv \<Rightarrow> ('c xrt_cu \<times> kenv) option" where
  "process_rq_loop F xcu e =
     do { (again, x1, e1) \<leftarrow> process_rq F xcu e;
          if again then process_rq_loop F x1 e1 else Some (x1, e1) }"

declare drain_complete.simps [code] process_rq_loop.simps [code]

definition xrt_cu_process_queues ::
  "'c xcu_funcs \<Rightarrow> 'c xrt_cu \<Rightarrow> kenv \<Rightarrow> (xcu_process_result \<times> 'c xrt_cu \<times> kenv) option" where
  "xrt_cu_process_queues F xcu e =
     (let (x1, e1) = process_pq xcu e in
      do { (x2, e2) \<leftarrow> process_rq_loop F x1 e1;
           (x3, e3) \<leftarrow> process_cq x2 e2;
           (x4, e4) \<leftarrow> process_sq F x3 e3;
           (x5, e5) \<leftarrow> process_hpq F x4 e4;
           Some (if num_rq x5 \<noteq> 0 \<or> num_sq x5 \<noteq> 0 \<or> num_cq x5 \<noteq> 0 then XCU_BUSY else XCU_IDLE,
                 x5, e5) })"

section \<open>The thread\<close>

definition xrt_cu_intr_thread_enter :: "'c xcu_funcs \<Rightarrow> 'c xrt_cu \<Rightarrow> 'c xrt_cu" where
  "xrt_cu_intr_thread_enter F xcu =
     (let x1 = xcu\<lparr>interrupt_used := False\<rparr>
      in if force_intr x1 then xrt_cu_switch_to_interrupt F (x1\<lparr>interrupt_used := True\<rparr>) else x1)"

text \<open>
  \<open>down_timeout\<close> and \<open>down_interruptible\<close> give up after a time or a signal, and both results
  lead to the same code: they only take from the semaphore what is there.
\<close>

definition down :: "int \<Rightarrow> int" where
  "down s = (if s > 0 then s - 1 else s)"

definition intr_thread_sq :: "'c xcu_funcs \<Rightarrow> 'c xrt_cu \<Rightarrow> kenv \<Rightarrow> ('c xrt_cu \<times> kenv) option" where
  "intr_thread_sq F xcu e =
     (if num_sq xcu = 0 \<and> \<not> is_zero_credit F xcu then Some (xcu, e)
      else if \<not> interrupt_used xcu
      then do { (x1, e1) \<leftarrow> process_sq F xcu e;
                let x2 = x1\<lparr>poll_count := poll_count x1 + 1\<rparr> in
                Some (if poll_count x2 \<ge> poll_threshold x2 then xrt_cu_switch_to_interrupt F x2 else x2, e1) }
      else let (x1, e1) = xrt_cu_check F xcu e;
               (x2, e2) = (if done_cnt x1 = 0 \<or> ready_cnt x1 = 0
                           then xrt_cu_check F (x1\<lparr>sleep_cnt := sleep_cnt x1 + 1, x_sem_cu := down (x_sem_cu x1)\<rparr>) e1
                           else (x1, e1))
           in process_sq_submitted F x2 e2)"

text \<open>One pass of the thread's loop; the caller has seen that \<open>stop\<close> is not set.\<close>

definition xrt_cu_intr_thread_pass :: "'c xcu_funcs \<Rightarrow> 'c xrt_cu \<Rightarrow> kenv \<Rightarrow> ('c xrt_cu \<times> kenv) option" where
  "xrt_cu_intr_thread_pass F xcu e =
     do { (again, x1, e1) \<leftarrow> process_rq F xcu e;
          if again then Some (x1, e1)
          else do {
            (x2, e2) \<leftarrow> process_cq x1 e1;
            (x3, e3) \<leftarrow> intr_thread_sq F x2 e2;
            (x4, e4) \<leftarrow> process_hpq F x3 e3;
            if num_rq x4 \<noteq> 0 then Some (x4, e4)
            else let (x5, e5) = (if num_sq x4 = 0 \<and> num_cq x4 = 0
                                 then let (y, f) = (if num_pq x4 = 0 then xrt_cu_check_force F x4 e4 else (x4, e4))
                                      in (y\<lparr>x_sem := down (x_sem y)\<rparr>, f)
                                 else (x4, e4))
                 in Some (process_pq x5 e5) } }"

definition xrt_cu_intr_thread_exit :: "'c xcu_funcs \<Rightarrow> 'c xrt_cu \<Rightarrow> 'c xrt_cu" where
  "xrt_cu_intr_thread_exit F xcu = xrt_cu_disable_intr F xcu (CU_INTR_DONE OR CU_INTR_READY)"

section \<open>Requests to the compute unit\<close>

definition xrt_cu_submit :: "'c xrt_cu \<Rightarrow> nat \<Rightarrow> 'c xrt_cu" where
  "xrt_cu_submit xcu xcmd =
     (let x1 = xcu\<lparr>x_pq := x_pq xcu @ [xcmd], num_pq := num_pq xcu + 1\<rparr>
      in if num_pq x1 = 1 then x1\<lparr>x_sem := x_sem x1 + 1\<rparr> else x1)"

text \<open>
  \<open>xrt_cu_hpq_submit\<close> queues the command and then waits for the completion that the thread
  signals in \<open>process_hpq\<close>; the two halves are separate functions.
\<close>

definition xrt_cu_hpq_submit :: "'c xrt_cu \<Rightarrow> nat \<Rightarrow> 'c xrt_cu" where
  "xrt_cu_hpq_submit xcu xcmd =
     (if ci_protocol (x_info xcu) = CTRL_NONE then xcu
      else xcu\<lparr>x_hpq := x_hpq xcu @ [xcmd], num_hpq := num_hpq xcu + 1, x_sem := x_sem xcu + 1\<rparr>)"

definition xrt_cu_hpq_wait :: "'c xrt_cu \<Rightarrow> 'c xrt_cu option" where
  "xrt_cu_hpq_wait xcu =
     (if ci_protocol (x_info xcu) = CTRL_NONE then Some xcu
      else if x_comp xcu = 0 then None else Some (xcu\<lparr>x_comp := x_comp xcu - 1\<rparr>))"

definition xrt_cu_abort :: "'c xrt_cu \<Rightarrow> nat \<Rightarrow> 'c xrt_cu" where
  "xrt_cu_abort xcu client =
     (if client \<in> set (x_events xcu) then xcu else xcu\<lparr>x_events := x_events xcu @ [client]\<rparr>)"

definition xrt_cu_abort_done :: "'c xrt_cu \<Rightarrow> nat \<Rightarrow> bool \<times> 'c xrt_cu" where
  "xrt_cu_abort_done xcu client =
     (bad_state xcu, xcu\<lparr>x_events := remove1 client (x_events xcu)\<rparr>)"

definition xrt_cu_get_protocol :: "'c xrt_cu \<Rightarrow> cu_protocol" where
  "xrt_cu_get_protocol xcu = ci_protocol (x_info xcu)"

definition xrt_cu_get_status :: "'c xrt_cu \<Rightarrow> u32" where
  "xrt_cu_get_status xcu = x_status xcu"

definition xrt_cu_intr_supported :: "'c xrt_cu \<Rightarrow> bool" where
  "xrt_cu_intr_supported xcu =
     (if ci_model (x_info xcu) = XCU_XGQ then True
      else if \<not> ci_intr_enable (x_info xcu) then False
      else if xrt_cu_get_protocol xcu = CTRL_NONE then False else True)"

text \<open>Whether \<open>kthread_run\<close> succeeds is an argument; its error is reported as 1.\<close>

definition xrt_cu_start_thread :: "'c xrt_cu \<Rightarrow> bool \<Rightarrow> int \<times> 'c xrt_cu" where
  "xrt_cu_start_thread xcu run_ok =
     (if x_thread xcu then (0, xcu)
      else let x1 = xcu\<lparr>x_stop := False, x_sem := 0, x_sem_cu := 0, x_tick := 0\<rparr>
           in if run_ok then (0, x1\<lparr>x_thread := True\<rparr>) else (1, x1\<lparr>x_thread := False\<rparr>))"

definition xrt_cu_stop_thread :: "'c xrt_cu \<Rightarrow> 'c xrt_cu" where
  "xrt_cu_stop_thread xcu =
     (if \<not> x_thread xcu then xcu
      else xcu\<lparr>x_stop := True, x_thread := False, x_sem := 0, x_sem_cu := 0\<rparr>)"

definition xrt_cu_cfg_update :: "'c xrt_cu \<Rightarrow> bool \<Rightarrow> bool \<Rightarrow> int \<times> 'c xrt_cu" where
  "xrt_cu_cfg_update xcu intr run_ok =
     (if \<not> xrt_cu_intr_supported xcu then (- 38, xcu)
      else let x1 = xrt_cu_stop_thread xcu
           in if \<not> intr then (0, x1) else xrt_cu_start_thread x1 run_ok)"

definition cu_fa_get_desc_size :: "xrt_cu_info \<Rightarrow> u32" where
  "cu_fa_get_desc_size info =
     round_up_to_next_power2
       (fold (\<lambda>a sz. if arg_name a = ''nextDescriptorAddr'' \<or> arg_size a = 0 then sz
                     else sz + (8 + arg_size a)) (ci_args info) 20)"

definition xrt_is_fa :: "'c xrt_cu \<Rightarrow> bool \<times> u32" where
  "xrt_is_fa xcu =
     (if ci_model (x_info xcu) = XCU_FA then (True, cu_fa_get_desc_size (x_info xcu)) else (False, 0))"

text \<open>The largest offset and the size of the argument that has it; both are 32 bits wide.\<close>

definition xrt_cu_regmap_size :: "xrt_cu_info \<Rightarrow> u32" where
  "xrt_cu_regmap_size info =
     (case ci_args info of
        [] \<Rightarrow> ucast (ci_size info)
      | a0 # _ \<Rightarrow>
         (let (off, sz) = fold (\<lambda>a (off, sz). if off < arg_offset a then (arg_offset a, arg_size a) else (off, sz))
                            (ci_args info) (0, arg_size a0)
          in off + sz))"

text \<open>The poll threshold is that of a build without \<open>CONFIG_ARM64\<close>.\<close>

definition xrt_cu_init :: "'c xrt_cu \<Rightarrow> 'c xrt_cu" where
  "xrt_cu_init xcu =
     (if ci_iname (x_info xcu) = [] then xcu
      else xrt_cu_init_ecmd_and_sq_count
        (xcu\<lparr>x_pq := [], x_rq := [], x_cq := [], x_events := [], x_sem := 0, x_sem_cu := 0,
             x_hpq := [], x_comp := 0,
             crc_buf := (crc_buf xcu)\<lparr>circ_head := 0, circ_tail := 0\<rparr>,
             x_tick := 0, start_tick := 0, x_thread := False, poll_threshold := 300,
             interrupt_used := False\<rparr>))"

definition xrt_cu_fini :: "'c xrt_cu \<Rightarrow> 'c xrt_cu" where
  "xrt_cu_fini xcu =
     (if ci_iname (x_info xcu) = [] then xcu
      else xcu\<lparr>x_stop := True, x_sem_cu := x_sem_cu xcu + 1, x_sem := x_sem xcu + 1\<rparr>)"

end
