(* ===== verification/Kds_Client.thy ===== *)
theory Kds_Client
  imports Xrt_Cu
begin

text \<open>
  The clients of the scheduler: their hardware contexts and CU contexts (\<open>kds_client.h\<close>,
  \<open>kds_hwctx.h\<close>, \<open>kds_hwctx.c\<close>), their statistics, and the reference counts that a client keeps
  for the CUs it has open (\<open>kds_core.c\<close>).

  Contexts are in lists by value. A pointer to a hardware context is its position in the list of
  the client; the hardware context of a CU context is named by its index. The per-CPU counters
  are their sums.
\<close>

section \<open>Data\<close>

abbreviation (input) MAX_CUS :: nat where "MAX_CUS \<equiv> 128"
abbreviation (input) DOMAIN_VIRT :: u32 where "DOMAIN_VIRT \<equiv> 0xFFFF"
abbreviation (input) CU_CTX_PROP_MASK :: u32 where "CU_CTX_PROP_MASK \<equiv> 0x0F"
abbreviation (input) CU_CTX_EXCLUSIVE :: u32 where "CU_CTX_EXCLUSIVE \<equiv> 1"
abbreviation (input) CU_EXCLU_MASK :: u32 where "CU_EXCLU_MASK \<equiv> 0x80000000"
abbreviation (input) DEFAULT_HW_CTX_ID :: u32 where "DEFAULT_HW_CTX_ID \<equiv> 0"

record client_stats =
  s_cnt :: "nat \<Rightarrow> u64"
  c_cnt :: "nat \<Rightarrow> u64"
  scu_s_cnt :: "nat \<Rightarrow> u64"
  scu_c_cnt :: "nat \<Rightarrow> u64"

record kds_client_cu_info =
  inf_cu_idx :: u32
  inf_cu_domain :: u32
  inf_flags :: u32
  inf_ctx :: "u32 option"

record kds_client_cu_ctx =
  cc_cu_idx :: u32
  cc_cu_domain :: u32
  cc_flags :: u32
  cc_ref_cnt :: u32
  cc_hw_ctx :: "u32 option"

record kds_client_hw_ctx =
  hw_ctx_idx :: u32
  hw_slot_idx :: u32
  hw_cu_ctx_list :: "kds_client_cu_ctx list"
  hw_graph_ctx_list :: "nat list"
  hw_stats :: client_stats

record kds_client_cu_refcnt =
  cl_cu_refs :: "nat \<Rightarrow> u32"
  cl_scu_refs :: "nat \<Rightarrow> u32"

text \<open>\<open>cl_ctx\<close> and \<open>cl_ctx_list\<close> are the legacy contexts, by their lists of CU contexts.\<close>

record kds_client =
  cl_ctx :: "kds_client_cu_ctx list option"
  cl_ctx_list :: "kds_client_cu_ctx list list"
  hw_ctx_list :: "kds_client_hw_ctx list"
  next_hw_ctx_id :: u32
  cl_refcnt :: "kds_client_cu_refcnt option"

section \<open>Statistics\<close>

definition zero_stats :: client_stats where
  "zero_stats = \<lparr>s_cnt = (\<lambda>_. 0), c_cnt = (\<lambda>_. 0), scu_s_cnt = (\<lambda>_. 0), scu_c_cnt = (\<lambda>_. 0)\<rparr>"

text \<open>The last of several contexts with the same index counts.\<close>

definition client_stat_read :: "kds_client \<Rightarrow> u32 \<Rightarrow> (client_stats \<Rightarrow> u64) \<Rightarrow> u64" where
  "client_stat_read client hw field =
     fold (\<lambda>curr res. if hw_ctx_idx curr = hw then field (hw_stats curr) else res) (hw_ctx_list client) 0"

definition client_stat_upd :: "kds_client \<Rightarrow> u32 \<Rightarrow> (client_stats \<Rightarrow> client_stats) \<Rightarrow> kds_client" where
  "client_stat_upd client hw f =
     client\<lparr>hw_ctx_list := map (\<lambda>curr. if hw_ctx_idx curr = hw then curr\<lparr>hw_stats := f (hw_stats curr)\<rparr> else curr)
                             (hw_ctx_list client)\<rparr>"

text \<open>Submissions on a CU of a domain, counted up or down.\<close>

definition add_submitted :: "u32 \<Rightarrow> nat \<Rightarrow> u64 \<Rightarrow> client_stats \<Rightarrow> client_stats" where
  "add_submitted domain idx n st =
     (if domain = DOMAIN_PL then st\<lparr>s_cnt := (s_cnt st)(idx := s_cnt st idx + n)\<rparr>
      else st\<lparr>scu_s_cnt := (scu_s_cnt st)(idx := scu_s_cnt st idx + n)\<rparr>)"

definition submitted_on :: "u32 \<Rightarrow> nat \<Rightarrow> client_stats \<Rightarrow> u64" where
  "submitted_on domain idx st = (if domain = DOMAIN_PL then s_cnt st idx else scu_s_cnt st idx)"

definition completed_on :: "u32 \<Rightarrow> nat \<Rightarrow> client_stats \<Rightarrow> u64" where
  "completed_on domain idx st = (if domain = DOMAIN_PL then c_cnt st idx else scu_c_cnt st idx)"

section \<open>Contexts\<close>

definition same_cu :: "kds_client_cu_info \<Rightarrow> kds_client_cu_ctx \<Rightarrow> bool" where
  "same_cu info cu_ctx = (cc_cu_idx cu_ctx = inf_cu_idx info \<and> cc_cu_domain cu_ctx = inf_cu_domain info)"

definition kds_get_cu_ctx :: "kds_client_cu_ctx list option \<Rightarrow> kds_client_cu_info \<Rightarrow> kds_client_cu_ctx option res" where
  "kds_get_cu_ctx ctx info = (case ctx of None \<Rightarrow> Inl EINVAL | Some l \<Rightarrow> Inr (find (same_cu info) l))"

definition kds_initialize_cu_ctx :: "kds_client_cu_info \<Rightarrow> kds_client_cu_ctx" where
  "kds_initialize_cu_ctx info =
     \<lparr>cc_cu_idx = inf_cu_idx info, cc_cu_domain = inf_cu_domain info, cc_flags = inf_flags info,
      cc_ref_cnt = 0, cc_hw_ctx = None\<rparr>"

text \<open>The context, or \<open>None\<close>, and the list; \<open>ok\<close> says whether the allocation succeeds.\<close>

definition kds_alloc_cu_ctx ::
  "bool \<Rightarrow> kds_client_cu_ctx list option \<Rightarrow> kds_client_cu_info \<Rightarrow>
   kds_client_cu_ctx option \<times> kds_client_cu_ctx list option" where
  "kds_alloc_cu_ctx ok ctx info =
     (case kds_get_cu_ctx ctx info of
        Inl _ \<Rightarrow> (None, ctx)
      | Inr (Some c) \<Rightarrow> (Some c, ctx)
      | Inr None \<Rightarrow>
          if \<not> ok then (None, ctx)
          else (let c = kds_initialize_cu_ctx info in (Some c, map_option (\<lambda>l. l @ [c]) ctx)))"

definition kds_get_cu_hw_ctx ::
  "kds_client_hw_ctx option \<Rightarrow> kds_client_cu_info \<Rightarrow> kds_client_cu_ctx option res" where
  "kds_get_cu_hw_ctx hw_ctx info =
     (case hw_ctx of None \<Rightarrow> Inl EINVAL | Some hw \<Rightarrow> Inr (find (same_cu info) (hw_cu_ctx_list hw)))"

definition kds_initialize_cu_hw_ctx :: "kds_client_cu_info \<Rightarrow> kds_client_cu_ctx" where
  "kds_initialize_cu_hw_ctx info =
     \<lparr>cc_cu_idx = inf_cu_idx info, cc_cu_domain = inf_cu_domain info, cc_flags = inf_flags info,
      cc_ref_cnt = 0, cc_hw_ctx = inf_ctx info\<rparr>"

definition kds_alloc_cu_hw_ctx ::
  "bool \<Rightarrow> kds_client_hw_ctx option \<Rightarrow> kds_client_cu_info \<Rightarrow>
   kds_client_cu_ctx option \<times> kds_client_hw_ctx option" where
  "kds_alloc_cu_hw_ctx ok hw_ctx info =
     (case kds_get_cu_hw_ctx hw_ctx info of
        Inl _ \<Rightarrow> (None, hw_ctx)
      | Inr (Some c) \<Rightarrow> (Some c, hw_ctx)
      | Inr None \<Rightarrow>
          if \<not> ok then (None, hw_ctx)
          else (let c = kds_initialize_cu_hw_ctx info
                in (Some c, map_option (\<lambda>hw. hw\<lparr>hw_cu_ctx_list := hw_cu_ctx_list hw @ [c]\<rparr>) hw_ctx)))"

text \<open>The list without the context at position \<open>i\<close>, if that one is no longer referenced.\<close>

definition kds_free_cu_ctx :: "kds_client_cu_ctx list \<Rightarrow> nat \<Rightarrow> kds_client_cu_ctx list res" where
  "kds_free_cu_ctx l i =
     (if i \<ge> length l then Inl EINVAL
      else if cc_ref_cnt (l ! i) = 0 then Inr (take i l @ drop (Suc i) l) else Inr l)"

definition kds_get_hw_ctx_by_id :: "kds_client \<Rightarrow> u32 \<Rightarrow> kds_client_hw_ctx option" where
  "kds_get_hw_ctx_by_id client hw_ctx_id = find (\<lambda>c. hw_ctx_idx c = hw_ctx_id) (hw_ctx_list client)"

definition kds_alloc_hw_ctx ::
  "bool \<Rightarrow> bool \<Rightarrow> kds_client \<Rightarrow> u32 \<Rightarrow> kds_client_hw_ctx option \<times> kds_client" where
  "kds_alloc_hw_ctx ok1 ok2 client slot_id =
     (if \<not> ok1 \<or> \<not> ok2 then (None, client)
      else let hw = \<lparr>hw_ctx_idx = next_hw_ctx_id client, hw_slot_idx = slot_id, hw_cu_ctx_list = [],
                     hw_graph_ctx_list = [], hw_stats = zero_stats\<rparr>
           in (Some hw, client\<lparr>hw_ctx_list := hw_ctx_list client @ [hw],
                               next_hw_ctx_id := next_hw_ctx_id client + 1\<rparr>))"

definition kds_free_hw_ctx :: "kds_client \<Rightarrow> nat \<Rightarrow> kds_client res" where
  "kds_free_hw_ctx client i =
     (if i \<ge> length (hw_ctx_list client) then Inl EINVAL
      else let hw = hw_ctx_list client ! i in
        if hw_cu_ctx_list hw \<noteq> [] then Inl EINVAL
        else if hw_graph_ctx_list hw \<noteq> [] then Inl EINVAL
        else Inr (client\<lparr>hw_ctx_list := take i (hw_ctx_list client) @ drop (Suc i) (hw_ctx_list client)\<rparr>))"

section \<open>Reference counts of a client\<close>

definition kds_client_domain_refcnt :: "kds_client \<Rightarrow> u32 \<Rightarrow> (nat \<Rightarrow> u32) option" where
  "kds_client_domain_refcnt client domain =
     (case cl_refcnt client of
        None \<Rightarrow> None
      | Some r \<Rightarrow> if domain = DOMAIN_PL then Some (cl_cu_refs r)
                  else if domain = DOMAIN_PS then Some (cl_scu_refs r) else None)"

definition set_domain_refcnt :: "kds_client \<Rightarrow> u32 \<Rightarrow> (nat \<Rightarrow> u32) \<Rightarrow> kds_client" where
  "set_domain_refcnt client domain refs =
     client\<lparr>cl_refcnt := map_option (\<lambda>r. if domain = DOMAIN_PL then r\<lparr>cl_cu_refs := refs\<rparr>
                                         else r\<lparr>cl_scu_refs := refs\<rparr>) (cl_refcnt client)\<rparr>"

text \<open>The counts are \<open>u32\<close>, the result \<open>prev\<close> is an \<open>int\<close>.\<close>

definition kds_test_refcnt :: "kds_client \<Rightarrow> u32 \<Rightarrow> nat \<Rightarrow> int" where
  "kds_test_refcnt client domain idx =
     (case kds_client_domain_refcnt client domain of
        None \<Rightarrow> - 22 | Some refs \<Rightarrow> if refs idx > 0 then 1 else 0)"

definition kds_test_and_refcnt_incr :: "kds_client \<Rightarrow> u32 \<Rightarrow> nat \<Rightarrow> int \<times> kds_client" where
  "kds_test_and_refcnt_incr client domain cu_idx =
     (case kds_client_domain_refcnt client domain of
        None \<Rightarrow> (- 22, client)
      | Some refs \<Rightarrow> (sint (refs cu_idx), set_domain_refcnt client domain (refs(cu_idx := refs cu_idx + 1))))"

definition kds_test_and_refcnt_decr :: "kds_client \<Rightarrow> u32 \<Rightarrow> nat \<Rightarrow> int \<times> kds_client" where
  "kds_test_and_refcnt_decr client domain cu_idx =
     (case kds_client_domain_refcnt client domain of
        None \<Rightarrow> (- 22, client)
      | Some refs \<Rightarrow>
          (sint (refs cu_idx),
           if sint (refs cu_idx) > 0 then set_domain_refcnt client domain (refs(cu_idx := refs cu_idx - 1))
           else client))"

definition kds_client_set_cu_refs_zero :: "kds_client \<Rightarrow> u32 \<Rightarrow> int \<times> kds_client" where
  "kds_client_set_cu_refs_zero client domain =
     (case kds_client_domain_refcnt client domain of
        None \<Rightarrow> (- 22, client)
      | Some refs \<Rightarrow> (0, set_domain_refcnt client domain (\<lambda>i. if i < MAX_CUS then 0 else refs i)))"

section \<open>Properties of hardware contexts\<close>

text \<open>The contexts of a client have different indices, all given out before the next one.\<close>

definition hw_ids_ok :: "kds_client \<Rightarrow> bool" where
  "hw_ids_ok client \<longleftrightarrow> distinct (map hw_ctx_idx (hw_ctx_list client)) \<and>
     list_all (\<lambda>hw. hw_ctx_idx hw < next_hw_ctx_id client) (hw_ctx_list client)"

lemma less_plus_one: "(w :: u32) + 1 \<noteq> 0 \<Longrightarrow> w < w + 1 \<and> (v < w \<longrightarrow> v < w + 1)"
  using unatSuc [of w] by (simp add: word_less_nat_alt add.commute)

lemma find_drop_nth:
  assumes "distinct (map f xs)" and "i < length xs"
  shows "find (\<lambda>x. f x = k) (take i xs @ drop (Suc i) xs) = (if k = f (xs ! i) then None else find (\<lambda>x. f x = k) xs)"
  using assms
proof (induction xs arbitrary: i)
  case Nil
  then show ?case by simp
next
  case (Cons x xs)
  show ?case
  proof (cases i)
    case 0
    have "find (\<lambda>y. f y = f x) xs = None" using Cons.prems(1) by (force simp: find_None_iff image_iff)
    then show ?thesis using 0 by auto
  next
    case (Suc j)
    have "f (xs ! j) \<in> f ` set xs" using Cons.prems(2) Suc by simp
    then have "f (xs ! j) \<noteq> f x" using Cons.prems(1) by (metis distinct.simps(2) list.map(2) set_map)
    then show ?thesis using Suc Cons.prems Cons.IH [of j] by auto
  qed
qed

text \<open>
  A new hardware context is found under the index it was given, every other index finds what
  it found before, and the indices stay different, up to the context before the index wraps.
\<close>

theorem hw_ctx_alloc_lookup:
  assumes "hw_ids_ok client" and "next_hw_ctx_id client + 1 \<noteq> 0"
    and "kds_alloc_hw_ctx True True client slot = (r, client')"
  shows "\<exists>hw. r = Some hw \<and> hw_slot_idx hw = slot \<and> hw_ids_ok client' \<and>
    (\<forall>id. kds_get_hw_ctx_by_id client' id = (if id = hw_ctx_idx hw then Some hw else kds_get_hw_ctx_by_id client id))"
proof -
  have "find (\<lambda>c. hw_ctx_idx c = next_hw_ctx_id client) (hw_ctx_list client) = None"
    using assms(1) by (auto simp: find_None_iff hw_ids_ok_def list_all_iff)
  moreover have "find P (xs @ [x]) = (case find P xs of None \<Rightarrow> if P x then Some x else None | Some y \<Rightarrow> Some y)"
    for P :: "kds_client_hw_ctx \<Rightarrow> bool" and xs x by (induction xs) auto
  moreover have "next_hw_ctx_id client \<notin> hw_ctx_idx ` set (hw_ctx_list client)"
    using assms(1) by (fastforce simp: hw_ids_ok_def list_all_iff)
  then have "hw_ids_ok client'"
    using assms less_plus_one [OF assms(2)] by (auto simp: hw_ids_ok_def kds_alloc_hw_ctx_def list_all_iff Let_def)
  ultimately show ?thesis
    using assms(3) by (auto simp: kds_alloc_hw_ctx_def kds_get_hw_ctx_by_id_def Let_def split: option.splits)
qed

text \<open>
  A hardware context is freed only when no CU and no graph is open in it; then its index finds
  nothing any more, and every other index finds what it found before.
\<close>

theorem hw_ctx_free_lookup:
  assumes "hw_ids_ok client" and "kds_free_hw_ctx client i = Inr client'"
  shows "i < length (hw_ctx_list client) \<and> hw_cu_ctx_list (hw_ctx_list client ! i) = [] \<and>
    hw_graph_ctx_list (hw_ctx_list client ! i) = [] \<and> hw_ids_ok client' \<and>
    (\<forall>id. kds_get_hw_ctx_by_id client' id =
       (if id = hw_ctx_idx (hw_ctx_list client ! i) then None else kds_get_hw_ctx_by_id client id))"
proof -
  have i: "i < length (hw_ctx_list client)" "hw_cu_ctx_list (hw_ctx_list client ! i) = []"
    "hw_graph_ctx_list (hw_ctx_list client ! i) = []"
    and c: "client' = client\<lparr>hw_ctx_list := take i (hw_ctx_list client) @ drop (Suc i) (hw_ctx_list client)\<rparr>"
    using assms(2) by (auto simp: kds_free_hw_ctx_def Let_def split: if_splits)
  have d: "distinct (map hw_ctx_idx (hw_ctx_list client))" using assms(1) by (simp add: hw_ids_ok_def)
  have "distinct (map hw_ctx_idx (take i (hw_ctx_list client) @ drop (Suc i) (hw_ctx_list client)))"
    using d set_take_disj_set_drop_if_distinct [OF d, of i "Suc i"]
    by (simp add: take_map [symmetric] drop_map [symmetric] del: set_map)
  then have "hw_ids_ok client'"
    using assms(1) by (auto simp: c hw_ids_ok_def list_all_iff dest: in_set_takeD in_set_dropD)
  with i find_drop_nth [OF d i(1)] show ?thesis by (simp add: c kds_get_hw_ctx_by_id_def)
qed

definition demo_hw :: kds_client_hw_ctx where
  "demo_hw = \<lparr>hw_ctx_idx = 0, hw_slot_idx = 0, hw_cu_ctx_list = [], hw_graph_ctx_list = [], hw_stats = zero_stats\<rparr>"

definition demo_hw_client :: kds_client where
  "demo_hw_client = \<lparr>cl_ctx = None, cl_ctx_list = [], hw_ctx_list = [demo_hw], next_hw_ctx_id = 1, cl_refcnt = None\<rparr>"

text \<open>An instance.\<close>

theorem hw_ctx_alloc_lookup_witness:
  "kds_get_hw_ctx_by_id (snd (kds_alloc_hw_ctx True True demo_hw_client 3)) 0 = Some demo_hw"
proof -
  from hw_ctx_alloc_lookup [of demo_hw_client 3, OF _ _ prod.collapse [symmetric]] obtain hw where
    hw: "fst (kds_alloc_hw_ctx True True demo_hw_client 3) = Some hw"
    and "kds_get_hw_ctx_by_id (snd (kds_alloc_hw_ctx True True demo_hw_client 3)) 0 =
      (if 0 = hw_ctx_idx hw then Some hw else kds_get_hw_ctx_by_id demo_hw_client 0)"
    by (auto simp: demo_hw_client_def demo_hw_def hw_ids_ok_def)
  moreover from hw have "hw_ctx_idx hw = 1" by (auto simp: kds_alloc_hw_ctx_def demo_hw_client_def Let_def)
  ultimately show ?thesis by (simp add: kds_get_hw_ctx_by_id_def demo_hw_client_def demo_hw_def)
qed

text \<open>An instance.\<close>

theorem hw_ctx_free_lookup_witness:
  "\<exists>client'. kds_free_hw_ctx demo_hw_client 0 = Inr client' \<and> kds_get_hw_ctx_by_id client' 0 = None"
proof -
  have "hw_ids_ok demo_hw_client" by (simp add: hw_ids_ok_def demo_hw_client_def demo_hw_def)
  moreover obtain client' where "kds_free_hw_ctx demo_hw_client 0 = Inr client'"
    by (simp add: kds_free_hw_ctx_def demo_hw_client_def demo_hw_def)
  ultimately show ?thesis using hw_ctx_free_lookup [of demo_hw_client 0 client']
    by (auto simp: demo_hw_client_def demo_hw_def)
qed

end
