(* ===== verification/Kds_Core.thy ===== *)
theory Kds_Core
  imports Kds_Client
begin

text \<open>
  The scheduler \<open>kds_sched\<close> of \<open>kds_core.h\<close> and the part of \<open>kds_core.c\<close> that manages CUs and
  contexts: which CUs there are, who has reserved them and how, and which CU a command goes to.

  The tables of a domain hold pointers to CUs, which are numbers; the CUs themselves are in a
  store. An access through a null pointer is \<open>None\<close>. A thread that sleeps until others have made
  progress takes what the others do as arguments: \<open>env\<close> is what the CU threads do to the CUs and
  \<open>obs n\<close> are the numbers of submitted and completed commands it reads in round \<open>n\<close>.
\<close>

section \<open>Data\<close>

record kds_cu_mgmt =
  m_xcus :: "nat \<Rightarrow> nat option"
  m_num_cus :: int
  m_num_cdma :: int
  m_cu_intr :: "nat \<Rightarrow> u32"
  m_cu_refs :: "nat \<Rightarrow> u32"
  m_usage :: "nat \<Rightarrow> u64"
  m_rw_shared :: bool

datatype ert_call = ErtSubmit nat | ErtAbort nat int | ErtAbortDone nat int | ErtAbortSync nat int

text \<open>The memory for descriptors; \<open>cm_vaddr\<close> is its words.\<close>

record cmdmem_info =
  cm_bo :: bool
  cm_bar_paddr :: u64
  cm_dev_paddr :: u64
  cm_vaddr :: "nat \<Rightarrow> u32"
  cm_size :: u32

text \<open>
  \<open>k_ert_log\<close> are the calls of the functions of \<open>kds_ert\<close>, oldest first; \<open>k_ert\<close> says whether there is an
  ERT, and \<open>k_polling_thread\<close> whether the polling thread runs.
\<close>

record 'c kds_sched =
  k_clients :: "nat list"
  k_num_client :: int
  k_bad_state :: bool
  k_cu_mgmt :: kds_cu_mgmt
  k_scu_mgmt :: kds_cu_mgmt
  k_ert_log :: "ert_call list"
  k_xgq_enable :: bool
  k_ert_disable :: bool
  k_ini_disable :: bool
  k_cu_intr_cap :: u32
  k_cu_intr :: u32
  k_force_polling :: bool
  k_timestamp_set :: bool
  k_alive_cus :: "nat list"
  k_polling_start :: bool
  k_polling_stop :: bool
  k_polling_thread :: bool
  k_ert :: bool
  k_cmdmem :: cmdmem_info
  k_cus :: "nat \<Rightarrow> 'c xrt_cu"

definition cu_mgmt_of :: "'c kds_sched \<Rightarrow> u32 \<Rightarrow> kds_cu_mgmt" where
  "cu_mgmt_of kds domain = (if domain = DOMAIN_PL then k_cu_mgmt kds else k_scu_mgmt kds)"

definition set_cu_mgmt :: "'c kds_sched \<Rightarrow> u32 \<Rightarrow> kds_cu_mgmt \<Rightarrow> 'c kds_sched" where
  "set_cu_mgmt kds domain m = (if domain = DOMAIN_PL then kds\<lparr>k_cu_mgmt := m\<rparr> else kds\<lparr>k_scu_mgmt := m\<rparr>)"

definition upd_cu :: "'c kds_sched \<Rightarrow> nat \<Rightarrow> 'c xrt_cu \<Rightarrow> 'c kds_sched" where
  "upd_cu kds p x = kds\<lparr>k_cus := (k_cus kds)(p := x)\<rparr>"

section \<open>Compute units\<close>

definition get_cu_by_addr :: "'c kds_sched \<Rightarrow> kds_cu_mgmt \<Rightarrow> u32 \<Rightarrow> nat" where
  "get_cu_by_addr kds m addr =
     (case find (\<lambda>i. case m_xcus m i of None \<Rightarrow> False | Some p \<Rightarrow> ci_addr (x_info (k_cus kds p)) = ucast addr)
             [0..<MAX_CUS] of
        None \<Rightarrow> MAX_CUS | Some i \<Rightarrow> i)"

definition insert_cu :: "'c kds_sched \<Rightarrow> kds_cu_mgmt \<Rightarrow> nat \<Rightarrow> nat \<Rightarrow> kds_cu_mgmt" where
  "insert_cu kds m i xcu =
     m\<lparr>m_xcus := (m_xcus m)(i := Some xcu),
       m_num_cdma := (if ci_intr_id (x_info (k_cus kds xcu)) = M2M_CU_ID then m_num_cdma m + 1 else m_num_cdma m)\<rparr>"

definition kds_add_cu_domain :: "'c kds_sched \<Rightarrow> u32 \<Rightarrow> nat \<Rightarrow> int \<times> 'c kds_sched" where
  "kds_add_cu_domain kds domain xcu =
     (let m = cu_mgmt_of kds domain in
      if m_num_cus m \<ge> int MAX_CUS then (- 12, kds)
      else (0, case find (\<lambda>i. m_xcus m i = None) [0..<MAX_CUS] of
                 None \<Rightarrow> kds
               | Some i \<Rightarrow>
                   (let m' = insert_cu kds m i xcu
                    in (set_cu_mgmt kds domain (m'\<lparr>m_num_cus := m_num_cus m' + 1\<rparr>))
                         \<lparr>k_alive_cus := k_alive_cus kds @ [xcu]\<rparr>)))"

definition kds_del_cu_domain :: "'c kds_sched \<Rightarrow> u32 \<Rightarrow> nat \<Rightarrow> int \<times> 'c kds_sched" where
  "kds_del_cu_domain kds domain xcu =
     (let m = cu_mgmt_of kds domain in
      if m_num_cus m = 0 then (- 22, kds)
      else let kds1 = (case find (\<lambda>i. m_xcus m i = Some xcu) [0..<MAX_CUS] of
                         None \<Rightarrow> kds
                       | Some i \<Rightarrow>
                           (set_cu_mgmt kds domain
                              (m\<lparr>m_xcus := (m_xcus m)(i := None), m_cu_intr := (m_cu_intr m)(i := 0),
                                 m_num_cus := m_num_cus m - 1, m_usage := (m_usage m)(i := 0)\<rparr>))
                             \<lparr>k_alive_cus := remove1 xcu (k_alive_cus kds)\<rparr>);
               m1 = cu_mgmt_of kds1 domain
           in (0, if ci_intr_id (x_info (k_cus kds xcu)) = M2M_CU_ID
                  then set_cu_mgmt kds1 domain (m1\<lparr>m_num_cdma := m_num_cdma m1 - 1\<rparr>) else kds1))"

definition kds_add_cu :: "'c kds_sched \<Rightarrow> nat \<Rightarrow> int \<times> 'c kds_sched" where
  "kds_add_cu kds xcu = kds_add_cu_domain kds DOMAIN_PL xcu"

definition kds_del_cu :: "'c kds_sched \<Rightarrow> nat \<Rightarrow> int \<times> 'c kds_sched" where
  "kds_del_cu kds xcu = kds_del_cu_domain kds DOMAIN_PL xcu"

definition kds_add_scu :: "'c kds_sched \<Rightarrow> nat \<Rightarrow> int \<times> 'c kds_sched" where
  "kds_add_scu kds xcu = kds_add_cu_domain kds DOMAIN_PS xcu"

definition kds_del_scu :: "'c kds_sched \<Rightarrow> nat \<Rightarrow> int \<times> 'c kds_sched" where
  "kds_del_scu kds xcu = kds_del_cu_domain kds DOMAIN_PS xcu"

definition kds_get_cu_total :: "'c kds_sched \<Rightarrow> int" where
  "kds_get_cu_total kds = m_num_cus (k_cu_mgmt kds)"

definition kds_get_cu_addr :: "'c kds_sched \<Rightarrow> nat \<Rightarrow> u32 option" where
  "kds_get_cu_addr kds idx = map_option (\<lambda>p. ucast (ci_addr (x_info (k_cus kds p)))) (m_xcus (k_cu_mgmt kds) idx)"

definition kds_get_cu_proto :: "'c kds_sched \<Rightarrow> nat \<Rightarrow> cu_protocol option" where
  "kds_get_cu_proto kds idx = map_option (\<lambda>p. ci_protocol (x_info (k_cus kds p))) (m_xcus (k_cu_mgmt kds) idx)"

text \<open>\<open>start + size\<close> is computed in 32 bits and compared with the 64-bit size of the CU.\<close>

definition kds_set_cu_read_range :: "'c kds_sched \<Rightarrow> u32 \<Rightarrow> u32 \<Rightarrow> u32 \<Rightarrow> (int \<times> 'c kds_sched) option" where
  "kds_set_cu_read_range kds cu_idx start sz =
     (let m = k_cu_mgmt kds in
      if unat cu_idx \<ge> MAX_CUS then Some (- 22, kds)
      else if sz mod 4 \<noteq> 0 then Some (- 22, kds)
      else if start < 0x10 then Some (- 22, kds)
      else case m_xcus m (unat cu_idx) of
        None \<Rightarrow> None
      | Some p \<Rightarrow>
          if ucast (start + sz) > ci_size (x_info (k_cus kds p)) then Some (- 22, kds)
          else if m_cu_refs m (unat cu_idx) AND CU_EXCLU_MASK \<noteq> 0 then Some (- 22, kds)
          else Some (0, upd_cu kds p ((k_cus kds p)\<lparr>xcr_start := start, xcr_end := start + sz - 1\<rparr>)))"

definition kds_get_max_regmap_size :: "'c kds_sched \<Rightarrow> int" where
  "kds_get_max_regmap_size kds =
     fold (\<lambda>i mx. case m_xcus (k_cu_mgmt kds) i of
                    None \<Rightarrow> mx
                  | Some p \<Rightarrow> (let sz = sint (xrt_cu_regmap_size (x_info (k_cus kds p)))
                             in if mx < sz then sz else mx)) [0..<MAX_CUS] 0"

section \<open>Contexts\<close>

definition kds_add_cu_context ::
  "'c kds_sched \<Rightarrow> kds_client \<Rightarrow> kds_client_cu_ctx \<Rightarrow> int \<times> 'c kds_sched \<times> kds_client" where
  "kds_add_cu_context kds client cu_ctx =
     (let cu_idx = unat (cc_cu_idx cu_ctx); domain = cc_cu_domain cu_ctx; m = cu_mgmt_of kds domain in
      if cu_idx \<ge> MAX_CUS \<or> m_xcus m cu_idx = None then (- 22, kds, client)
      else let (cu_set, cl1) = kds_test_and_refcnt_incr client domain cu_idx in
        if cu_set < 0 then (cu_set, kds, cl1)
        else let shared = (cc_flags cu_ctx AND CU_CTX_PROP_MASK \<noteq> CU_CTX_EXCLUSIVE);
                 refs = m_cu_refs m cu_idx
             in if refs AND CU_EXCLU_MASK \<noteq> 0 \<or> \<not> shared \<and> refs \<noteq> 0
                then let (r, cl2) = kds_test_and_refcnt_decr cl1 domain cu_idx
                     in (if r < 0 then - 22 else - 16, kds, cl2)
                else let refs' = (if \<not> shared then refs OR CU_EXCLU_MASK
                                  else if cu_set = 0 then refs + 1 else refs)
                     in (0, set_cu_mgmt kds domain (m\<lparr>m_cu_refs := (m_cu_refs m)(cu_idx := refs')\<rparr>), cl1))"

text \<open>The first round in which as many commands are completed as submitted.\<close>

partial_function (option) wait_completed :: "(nat \<Rightarrow> u64 \<times> u64) \<Rightarrow> nat \<Rightarrow> nat option" where
  "wait_completed obs n = (if fst (obs n) = snd (obs n) then Some n else wait_completed obs (Suc n))"

declare wait_completed.simps [code]

text \<open>
  Waiting for the outstanding commands of the client on a CU. \<open>None\<close> is a wait without end.
  \<open>sync\<close> says whether the ERT has \<open>abort_sync\<close>, \<open>ert_bad\<close> is the result of its \<open>abort_done\<close>. With
  \<open>abort_sync\<close> the wait is at most ten rounds.
\<close>

definition kds_wait_cu ::
  "((nat \<Rightarrow> 'c xrt_cu) \<Rightarrow> nat \<Rightarrow> 'c xrt_cu) \<Rightarrow> (nat \<Rightarrow> u64 \<times> u64) \<Rightarrow> bool \<Rightarrow> bool \<Rightarrow>
   'c kds_sched \<Rightarrow> nat \<Rightarrow> nat \<Rightarrow> nat \<Rightarrow> 'c kds_sched option" where
  "kds_wait_cu env obs sync ert_bad kds cid cu_idx p =
     (if k_ert_disable kds \<or> k_xgq_enable kds
      then let k1 = upd_cu kds p (xrt_cu_abort (k_cus kds p) cid)
           in do { wait_completed obs 0;
                   let k2 = k1\<lparr>k_cus := env (k_cus k1)\<rparr>; (bad, x) = xrt_cu_abort_done (k_cus k2 p) cid
                   in Some ((upd_cu k2 p x)\<lparr>k_bad_state := k_bad_state k2 \<or> bad\<rparr>) }
      else if \<not> sync
      then let k1 = kds\<lparr>k_ert_log := k_ert_log kds @ [ErtAbort cid (int cu_idx)]\<rparr>
           in do { wait_completed obs 0;
                   Some (k1\<lparr>k_ert_log := k_ert_log k1 @ [ErtAbortDone cid (int cu_idx)],
                            k_bad_state := k_bad_state k1 \<or> ert_bad\<rparr>) }
      else if \<exists>n<10. fst (obs n) = snd (obs n) then Some kds
      else Some (kds\<lparr>k_ert_log := k_ert_log kds @ [ErtAbortSync cid (int cu_idx)]\<rparr>))"

definition kds_del_cu_context ::
  "((nat \<Rightarrow> 'c xrt_cu) \<Rightarrow> nat \<Rightarrow> 'c xrt_cu) \<Rightarrow> (nat \<Rightarrow> u64 \<times> u64) \<Rightarrow> bool \<Rightarrow> bool \<Rightarrow>
   'c kds_sched \<Rightarrow> nat \<Rightarrow> kds_client \<Rightarrow> kds_client_cu_ctx \<Rightarrow> (int \<times> 'c kds_sched \<times> kds_client) option" where
  "kds_del_cu_context env obs sync ert_bad kds cid client cu_ctx =
     (case cc_hw_ctx cu_ctx of
        None \<Rightarrow> None
      | Some hw_ctx \<Rightarrow>
         (let cu_idx = unat (cc_cu_idx cu_ctx); domain = cc_cu_domain cu_ctx; m = cu_mgmt_of kds domain in
          if cu_idx \<ge> MAX_CUS then Some (- 22, kds, client)
          else case m_xcus m cu_idx of
            None \<Rightarrow> Some (- 22, kds, client)
          | Some p \<Rightarrow>
             (let (cu_set, cl1) = kds_test_and_refcnt_decr client domain cu_idx in
              if cu_set \<le> 0 then Some (- 22, kds, cl1)
              else do {
                k1 \<leftarrow> (if client_stat_read cl1 hw_ctx (submitted_on domain cu_idx)
                          = client_stat_read cl1 hw_ctx (completed_on domain cu_idx)
                       then Some kds else kds_wait_cu env obs sync ert_bad kds cid cu_idx p);
                let m1 = cu_mgmt_of k1 domain; refs = m_cu_refs m1 cu_idx;
                    refs' = (if refs AND CU_EXCLU_MASK \<noteq> 0 then 0 else if cu_set = 1 then refs - 1 else refs)
                in Some (0, set_cu_mgmt k1 domain (m1\<lparr>m_cu_refs := (m_cu_refs m1)(cu_idx := refs')\<rparr>), cl1) })))"

text \<open>
  \<open>num_cus - num_cdma\<close>, the CU of the memory-to-memory transfers, is the index of an array
  access: outside the array that is a fault.
\<close>

definition cdma_idx :: "'c kds_sched \<Rightarrow> nat option" where
  "cdma_idx kds =
     (let i = m_num_cus (k_cu_mgmt kds) - m_num_cdma (k_cu_mgmt kds)
      in if 0 \<le> i \<and> i < int MAX_CUS then Some (nat i) else None)"

definition kds_add_context ::
  "'c kds_sched \<Rightarrow> kds_client \<Rightarrow> kds_client_cu_ctx \<Rightarrow>
   (int \<times> 'c kds_sched \<times> kds_client \<times> kds_client_cu_ctx) option" where
  "kds_add_context kds client cu_ctx =
     (let domain = cc_cu_domain cu_ctx; shared = (cc_flags cu_ctx \<noteq> CU_CTX_EXCLUSIVE);
          cu_ctx' = cu_ctx\<lparr>cc_ref_cnt := cc_ref_cnt cu_ctx + 1\<rparr> in
      if domain = DOMAIN_VIRT
      then (if \<not> shared then Some (- 22, kds, client, cu_ctx)
            else if m_num_cdma (k_cu_mgmt kds) \<noteq> 0 \<and> cc_ref_cnt cu_ctx = 0
            then do { i \<leftarrow> cdma_idx kds;
                      let (r, cl1) = kds_test_and_refcnt_incr client DOMAIN_PL i; m = k_cu_mgmt kds in
                      if r < 0 then Some (- 22, kds, cl1, cu_ctx)
                      else Some (0, kds\<lparr>k_cu_mgmt := m\<lparr>m_cu_refs := (m_cu_refs m)(i := m_cu_refs m i + 1)\<rparr>\<rparr>,
                                 cl1, cu_ctx') }
            else Some (0, kds, client, cu_ctx'))
      else if domain = DOMAIN_PL \<or> domain = DOMAIN_PS
      then let (r, k1, cl1) = kds_add_cu_context kds client cu_ctx
           in if r \<noteq> 0 then Some (- 22, k1, cl1, cu_ctx) else Some (0, k1, cl1, cu_ctx')
      else Some (- 22, kds, client, cu_ctx))"

definition kds_del_context ::
  "((nat \<Rightarrow> 'c xrt_cu) \<Rightarrow> nat \<Rightarrow> 'c xrt_cu) \<Rightarrow> (nat \<Rightarrow> u64 \<times> u64) \<Rightarrow> bool \<Rightarrow> bool \<Rightarrow>
   'c kds_sched \<Rightarrow> nat \<Rightarrow> kds_client \<Rightarrow> kds_client_cu_ctx \<Rightarrow>
   (int \<times> 'c kds_sched \<times> kds_client \<times> kds_client_cu_ctx) option" where
  "kds_del_context env obs sync ert_bad kds cid client cu_ctx =
     (let domain = cc_cu_domain cu_ctx; cu_ctx' = cu_ctx\<lparr>cc_ref_cnt := cc_ref_cnt cu_ctx - 1\<rparr> in
      if cc_ref_cnt cu_ctx = 0 then Some (- 22, kds, client, cu_ctx)
      else if cc_ref_cnt cu_ctx' \<noteq> 0 then Some (0, kds, client, cu_ctx')
      else if domain = DOMAIN_VIRT
      then (if m_num_cdma (k_cu_mgmt kds) \<noteq> 0
            then do { i \<leftarrow> cdma_idx kds;
                      let (r1, cl1) = kds_test_and_refcnt_decr client DOMAIN_PL i in
                      if r1 < 0 then Some (- 22, kds, cl1, cu_ctx')
                      else let (r2, cl2) = kds_test_and_refcnt_decr cl1 DOMAIN_PL i; m = k_cu_mgmt kds in
                        if r2 = 0 then Some (- 22, kds, cl2, cu_ctx')
                        else Some (0, kds\<lparr>k_cu_mgmt := m\<lparr>m_cu_refs := (m_cu_refs m)(i := m_cu_refs m i - 1)\<rparr>\<rparr>,
                                   cl2, cu_ctx') }
            else Some (0, kds, client, cu_ctx'))
      else if domain = DOMAIN_PL \<or> domain = DOMAIN_PS
      then do { (r, k1, cl1) \<leftarrow> kds_del_cu_context env obs sync ert_bad kds cid client cu_ctx';
                Some (if r \<noteq> 0 then - 22 else 0, k1, cl1, cu_ctx') }
      else Some (- 22, kds, client, cu_ctx'))"

text \<open>The result \<open>Inr\<close> is the address; \<open>idx\<close> is not negative in any call.\<close>

definition kds_map_cu_addr :: "'c kds_sched \<Rightarrow> kds_client \<Rightarrow> nat \<Rightarrow> u32 res" where
  "kds_map_cu_addr kds client idx =
     (let m = k_cu_mgmt kds in
      if idx \<ge> MAX_CUS then Inl EINVAL
      else case m_xcus m idx of
        None \<Rightarrow> Inl EINVAL
      | Some p \<Rightarrow>
          if kds_test_refcnt client DOMAIN_PL idx = 0 then Inl EINVAL
          else if xcr_start (k_cus kds p) = 0 \<and> \<not> m_rw_shared m \<and> m_cu_refs m idx AND CU_EXCLU_MASK = 0
          then Inl EINVAL
          else Inr (ucast (ci_addr (x_info (k_cus kds p)))))"

section \<open>Clients\<close>

definition kds_init_client :: "bool \<Rightarrow> 'c kds_sched \<Rightarrow> nat \<Rightarrow> kds_client \<Rightarrow> int \<times> 'c kds_sched \<times> kds_client" where
  "kds_init_client ok kds cid client =
     (if \<not> ok then (- 12, kds, client\<lparr>cl_refcnt := None\<rparr>)
      else (0, kds\<lparr>k_clients := k_clients kds @ [cid], k_num_client := k_num_client kds + 1\<rparr>,
            client\<lparr>cl_refcnt := Some \<lparr>cl_cu_refs = (\<lambda>_. 0), cl_scu_refs = (\<lambda>_. 0)\<rparr>\<rparr>))"

text \<open>The statistics of \<open>cu_stats\<close> are allocated zeroed; the two flags say whether that succeeds.\<close>

definition kds_init_sched :: "bool \<Rightarrow> bool \<Rightarrow> 'c kds_sched \<Rightarrow> int \<times> 'c kds_sched" where
  "kds_init_sched ok1 ok2 kds =
     (let k1 = kds\<lparr>k_cu_mgmt := (k_cu_mgmt kds)\<lparr>m_xcus := (\<lambda>i. if i < MAX_CUS then None else m_xcus (k_cu_mgmt kds) i)\<rparr>,
                   k_scu_mgmt := (k_scu_mgmt kds)\<lparr>m_xcus := (\<lambda>i. if i < MAX_CUS then None else m_xcus (k_scu_mgmt kds) i)\<rparr>\<rparr>
      in if \<not> ok1 then (- 12, k1)
         else let k2 = k1\<lparr>k_cu_mgmt := (k_cu_mgmt k1)\<lparr>m_usage := (\<lambda>_. 0)\<rparr>\<rparr>
              in if \<not> ok2 then (- 12, k2)
                 else (0, k2\<lparr>k_scu_mgmt := (k_scu_mgmt k2)\<lparr>m_usage := (\<lambda>_. 0)\<rparr>, k_clients := [], k_alive_cus := [],
                             k_num_client := 0, k_bad_state := False, k_ert_disable := True,
                             k_ini_disable := False, k_timestamp_set := False\<rparr>))"

section \<open>Choosing a CU and dispatching\<close>

definition min_usage_cu :: "kds_cu_mgmt \<Rightarrow> nat list \<Rightarrow> nat \<Rightarrow> nat" where
  "min_usage_cu m valid first = fold (\<lambda>i index. if m_usage m i < m_usage m index then i else index) valid first"

text \<open>
  \<open>gone\<close> says whether another thread closes the context of the chosen CU between the two looks at
  the reference counts. The last component of the result is the command.
\<close>

definition acquire_cu_idx ::
  "bool \<Rightarrow> 'c kds_sched \<Rightarrow> u32 \<Rightarrow> kds_client \<Rightarrow> kds_command \<Rightarrow>
   (int \<times> 'c kds_sched \<times> kds_client \<times> kds_command) option" where
  "acquire_cu_idx gone kds domain client xcmd =
     (let m = cu_mgmt_of kds domain; user_cus = map unat (cu_mask_to_cu_idx xcmd) in
      if int (length user_cus) > m_num_cus m then Some (- 22, kds, client, xcmd)
      else if list_ex (\<lambda>i. kds_test_refcnt client domain i < 0) user_cus then Some (- 22, kds, client, xcmd)
      else case filter (\<lambda>i. kds_test_refcnt client domain i \<noteq> 0) user_cus of
        [] \<Rightarrow> Some (- 22, kds, client, xcmd)
      | v # vs \<Rightarrow>
          (let index = min_usage_cu m vs v in
           case m_xcus m index of
             None \<Rightarrow> None
           | Some p \<Rightarrow>
               if ci_protocol (x_info (k_cus kds p)) = CTRL_NONE then Some (- 22, kds, client, xcmd)
               else if is_ucu (k_cus kds p) then Some (- 16, kds, client, xcmd)
               else let k1 = set_cu_mgmt kds domain (m\<lparr>m_usage := (m_usage m)(index := m_usage m index + 1)\<rparr>);
                        cl1 = client_stat_upd client (kc_hw_ctx_id xcmd) (add_submitted domain index 1);
                        xcmd1 = xcmd\<lparr>kc_cu_idx := int index\<rparr>
                    in if gone
                       then Some (- 11, k1, client_stat_upd cl1 (kc_hw_ctx_id xcmd) (add_submitted domain index (- 1)), xcmd1)
                       else Some (int index, k1, cl1, xcmd1)))"

text \<open>The loop tries again after \<open>-EAGAIN\<close>; the list says which attempts lose their CU.\<close>

fun acquire_loop ::
  "bool list \<Rightarrow> 'c kds_sched \<Rightarrow> u32 \<Rightarrow> kds_client \<Rightarrow> kds_command \<Rightarrow>
   (int \<times> 'c kds_sched \<times> kds_client \<times> kds_command) option" where
  "acquire_loop [] kds domain client xcmd = acquire_cu_idx False kds domain client xcmd"
| "acquire_loop (g # gs) kds domain client xcmd =
     do { (r, k1, cl1, x1) \<leftarrow> acquire_cu_idx g kds domain client xcmd;
          if r = - 11 then acquire_loop gs k1 domain cl1 x1 else Some (r, k1, cl1, x1) }"

definition kds_cu_dispatch ::
  "bool list \<Rightarrow> 'c kds_sched \<Rightarrow> u32 \<Rightarrow> kds_client \<Rightarrow> kenv \<Rightarrow> nat \<Rightarrow>
   (int \<times> 'c kds_sched \<times> kds_client \<times> kenv) option" where
  "kds_cu_dispatch gs kds domain client e xcmd =
     do { (r, k1, cl1, x1) \<leftarrow> acquire_loop gs kds domain client (e_heap e xcmd);
          let e1 = e\<lparr>e_heap := (e_heap e)(xcmd := x1)\<rparr> in
          if r < 0 then Some (r, k1, cl1, e1)
          else do { p \<leftarrow> m_xcus (cu_mgmt_of k1 domain) (nat r);
                    Some (0, upd_cu k1 p (xrt_cu_submit (k_cus k1 p) xcmd), cl1,
                          env_timestamp e1 xcmd KDS_QUEUED) } }"

section \<open>Reservations\<close>

text \<open>How often a client has a CU open, and which clients of a list have it open.\<close>

definition refs_of :: "kds_client \<Rightarrow> u32 \<Rightarrow> nat \<Rightarrow> nat" where
  "refs_of client domain i =
     (case kds_client_domain_refcnt client domain of None \<Rightarrow> 0 | Some refs \<Rightarrow> unat (refs i))"

definition holders :: "nat list \<Rightarrow> (nat \<Rightarrow> kds_client) \<Rightarrow> u32 \<Rightarrow> nat \<Rightarrow> nat list" where
  "holders C cls domain i = filter (\<lambda>c. refs_of (cls c) domain i \<noteq> 0) C"

definition reserved_ok :: "'c kds_sched \<Rightarrow> (nat \<Rightarrow> kds_client) \<Rightarrow> nat list \<Rightarrow> u32 \<Rightarrow> nat \<Rightarrow> bool" where
  "reserved_ok kds cls C domain i =
     (let r = m_cu_refs (cu_mgmt_of kds domain) i in
      if r AND CU_EXCLU_MASK \<noteq> 0
      then (\<exists>c. holders C cls domain i = [c] \<and> refs_of (cls c) domain i = 1)
      else unat r = length (holders C cls domain i))"

abbreviation hw_domain :: "u32 \<Rightarrow> bool" where
  "hw_domain d \<equiv> d = DOMAIN_PL \<or> d = DOMAIN_PS"

lemma exclu_bit: "(w :: u32) AND CU_EXCLU_MASK = 0 \<longleftrightarrow> unat w < 2 ^ 31"
proof -
  have "w AND CU_EXCLU_MASK = w AND 2 ^ 31" by simp
  also have "\<dots> = 0 \<longleftrightarrow> \<not> bit w 31" by (rule and_exp_eq_0_iff_not_bit)
  also have "bit w 31 = bit (unat w) 31" by (simp add: bit_unsigned_iff)
  also have "\<not> bit (unat w) 31 \<longleftrightarrow> unat w < 2 ^ 31"
  proof -
    have "unat w < 2 ^ LENGTH(32)" by (rule unsigned_less)
    then have "unat w < 2 ^ 32" by simp
    then have "unat w div 2 ^ 31 = 1" if "\<not> unat w < 2 ^ 31"
      using that by (intro div_nat_eqI) simp_all
    then show ?thesis by (cases "unat w < 2 ^ 31") (simp_all add: bit_iff_odd)
  qed
  finally show ?thesis .
qed

lemma sint_small: assumes "unat (w :: u32) < 2 ^ 31" shows "sint w = int (unat w)"
proof -
  have "int (unat w) < int (2 ^ 31)" using assms by (simp only: of_nat_less_iff)
  then have "uint w < 2 ^ 31" by simp
  moreover have "- (2 ^ 31) \<le> uint w" by (rule order_trans [OF _ uint_ge_0]) simp
  ultimately have "signed_take_bit 31 (uint w) = uint w" by (intro signed_take_bit_int_eq_self)
  moreover have "sint w = signed_take_bit 31 (uint w)" by (simp add: sint_uint)
  ultimately show ?thesis by simp
qed

lemma refs_after_set:
  "kds_client_domain_refcnt client d = Some refs \<Longrightarrow>
     kds_client_domain_refcnt (set_domain_refcnt client d refs') d' =
       (if d' = d then Some refs' else kds_client_domain_refcnt client d')"
  by (auto simp: kds_client_domain_refcnt_def set_domain_refcnt_def split: option.splits if_splits)

lemma refcnt_incr:
  assumes "kds_client_domain_refcnt client d = Some refs" and "refs_of client d i < 2 ^ 31 - 1"
  shows "\<exists>cl. kds_test_and_refcnt_incr client d i = (int (refs_of client d i), cl)
    \<and> refs_of cl d i = Suc (refs_of client d i)
    \<and> (\<forall>d' j. (d', j) \<noteq> (d, i) \<longrightarrow> refs_of cl d' j = refs_of client d' j)
    \<and> kds_client_domain_refcnt cl d = Some (refs(i := refs i + 1))"
proof -
  have r: "refs_of client d i = unat (refs i)" by (simp add: refs_of_def assms(1))
  then have "unat (refs i + 1) = Suc (unat (refs i))" using assms(2) by (simp add: unat_word_ariths)
  moreover have "sint (refs i) = int (unat (refs i))" using r assms(2) by (intro sint_small) simp
  ultimately show ?thesis
    using r by (simp add: kds_test_and_refcnt_incr_def assms(1) refs_of_def refs_after_set [OF assms(1)])
qed

lemma refcnt_decr:
  assumes "kds_client_domain_refcnt client d = Some refs" and "refs_of client d i < 2 ^ 31"
  shows "\<exists>cl. kds_test_and_refcnt_decr client d i = (int (refs_of client d i), cl)
    \<and> refs_of cl d i = refs_of client d i - 1
    \<and> (\<forall>d' j. (d', j) \<noteq> (d, i) \<longrightarrow> refs_of cl d' j = refs_of client d' j)"
proof -
  have r: "refs_of client d i = unat (refs i)" by (simp add: refs_of_def assms(1))
  have s: "sint (refs i) = int (unat (refs i))" using r assms(2) by (intro sint_small) simp
  show ?thesis
  proof (cases "refs i = 0")
    case True
    then show ?thesis using r by (simp add: kds_test_and_refcnt_decr_def assms(1))
  next
    case False
    then have "unat (refs i - 1) = unat (refs i) - 1" by (simp add: unat_minus_one)
    moreover have "0 < sint (refs i)" using False s unat_gt_0 [of "refs i"] by linarith
    ultimately show ?thesis
      using r s by (simp add: kds_test_and_refcnt_decr_def assms(1) refs_of_def refs_after_set [OF assms(1)])
  qed
qed

lemma filter_only: "distinct C \<Longrightarrow> c \<in> set C \<Longrightarrow> filter (\<lambda>x. x = c) C = [c]"
  by (induction C) (auto simp: filter_empty_conv)

lemma length_holders:
  "distinct C \<Longrightarrow> length (holders C cls d i) = card {c \<in> set C. refs_of (cls c) d i \<noteq> 0}"
  unfolding holders_def by (simp add: distinct_length_filter Int_def conj_commute)

lemma cu_mgmt_of_set:
  "cu_mgmt_of (set_cu_mgmt kds d m) d = m"
  "hw_domain d \<Longrightarrow> hw_domain d' \<Longrightarrow> d' \<noteq> d \<Longrightarrow> cu_mgmt_of (set_cu_mgmt kds d m) d' = cu_mgmt_of kds d'"
  by (auto simp: cu_mgmt_of_def set_cu_mgmt_def)

lemma reserved_ok_cong:
  assumes "\<And>x. refs_of (cls' x) d i = refs_of (cls x) d i"
    and "m_cu_refs (cu_mgmt_of kds' d) i = m_cu_refs (cu_mgmt_of kds d) i"
  shows "reserved_ok kds' cls' C d i = reserved_ok kds cls C d i"
  unfolding reserved_ok_def holders_def assms ..

lemma add_cu_context_ok:
  assumes "distinct C" and "c \<in> set C" and "length C < 2 ^ 31" and "hw_domain (cc_cu_domain ctx)"
    and inv: "\<And>d i. hw_domain d \<Longrightarrow> reserved_ok kds cls C d i"
    and "kds_client_domain_refcnt (cls c) (cc_cu_domain ctx) = Some refs"
    and "refs_of (cls c) (cc_cu_domain ctx) (unat (cc_cu_idx ctx)) < 2 ^ 31 - 1"
    and "kds_add_cu_context kds (cls c) ctx = (r, kds', cl)" and "hw_domain d"
  shows "reserved_ok kds' (cls(c := cl)) C d i"
proof -
  define D k where "D = cc_cu_domain ctx" and "k = unat (cc_cu_idx ctx)"
  define m where "m = cu_mgmt_of kds D"
  define ref where "ref = m_cu_refs m k"
  define shared where "shared = (cc_flags ctx AND CU_CTX_PROP_MASK \<noteq> CU_CTX_EXCLUSIVE)"
  obtain cl1 where incr: "kds_test_and_refcnt_incr (cls c) D k = (int (refs_of (cls c) D k), cl1)"
    and incr1: "refs_of cl1 D k = Suc (refs_of (cls c) D k)"
    and incr2: "\<And>d' j. (d', j) \<noteq> (D, k) \<Longrightarrow> refs_of cl1 d' j = refs_of (cls c) d' j"
    and incr3: "kds_client_domain_refcnt cl1 D = Some (refs(k := refs k + 1))"
    using refcnt_incr [OF assms(6), of k] assms(7) unfolding D_def k_def by blast
  have lim: "refs_of cl1 D k < 2 ^ 31" using incr1 assms(7) unfolding D_def k_def by simp
  obtain cl2 where decr: "kds_test_and_refcnt_decr cl1 D k = (int (refs_of cl1 D k), cl2)"
    and decr1: "refs_of cl2 D k = refs_of cl1 D k - 1"
    and decr2: "\<And>d' j. (d', j) \<noteq> (D, k) \<Longrightarrow> refs_of cl2 d' j = refs_of cl1 d' j"
    using refcnt_decr [OF incr3 lim] by blast
  have same2: "refs_of cl2 d' j = refs_of (cls c) d' j" for d' j
    using incr1 incr2 decr1 decr2 by (cases "(d', j) = (D, k)") auto
  have run: "kds_add_cu_context kds (cls c) ctx =
     (if k \<ge> MAX_CUS \<or> m_xcus m k = None then (- 22, kds, cls c)
      else if ref AND CU_EXCLU_MASK \<noteq> 0 \<or> \<not> shared \<and> ref \<noteq> 0 then (- 16, kds, cl2)
      else (0, set_cu_mgmt kds D (m\<lparr>m_cu_refs := (m_cu_refs m)(k :=
              (if \<not> shared then ref OR CU_EXCLU_MASK else if refs_of (cls c) D k = 0 then ref + 1 else ref))\<rparr>), cl1))"
    unfolding kds_add_cu_context_def Let_def D_def [symmetric] k_def [symmetric] m_def [symmetric]
      incr prod.case ref_def [symmetric] shared_def [symmetric] decr
    by simp
  have unchanged: "reserved_ok kds (cls(c := x)) C d i" if "\<And>d' j. refs_of x d' j = refs_of (cls c) d' j" for x
    using inv [OF assms(9), of i] reserved_ok_cong [of "cls(c := x)" d i cls kds kds C] that by simp
  consider "kds' = kds" "\<And>d' j. refs_of cl d' j = refs_of (cls c) d' j"
    | "kds' = set_cu_mgmt kds D (m\<lparr>m_cu_refs := (m_cu_refs m)(k :=
              (if \<not> shared then ref OR CU_EXCLU_MASK else if refs_of (cls c) D k = 0 then ref + 1 else ref))\<rparr>)"
      "cl = cl1" "ref AND CU_EXCLU_MASK = 0" "shared \<or> ref = 0"
    using assms(8) same2 unfolding run by (auto split: if_splits)
  then show ?thesis
  proof cases
    case 1
    then show ?thesis using unchanged by simp
  next
    case 2
    show ?thesis
    proof (cases "(d, i) = (D, k)")
      case False
      then have "m_cu_refs (cu_mgmt_of kds' d) i = m_cu_refs (cu_mgmt_of kds d) i"
        using assms(4,9) unfolding 2(1) m_def D_def [symmetric]
        by (cases "d = D") (simp_all add: cu_mgmt_of_set)
      with False show ?thesis
        using inv [OF assms(9), of i] reserved_ok_cong [of "cls(c := cl)" d i cls kds' kds C] incr2 [OF False] 2(2)
        by simp
    next
      case True
      then have d: "d = D" and i: "i = k" by auto
      have h: "unat ref = length (holders C cls D k)"
        using inv [OF assms(9), of i] 2(3) unfolding d i reserved_ok_def Let_def m_def [symmetric] ref_def [symmetric]
        by simp
      have H: "{x \<in> set C. refs_of ((cls(c := cl1)) x) D k \<noteq> 0} = insert c {x \<in> set C. refs_of (cls x) D k \<noteq> 0}"
        using assms(2) incr1 by auto
      have n': "length (holders C (cls(c := cl1)) D k)
          = (if refs_of (cls c) D k = 0 then Suc (length (holders C cls D k)) else length (holders C cls D k))"
        unfolding length_holders [OF assms(1)] H using assms(2) by (simp add: card_insert_if)
      have le: "length (holders C (cls(c := cl1)) D k) \<le> length C" by (simp add: holders_def)
      show ?thesis
      proof (cases shared)
        case True
        let ?ref = "if refs_of (cls c) D k = 0 then ref + 1 else ref"
        have "unat ?ref = length (holders C (cls(c := cl1)) D k)"
          using h n' le assms(3) by (auto simp: unat_word_ariths)
        moreover from this have "?ref AND CU_EXCLU_MASK = 0" using le assms(3) unfolding exclu_bit by simp
        ultimately show ?thesis
          using True unfolding d i 2(1,2) reserved_ok_def Let_def cu_mgmt_of_set by simp
      next
        case False
        then have "holders C cls D k = []" using h 2(4) by simp
        then have none: "refs_of (cls x) D k = 0" if "x \<in> set C" for x
          using that by (auto simp: holders_def filter_empty_conv)
        have "holders C (cls(c := cl1)) D k = filter (\<lambda>x. x = c) C"
          unfolding holders_def using none incr1 by (intro filter_cong) auto
        then have "holders C (cls(c := cl1)) D k = [c]" using filter_only assms(1,2) by metis
        moreover have "refs_of cl1 D k = 1" using incr1 none assms(2) by simp
        ultimately show ?thesis
          using False 2(4) unfolding d i 2(1,2) reserved_ok_def Let_def cu_mgmt_of_set by simp
      qed
    qed
  qed
qed

lemma wait_cu_refs:
  "kds_wait_cu env obs sync ert_bad kds cid i p = Some k1 \<Longrightarrow> cu_mgmt_of k1 d = cu_mgmt_of kds d"
  by (auto simp: kds_wait_cu_def cu_mgmt_of_def upd_cu_def Let_def xrt_cu_abort_done_def
      split: if_splits option.splits bind_splits)

lemma del_cu_context_cases:
  assumes "kds_del_cu_context env obs sync ert_bad kds cid client ctx = Some (r, kds', cl)"
    and "cc_cu_domain ctx = D" and "unat (cc_cu_idx ctx) = k"
    and "kds_test_and_refcnt_decr client D k = (int n, cl1)"
  obtains "kds' = kds" and "cl = client \<or> n = 0 \<and> cl = cl1"
  | k1 where "\<And>d. cu_mgmt_of k1 d = cu_mgmt_of kds d" and "n \<noteq> 0" and "cl = cl1" and "r = 0"
      and "kds' = set_cu_mgmt k1 D ((cu_mgmt_of kds D)\<lparr>m_cu_refs := (m_cu_refs (cu_mgmt_of kds D))(k :=
        (if m_cu_refs (cu_mgmt_of kds D) k AND CU_EXCLU_MASK \<noteq> 0 then 0
         else if n = 1 then m_cu_refs (cu_mgmt_of kds D) k - 1 else m_cu_refs (cu_mgmt_of kds D) k))\<rparr>)"
proof -
  note run = assms(1) [unfolded kds_del_cu_context_def assms(2,3,4) Let_def prod.case]
  obtain hw where hw: "cc_hw_ctx ctx = Some hw" using run by (cases "cc_hw_ctx ctx") simp_all
  note run = run [unfolded hw option.case]
  show thesis
  proof (cases "k \<ge> MAX_CUS \<or> m_xcus (cu_mgmt_of kds D) k = None \<or> n = 0")
    case True
    then show thesis using run by (intro that(1)) (auto split: option.splits if_splits)
  next
    case False
    then obtain p where p: "m_xcus (cu_mgmt_of kds D) k = Some p" by auto
    let ?step = "if client_stat_read cl1 hw (submitted_on D k) = client_stat_read cl1 hw (completed_on D k)
      then Some kds else kds_wait_cu env obs sync ert_bad kds cid k p"
    obtain k1 where k1: "?step = Some k1"
      using run False unfolding p by (cases ?step) simp_all
    have same: "cu_mgmt_of k1 d = cu_mgmt_of kds d" for d
      using k1 wait_cu_refs by (auto split: if_splits)
    show thesis
      by (rule that(2) [of k1, OF same]) (use run False in \<open>simp_all add: p k1 same cong: if_cong\<close>)
  qed
qed

lemma del_cu_context_ok:
  assumes "distinct C" and "c \<in> set C" and "hw_domain (cc_cu_domain ctx)"
    and inv: "\<And>d i. hw_domain d \<Longrightarrow> reserved_ok kds cls C d i"
    and "kds_client_domain_refcnt (cls c) (cc_cu_domain ctx) = Some refs"
    and "refs_of (cls c) (cc_cu_domain ctx) (unat (cc_cu_idx ctx)) < 2 ^ 31"
    and "kds_del_cu_context env obs sync ert_bad kds cid (cls c) ctx = Some (r, kds', cl)" and "hw_domain d"
  shows "reserved_ok kds' (cls(c := cl)) C d i"
proof -
  define D k where "D = cc_cu_domain ctx" and "k = unat (cc_cu_idx ctx)"
  define n where "n = refs_of (cls c) D k"
  obtain cl1 where decr: "kds_test_and_refcnt_decr (cls c) D k = (int n, cl1)"
    and decr1: "refs_of cl1 D k = n - 1"
    and decr2: "\<And>d' j. (d', j) \<noteq> (D, k) \<Longrightarrow> refs_of cl1 d' j = refs_of (cls c) d' j"
    using refcnt_decr [OF assms(5,6)] unfolding D_def k_def n_def by blast
  from assms(7) D_def [symmetric] k_def [symmetric] decr show ?thesis
  proof (cases rule: del_cu_context_cases)
    case 1
    have "refs_of cl d i = refs_of (cls c) d i"
      using 1(2) decr1 decr2 by (cases "(d, i) = (D, k)") (auto simp: n_def)
    then show ?thesis
      using 1(1) inv [OF assms(8), of i] reserved_ok_cong [of "cls(c := cl)" d i cls kds kds C] by simp
  next
    case (2 k1)
    define ref where "ref = m_cu_refs (cu_mgmt_of kds D) k"
    show ?thesis
    proof (cases "(d, i) = (D, k)")
      case False
      then have "m_cu_refs (cu_mgmt_of kds' d) i = m_cu_refs (cu_mgmt_of kds d) i"
        using assms(3,8) 2(1) unfolding 2(5) D_def [symmetric]
        by (cases "d = D") (simp_all add: cu_mgmt_of_set)
      with False show ?thesis
        using inv [OF assms(8), of i] reserved_ok_cong [of "cls(c := cl)" d i cls kds' kds C] decr2 [OF False] 2(3)
        by simp
    next
      case True
      then have d: "d = D" and i: "i = k" by auto
      have old: "reserved_ok kds cls C D k" using inv [OF assms(8), of i] unfolding d i .
      have mem: "c \<in> {x \<in> set C. refs_of (cls x) D k \<noteq> 0}" using assms(2) 2(2) by (simp add: n_def)
      have H: "{x \<in> set C. refs_of ((cls(c := cl1)) x) D k \<noteq> 0}
          = (if n = 1 then {x \<in> set C. refs_of (cls x) D k \<noteq> 0} - {c} else {x \<in> set C. refs_of (cls x) D k \<noteq> 0})"
        using 2(2) mem decr1 by auto
      have n': "length (holders C (cls(c := cl1)) D k)
          = (if n = 1 then length (holders C cls D k) - 1 else length (holders C cls D k))"
        unfolding length_holders [OF assms(1)] H using mem by (simp add: card_Diff_singleton)
      have pos: "0 < length (holders C cls D k)"
        unfolding length_holders [OF assms(1)] using mem by (simp only: card_gt_0_iff) auto
      show ?thesis
      proof (cases "ref AND CU_EXCLU_MASK = 0")
        case True
        then have h: "unat ref = length (holders C cls D k)"
          using old unfolding reserved_ok_def Let_def ref_def [symmetric] by simp
        let ?ref = "if n = 1 then ref - 1 else ref"
        have "ref \<noteq> 0" using h pos by auto
        then have u: "unat ?ref = length (holders C (cls(c := cl1)) D k)"
          using h n' by (simp add: unat_minus_one)
        have "?ref AND CU_EXCLU_MASK = 0"
          using True h n' u unfolding exclu_bit by (auto split: if_splits)
        with u show ?thesis
          using True unfolding d i 2(3,5) ref_def [symmetric] reserved_ok_def Let_def cu_mgmt_of_set by simp
      next
        case False
        then have "\<exists>x. holders C cls D k = [x] \<and> refs_of (cls x) D k = 1"
          using old unfolding reserved_ok_def Let_def ref_def [symmetric] by simp
        then obtain x where x: "holders C cls D k = [x]" "refs_of (cls x) D k = 1" by blast
        have "c \<in> set (holders C cls D k)" using mem by (simp add: holders_def)
        then have "n = 1" using x by (simp add: n_def)
        then have "length (holders C (cls(c := cl1)) D k) = 0" using n' x by simp
        then show ?thesis
          using False unfolding d i 2(3,5) ref_def [symmetric] reserved_ok_def Let_def cu_mgmt_of_set by simp
      qed
    qed
  qed
qed

section \<open>Runs of opening and closing contexts\<close>

text \<open>
  The clients \<open>C\<close> open and close contexts on hardware and software CUs in any order. A client
  that takes part has its reference counts, and opens a CU less than \<open>2 ^ 31 - 1\<close> times.
\<close>

inductive ctx_reach :: "nat list \<Rightarrow> 'c kds_sched \<times> (nat \<Rightarrow> kds_client) \<Rightarrow> 'c kds_sched \<times> (nat \<Rightarrow> kds_client) \<Rightarrow> bool"
  for C s0 where
  start: "ctx_reach C s0 s0"
| add: "ctx_reach C s0 (kds, cls) \<Longrightarrow> c \<in> set C \<Longrightarrow> hw_domain (cc_cu_domain ctx) \<Longrightarrow>
    cl_refcnt (cls c) \<noteq> None \<Longrightarrow>
    refs_of (cls c) (cc_cu_domain ctx) (unat (cc_cu_idx ctx)) < 2 ^ 31 - 1 \<Longrightarrow>
    kds_add_context kds (cls c) ctx = Some (r, kds', cl, ctx') \<Longrightarrow> ctx_reach C s0 (kds', cls(c := cl))"
| del: "ctx_reach C s0 (kds, cls) \<Longrightarrow> c \<in> set C \<Longrightarrow> hw_domain (cc_cu_domain ctx) \<Longrightarrow>
    cl_refcnt (cls c) \<noteq> None \<Longrightarrow>
    refs_of (cls c) (cc_cu_domain ctx) (unat (cc_cu_idx ctx)) < 2 ^ 31 \<Longrightarrow>
    kds_del_context env obs sync ert_bad kds cid (cls c) ctx = Some (r, kds', cl, ctx') \<Longrightarrow>
    ctx_reach C s0 (kds', cls(c := cl))"

lemma refcnt_domain: "cl_refcnt client \<noteq> None \<Longrightarrow> hw_domain d \<Longrightarrow> \<exists>refs. kds_client_domain_refcnt client d = Some refs"
  by (auto simp: kds_client_domain_refcnt_def)

lemma add_context_ok:
  assumes "distinct C" and "c \<in> set C" and "length C < 2 ^ 31" and dom: "hw_domain (cc_cu_domain ctx)"
    and inv: "\<And>d i. hw_domain d \<Longrightarrow> reserved_ok kds cls C d i" and "cl_refcnt (cls c) \<noteq> None"
    and "refs_of (cls c) (cc_cu_domain ctx) (unat (cc_cu_idx ctx)) < 2 ^ 31 - 1"
    and run: "kds_add_context kds (cls c) ctx = Some (r, kds', cl, ctx')" and "hw_domain d"
  shows "reserved_ok kds' (cls(c := cl)) C d i"
proof -
  obtain q k1 cl1 where a: "kds_add_cu_context kds (cls c) ctx = (q, k1, cl1)" by (metis prod.exhaust)
  have "kds' = k1 \<and> cl = cl1"
    using run dom by (auto simp: kds_add_context_def a Let_def split: if_splits)
  then show ?thesis
    using add_cu_context_ok [OF assms(1,2,3) dom inv _ assms(7) a assms(9)] refcnt_domain [OF assms(6) dom] by auto
qed

lemma del_context_ok:
  assumes "distinct C" and "c \<in> set C" and dom: "hw_domain (cc_cu_domain ctx)"
    and inv: "\<And>d i. hw_domain d \<Longrightarrow> reserved_ok kds cls C d i" and "cl_refcnt (cls c) \<noteq> None"
    and lim: "refs_of (cls c) (cc_cu_domain ctx) (unat (cc_cu_idx ctx)) < 2 ^ 31"
    and run: "kds_del_context env obs sync ert_bad kds cid (cls c) ctx = Some (r, kds', cl, ctx')" and "hw_domain d"
  shows "reserved_ok kds' (cls(c := cl)) C d i"
proof -
  let ?ctx = "ctx\<lparr>cc_ref_cnt := cc_ref_cnt ctx - 1\<rparr>"
  consider "kds' = kds" "cl = cls c"
    | q where "kds_del_cu_context env obs sync ert_bad kds cid (cls c) ?ctx = Some (q, kds', cl)"
    using run dom by (auto simp: kds_del_context_def Let_def split: if_splits bind_splits)
  then show ?thesis
  proof cases
    case 1
    then show ?thesis using inv [OF assms(8)] by simp
  next
    case 2
    then show ?thesis
      using del_cu_context_ok [OF assms(1,2) _ inv _ _ 2 assms(8)] refcnt_domain [OF assms(5) dom] lim dom by auto
  qed
qed

lemma ctx_reach_ok:
  assumes "ctx_reach C s0 s" and "distinct C" and "length C < 2 ^ 31"
    and "\<And>d i. hw_domain d \<Longrightarrow> reserved_ok (fst s0) (snd s0) C d i" and "hw_domain d"
  shows "reserved_ok (fst s) (snd s) C d i"
  using assms
proof (induction arbitrary: d i rule: ctx_reach.induct)
  case start
  then show ?case by simp
next
  case (add kds cls c ctx r kds' cl ctx')
  have "reserved_ok kds cls C d' j" if "hw_domain d'" for d' j
    using add.IH [OF add.prems(1-3) that] by simp
  from add_context_ok [OF add.prems(1) add.hyps(2) add.prems(2) add.hyps(3) this add.hyps(4,5,6) add.prems(4)]
  show ?case by (simp only: fst_conv snd_conv)
next
  case (del kds cls c ctx env obs sync ert_bad cid r kds' cl ctx')
  have "reserved_ok kds cls C d' j" if "hw_domain d'" for d' j
    using del.IH [OF del.prems(1-3) that] by simp
  from del_context_ok [OF del.prems(1) del.hyps(2) del.hyps(3) this del.hyps(4,5,6) del.prems(4)]
  show ?case by (simp only: fst_conv snd_conv)
qed

section \<open>Properties of contexts\<close>

text \<open>A scheduler and a client without reservations.\<close>

definition unreserved :: "'c kds_sched \<Rightarrow> (nat \<Rightarrow> kds_client) \<Rightarrow> nat list \<Rightarrow> bool" where
  "unreserved kds cls C \<longleftrightarrow> m_cu_refs (k_cu_mgmt kds) = (\<lambda>_. 0) \<and> m_cu_refs (k_scu_mgmt kds) = (\<lambda>_. 0) \<and>
     list_all (\<lambda>c. cl_refcnt (cls c) = Some \<lparr>cl_cu_refs = (\<lambda>_. 0), cl_scu_refs = (\<lambda>_. 0)\<rparr>) C"

lemma unreserved_ok:
  assumes "unreserved kds cls C" and "hw_domain d" shows "reserved_ok kds cls C d i"
proof -
  have "m_cu_refs (cu_mgmt_of kds d) i = 0" using assms by (auto simp: unreserved_def cu_mgmt_of_def)
  moreover have "refs_of (cls c) d i = 0" if "c \<in> set C" for c
    using assms that by (auto simp: unreserved_def list_all_iff refs_of_def kds_client_domain_refcnt_def)
  then have "holders C cls d i = []" by (simp add: holders_def filter_empty_conv)
  ultimately show ?thesis by (simp add: reserved_ok_def)
qed

lemma set_holders: "set (holders C cls d i) = {c \<in> set C. refs_of (cls c) d i \<noteq> 0}"
  by (simp add: holders_def)


definition demo_client :: kds_client where
  "demo_client = \<lparr>cl_ctx = None, cl_ctx_list = [],
     hw_ctx_list = [\<lparr>hw_ctx_idx = 0, hw_slot_idx = 0, hw_cu_ctx_list = [], hw_graph_ctx_list = [], hw_stats = zero_stats\<rparr>],
     next_hw_ctx_id = 1, cl_refcnt = Some \<lparr>cl_cu_refs = (\<lambda>_. 0), cl_scu_refs = (\<lambda>_. 0)\<rparr>\<rparr>"

definition demo_mgmt :: "nat option \<Rightarrow> kds_cu_mgmt" where
  "demo_mgmt p = \<lparr>m_xcus = (\<lambda>i. if i = 0 then p else None), m_num_cus = (if p = None then 0 else 1), m_num_cdma = 0,
     m_cu_intr = (\<lambda>_. 0), m_cu_refs = (\<lambda>_. 0), m_usage = (\<lambda>_. 0), m_rw_shared = False\<rparr>"

definition demo_sched :: "'c xrt_cu \<Rightarrow> 'c kds_sched" where
  "demo_sched x = \<lparr>k_clients = [0, 1], k_num_client = 2, k_bad_state = False, k_cu_mgmt = demo_mgmt (Some 0),
     k_scu_mgmt = demo_mgmt None, k_ert_log = [], k_xgq_enable = False, k_ert_disable = True,
     k_ini_disable = False, k_cu_intr_cap = 0, k_cu_intr = 0, k_force_polling = False,
     k_timestamp_set = False, k_alive_cus = [0], k_polling_start = False, k_polling_stop = False,
     k_polling_thread = False, k_ert = False,
     k_cmdmem = \<lparr>cm_bo = False, cm_bar_paddr = 0, cm_dev_paddr = 0, cm_vaddr = (\<lambda>_. 0), cm_size = 0\<rparr>,
     k_cus = (\<lambda>_. x)\<rparr>"

definition demo_ctx :: "u32 \<Rightarrow> kds_client_cu_ctx" where
  "demo_ctx flags = \<lparr>cc_cu_idx = 0, cc_cu_domain = DOMAIN_PL, cc_flags = flags, cc_ref_cnt = 0, cc_hw_ctx = Some 0\<rparr>"

lemmas demo_defs = demo_client_def demo_mgmt_def demo_sched_def demo_ctx_def

lemmas ctx_defs = kds_add_context_def kds_add_cu_context_def kds_test_and_refcnt_incr_def
  kds_test_and_refcnt_decr_def kds_client_domain_refcnt_def set_domain_refcnt_def cu_mgmt_of_def set_cu_mgmt_def

lemma demo_unreserved: "unreserved (demo_sched x) (\<lambda>_. demo_client) [0, 1]"
  by (simp add: unreserved_def demo_defs)

lemma demo_refs: "refs_of demo_client d i = 0"
  by (simp add: refs_of_def demo_defs kds_client_domain_refcnt_def)

text \<open>The scheduler and the client after client 0 has taken the CU for itself.\<close>

definition demo_taken :: "'c xrt_cu \<Rightarrow> 'c kds_sched" where
  "demo_taken x = (demo_sched x)\<lparr>k_cu_mgmt := (demo_mgmt (Some 0))\<lparr>m_cu_refs := (\<lambda>_. 0)(0 := CU_EXCLU_MASK)\<rparr>\<rparr>"

definition demo_holder :: kds_client where
  "demo_holder = demo_client\<lparr>cl_refcnt := Some \<lparr>cl_cu_refs = (\<lambda>_. 0)(0 := 1), cl_scu_refs = (\<lambda>_. 0)\<rparr>\<rparr>"

lemma demo_add:
  "kds_add_context (demo_sched x) demo_client (demo_ctx CU_CTX_EXCLUSIVE) =
     Some (0, demo_taken x, demo_holder, (demo_ctx CU_CTX_EXCLUSIVE)\<lparr>cc_ref_cnt := 1\<rparr>)"
  by (simp add: ctx_defs demo_defs demo_taken_def demo_holder_def)

definition demo_cu :: "cu_protocol \<Rightarrow> unit xrt_cu" where
  "demo_cu pr = xrt_cu_zalloc \<lparr>ci_model = XCU_HLS, ci_slot_idx = 0, ci_cu_idx = 0, ci_inst_idx = 0, ci_addr = 0x1000,
     ci_size = 0x1000, ci_protocol = pr, ci_intr_id = 0, ci_intr_enable = False, ci_sw_reset = False,
     ci_args = [], ci_iname = ''krnl_1'', ci_kname = ''krnl''\<rparr> ()"

lemma demo_reach: "ctx_reach [0, 1] (demo_sched x, \<lambda>_. demo_client) (demo_taken x, (\<lambda>_. demo_client)(0 := demo_holder))"
  by (rule ctx_reach.add [OF ctx_reach.start _ _ _ _ demo_add])
     (simp_all add: demo_ctx_def demo_refs, simp add: demo_client_def)

lemma demo_taken_refs: "m_cu_refs (cu_mgmt_of (demo_taken x) DOMAIN_PL) 0 = CU_EXCLU_MASK"
  by (simp add: demo_taken_def cu_mgmt_of_def)


text \<open>
  C11. While a client has a CU for itself, no client opens the CU, not even shared: the call fails
  and neither the scheduler nor the context changes.
\<close>

theorem exclusive_blocks:
  assumes "m_xcus (cu_mgmt_of kds (cc_cu_domain ctx)) (unat (cc_cu_idx ctx)) \<noteq> None" and "unat (cc_cu_idx ctx) < MAX_CUS"
    and "m_cu_refs (cu_mgmt_of kds (cc_cu_domain ctx)) (unat (cc_cu_idx ctx)) AND CU_EXCLU_MASK \<noteq> 0"
    and "cc_cu_domain ctx = DOMAIN_PL \<or> cc_cu_domain ctx = DOMAIN_PS" and "cl_refcnt client \<noteq> None"
    and "refs_of client (cc_cu_domain ctx) (unat (cc_cu_idx ctx)) < 2 ^ 31 - 1"
  shows "\<exists>client'. kds_add_context kds client ctx = Some (- 22, kds, client', ctx) \<and>
    (\<forall>d i. refs_of client' d i = refs_of client d i)"
proof -
  define D k where "D = cc_cu_domain ctx" and "k = unat (cc_cu_idx ctx)"
  obtain refs where refs: "kds_client_domain_refcnt client D = Some refs"
    using refcnt_domain [OF assms(5,4)] unfolding D_def by blast
  obtain cl1 where incr: "kds_test_and_refcnt_incr client D k = (int (refs_of client D k), cl1)"
    and incr1: "refs_of cl1 D k = Suc (refs_of client D k)"
    and incr2: "\<And>d' j. (d', j) \<noteq> (D, k) \<Longrightarrow> refs_of cl1 d' j = refs_of client d' j"
    and incr3: "kds_client_domain_refcnt cl1 D = Some (refs(k := refs k + 1))"
    using refcnt_incr [OF refs, of k] assms(6) unfolding D_def k_def by blast
  have lim: "refs_of cl1 D k < 2 ^ 31" using incr1 assms(6) unfolding D_def k_def by simp
  obtain cl2 where decr: "kds_test_and_refcnt_decr cl1 D k = (int (refs_of cl1 D k), cl2)"
    and decr1: "refs_of cl2 D k = refs_of cl1 D k - 1"
    and decr2: "\<And>d' j. (d', j) \<noteq> (D, k) \<Longrightarrow> refs_of cl2 d' j = refs_of cl1 d' j"
    using refcnt_decr [OF incr3 lim] by blast
  have "kds_add_cu_context kds client ctx = (- 16, kds, cl2)"
    using assms(1-3) incr decr unfolding D_def k_def by (auto simp: kds_add_cu_context_def Let_def)
  moreover have "refs_of cl2 d' j = refs_of client d' j" for d' j
    using incr1 incr2 decr1 decr2 by (cases "(d', j) = (D, k)") auto
  ultimately show ?thesis using assms(4) by (auto simp: kds_add_context_def Let_def)
qed

text \<open>Witness of C11.\<close>

theorem exclusive_blocks_witness:
  "\<exists>client'. kds_add_context (demo_taken (demo_cu CTRL_HS)) demo_client (demo_ctx 0) =
     Some (- 22, demo_taken (demo_cu CTRL_HS), client', demo_ctx 0) \<and> (\<forall>d i. refs_of client' d i = refs_of demo_client d i)"
  by (rule exclusive_blocks)
     (simp_all add: demo_refs, simp_all add: demo_defs demo_taken_def cu_mgmt_of_def)

section \<open>Choosing a CU\<close>

lemma min_usage_cu_min:
  "min_usage_cu m vs v \<in> set (v # vs) \<and> (\<forall>i\<in>set (v # vs). m_usage m (min_usage_cu m vs v) \<le> m_usage m i)"
  unfolding min_usage_cu_def
proof (induction vs arbitrary: v)
  case Nil
  then show ?case by simp
next
  case (Cons a vs)
  show ?case using Cons [of a] Cons [of v] by (cases "m_usage m a < m_usage m v") (auto dest: order_trans)
qed

text \<open>What it takes for a command to get a CU.\<close>

lemma acquire_cases:
  assumes "acquire_cu_idx gone kds d client xcmd = Some (r, kds', client', xcmd')" and "0 \<le> r"
  obtains v vs p where "filter (\<lambda>i. kds_test_refcnt client d i \<noteq> 0) (map unat (cu_mask_to_cu_idx xcmd)) = v # vs"
    and "r = int (min_usage_cu (cu_mgmt_of kds d) vs v)" and "\<not> gone"
    and "m_xcus (cu_mgmt_of kds d) (nat r) = Some p" and "\<not> is_ucu (k_cus kds p)"
    and "ci_protocol (x_info (k_cus kds p)) \<noteq> CTRL_NONE"
    and "kds' = set_cu_mgmt kds d ((cu_mgmt_of kds d)\<lparr>m_usage := (m_usage (cu_mgmt_of kds d))
                 (nat r := m_usage (cu_mgmt_of kds d) (nat r) + 1)\<rparr>)"
    and "client' = client_stat_upd client (kc_hw_ctx_id xcmd) (add_submitted d (nat r) 1)"
    and "xcmd' = xcmd\<lparr>kc_cu_idx := r\<rparr>"
  using assms unfolding acquire_cu_idx_def Let_def
  by (auto split: if_splits list.splits option.splits)

text \<open>
  C24. A command that gets a CU gets one that its mask names, that its client has open and that no
  user has mapped, and among the CUs that its mask names and its client has open one that has been
  used least. The CU is noted in the command, and the usage of that CU grows by one.
\<close>

theorem acquire_least_used:
  assumes "acquire_cu_idx gone kds d client xcmd = Some (r, kds', client', xcmd')" and "0 \<le> r"
  shows "nat r \<in> unat ` set (cu_mask_to_cu_idx xcmd) \<and> kds_test_refcnt client d (nat r) \<noteq> 0 \<and>
    (\<exists>p. m_xcus (cu_mgmt_of kds d) (nat r) = Some p \<and> \<not> is_ucu (k_cus kds p)) \<and>
    (\<forall>i \<in> unat ` set (cu_mask_to_cu_idx xcmd). kds_test_refcnt client d i \<noteq> 0 \<longrightarrow>
       m_usage (cu_mgmt_of kds d) (nat r) \<le> m_usage (cu_mgmt_of kds d) i) \<and>
    kc_cu_idx xcmd' = r \<and>
    m_usage (cu_mgmt_of kds' d) = (m_usage (cu_mgmt_of kds d))(nat r := m_usage (cu_mgmt_of kds d) (nat r) + 1)"
proof -
  from assms obtain v vs p where f: "filter (\<lambda>i. kds_test_refcnt client d i \<noteq> 0) (map unat (cu_mask_to_cu_idx xcmd)) = v # vs"
    and r: "r = int (min_usage_cu (cu_mgmt_of kds d) vs v)"
    and p: "m_xcus (cu_mgmt_of kds d) (nat r) = Some p" "\<not> is_ucu (k_cus kds p)"
    and k: "kds' = set_cu_mgmt kds d ((cu_mgmt_of kds d)\<lparr>m_usage := (m_usage (cu_mgmt_of kds d))
                 (nat r := m_usage (cu_mgmt_of kds d) (nat r) + 1)\<rparr>)"
    and x: "xcmd' = xcmd\<lparr>kc_cu_idx := r\<rparr>"
    by (rule acquire_cases)
  have s: "set (v # vs) = {i \<in> unat ` set (cu_mask_to_cu_idx xcmd). kds_test_refcnt client d i \<noteq> 0}"
    unfolding f [symmetric] by auto
  note min_usage_cu_min [of "cu_mgmt_of kds d" vs v, unfolded s]
  with r p k x show ?thesis by (simp add: cu_mgmt_of_set)
qed

definition demo_cmd :: kds_command where
  "demo_cmd = (the (kds_alloc_command True True 0 0 0))\<lparr>kc_cu_mask := [1, 0, 0, 0], kc_num_mask := 1\<rparr>"

lemma demo_user_cus: "map unat (cu_mask_to_cu_idx demo_cmd) = [0]"
  unfolding cu_mask_to_cu_idx_def
  by (subst cu_mask_bits) (simp_all add: demo_cmd_def kds_alloc_command_def upt_rec)

lemma demo_acquire:
  "\<exists>k cl. acquire_cu_idx False (demo_sched (demo_cu CTRL_HS)) DOMAIN_PL demo_holder demo_cmd
     = Some (0, k, cl, demo_cmd\<lparr>kc_cu_idx := 0\<rparr>)"
proof -
  have "length (cu_mask_to_cu_idx demo_cmd) = 1" using arg_cong [OF demo_user_cus, of length] by simp
  then show ?thesis
    unfolding acquire_cu_idx_def demo_user_cus
    by (simp add: demo_defs demo_holder_def demo_cu_def xrt_cu_zalloc_def kds_client_domain_refcnt_def kds_test_refcnt_def
        cu_mgmt_of_def min_usage_cu_def)
qed

text \<open>Witness of C24.\<close>

theorem acquire_least_used_witness:
  "\<exists>k cl. acquire_cu_idx False (demo_sched (demo_cu CTRL_HS)) DOMAIN_PL demo_holder demo_cmd
       = Some (0, k, cl, demo_cmd\<lparr>kc_cu_idx := 0\<rparr>) \<and> m_usage (k_cu_mgmt k) 0 = 1"
proof -
  from demo_acquire obtain k cl where run: "acquire_cu_idx False (demo_sched (demo_cu CTRL_HS)) DOMAIN_PL demo_holder
      demo_cmd = Some (0, k, cl, demo_cmd\<lparr>kc_cu_idx := 0\<rparr>)" by blast
  from acquire_least_used [OF run] have "m_usage (k_cu_mgmt k) 0 = 1"
    by (simp add: cu_mgmt_of_def demo_defs)
  with run show ?thesis by blast
qed

text \<open>
  Opening a CU twice through one context and closing the context twice leaks: all four calls
  succeed and the context counts no user, yet the client still has the CU open and the CU still
  counts the client.
\<close>

theorem context_leaks:
  assumes "m_xcus (k_cu_mgmt kds) (unat (cc_cu_idx ctx)) = Some p" and "unat (cc_cu_idx ctx) < MAX_CUS"
    and "cc_cu_domain ctx = DOMAIN_PL" and "cc_flags ctx = 0" and "cc_ref_cnt ctx = 0" and "cc_hw_ctx ctx = Some hw"
    and "unreserved kds cls [c]"
    and "client_stat_read (cls c) hw (\<lambda>st. s_cnt st (unat (cc_cu_idx ctx)))
       = client_stat_read (cls c) hw (\<lambda>st. c_cnt st (unat (cc_cu_idx ctx)))"
  shows "\<exists>k1 c1 x1 k2 c2 x2 k3 c3 x3 k4 c4 x4. kds_add_context kds (cls c) ctx = Some (0, k1, c1, x1) \<and>
    kds_add_context k1 c1 x1 = Some (0, k2, c2, x2) \<and>
    kds_del_context env obs sync bad k2 cid c2 x2 = Some (0, k3, c3, x3) \<and>
    kds_del_context env obs sync bad k3 cid c3 x3 = Some (0, k4, c4, x4) \<and> cc_ref_cnt x4 = 0 \<and>
    refs_of c4 DOMAIN_PL (unat (cc_cu_idx ctx)) = 1 \<and> m_cu_refs (k_cu_mgmt k4) (unat (cc_cu_idx ctx)) = 1"
  using assms
  by (simp add: ctx_defs kds_del_context_def kds_del_cu_context_def unreserved_def refs_of_def client_stat_read_def
      submitted_on_def completed_on_def Let_def)

text \<open>An instance.\<close>

theorem context_leaks_witness:
  "\<exists>k1 c1 x1 k2 c2 x2 k3 c3 x3 k4 c4 x4. kds_add_context (demo_sched (demo_cu CTRL_HS)) demo_client (demo_ctx 0) = Some (0, k1, c1, x1) \<and>
    kds_add_context k1 c1 x1 = Some (0, k2, c2, x2) \<and>
    kds_del_context id (\<lambda>_. (0, 0)) False False k2 0 c2 x2 = Some (0, k3, c3, x3) \<and>
    kds_del_context id (\<lambda>_. (0, 0)) False False k3 0 c3 x3 = Some (0, k4, c4, x4) \<and> cc_ref_cnt x4 = 0 \<and>
    refs_of c4 DOMAIN_PL 0 = 1 \<and> m_cu_refs (k_cu_mgmt k4) 0 = 1"
  using context_leaks [of "demo_sched (demo_cu CTRL_HS)" "demo_ctx 0" 0 0 "\<lambda>_. demo_client" 0 id "\<lambda>_. (0, 0)" False False 0]
  by (simp add: demo_defs unreserved_def client_stat_read_def zero_stats_def)

section \<open>The table of CUs\<close>

definition cu_table_ok :: "kds_cu_mgmt \<Rightarrow> bool" where
  "cu_table_ok m \<longleftrightarrow> m_num_cus m = int (card {i. i < MAX_CUS \<and> m_xcus m i \<noteq> None})"

lemma find_upt_None: "find P [0..<n] = None \<longleftrightarrow> (\<forall>i<n. \<not> P i)"
  by (simp add: find_None_iff)

lemma find_upt_Some: "find P [0..<n] = Some i \<longleftrightarrow> i < n \<and> P i \<and> (\<forall>j<i. \<not> P j)"
  by (auto simp: find_Some_iff)

lemma card_slot_filled:
  fixes i n :: nat
  assumes "i < n" and "m i = None"
  shows "card {j. j < n \<and> (m(i := Some x)) j \<noteq> None} = Suc (card {j. j < n \<and> m j \<noteq> None})"
proof -
  let ?S = "{j. j < n \<and> m j \<noteq> None}"
  have "{j. j < n \<and> (m(i := Some x)) j \<noteq> None} = insert i ?S" using assms by auto
  moreover have "finite ?S" and "i \<notin> ?S" using assms(2) by simp_all
  ultimately show ?thesis by (simp only: card_insert_disjoint simp_thms)
qed

lemma free_slot:
  assumes "cu_table_ok m" and "m_num_cus m < int MAX_CUS"
  obtains i where "find (\<lambda>i. m_xcus m i = None) [0..<MAX_CUS] = Some i"
proof (cases "find (\<lambda>i. m_xcus m i = None) [0..<MAX_CUS]")
  case None
  then have "{i. i < MAX_CUS \<and> m_xcus m i \<noteq> None} = {..<MAX_CUS}" by (auto simp only: find_upt_None)
  then have "m_num_cus m = int MAX_CUS" using assms(1) by (simp add: cu_table_ok_def)
  then show ?thesis using assms(2) by simp
qed (use that in blast)

lemma cu_mgmt_of_alive: "cu_mgmt_of (kds\<lparr>k_alive_cus := l\<rparr>) d = cu_mgmt_of kds d"
  by (simp add: cu_mgmt_of_def)

text \<open>
  As long as the table of a domain has less than 128 CUs, a new CU gets the first free slot,
  no other slot changes, and the count of CUs stays the number of slots in use.
\<close>

theorem cu_add_first_free:
  assumes "cu_table_ok (cu_mgmt_of kds d)" and "m_num_cus (cu_mgmt_of kds d) < int MAX_CUS"
  shows "\<exists>i kds'. kds_add_cu_domain kds d xcu = (0, kds') \<and> i < MAX_CUS \<and>
    m_xcus (cu_mgmt_of kds d) i = None \<and> (\<forall>j<i. m_xcus (cu_mgmt_of kds d) j \<noteq> None) \<and>
    m_xcus (cu_mgmt_of kds' d) = (m_xcus (cu_mgmt_of kds d))(i := Some xcu) \<and>
    m_num_cus (cu_mgmt_of kds' d) = m_num_cus (cu_mgmt_of kds d) + 1 \<and>
    k_alive_cus kds' = k_alive_cus kds @ [xcu] \<and> cu_table_ok (cu_mgmt_of kds' d)"
proof -
  obtain i where f: "find (\<lambda>i. m_xcus (cu_mgmt_of kds d) i = None) [0..<MAX_CUS] = Some i"
    using free_slot [OF assms] .
  then have i: "i < MAX_CUS" "m_xcus (cu_mgmt_of kds d) i = None" "\<forall>j<i. m_xcus (cu_mgmt_of kds d) j \<noteq> None"
    unfolding find_upt_Some by simp_all
  let ?kds = "snd (kds_add_cu_domain kds d xcu)"
  have run: "kds_add_cu_domain kds d xcu = (0, ?kds)"
    and x: "m_xcus (cu_mgmt_of ?kds d) = (m_xcus (cu_mgmt_of kds d))(i := Some xcu)"
    and n: "m_num_cus (cu_mgmt_of ?kds d) = m_num_cus (cu_mgmt_of kds d) + 1"
    and a: "k_alive_cus ?kds = k_alive_cus kds @ [xcu]"
    using assms(2) by (simp_all add: kds_add_cu_domain_def f cu_mgmt_of_alive cu_mgmt_of_set insert_cu_def Let_def)
  have "cu_table_ok (cu_mgmt_of ?kds d)"
    unfolding cu_table_ok_def x n card_slot_filled [where m = "m_xcus (cu_mgmt_of kds d)", OF i(1,2)]
    using assms(1) by (simp add: cu_table_ok_def)
  with run x n a i show ?thesis by blast
qed

lemma demo_table: "cu_table_ok (demo_mgmt (Some 0))"
proof -
  have "{i. i < MAX_CUS \<and> (if i = 0 then Some 0 else None :: nat option) \<noteq> None} = {0}" by auto
  then show ?thesis by (simp add: cu_table_ok_def demo_mgmt_def)
qed

lemma demo_sched_mgmt: "cu_mgmt_of (demo_sched x) DOMAIN_PL = demo_mgmt (Some 0)"
  by (simp add: cu_mgmt_of_def demo_sched_def)

text \<open>An instance.\<close>

theorem cu_add_first_free_witness:
  "\<exists>kds'. kds_add_cu_domain (demo_sched (demo_cu CTRL_HS)) DOMAIN_PL 7 = (0, kds') \<and>
     m_num_cus (cu_mgmt_of kds' DOMAIN_PL) = 2 \<and> cu_table_ok (cu_mgmt_of kds' DOMAIN_PL)"
proof -
  have "m_num_cus (demo_mgmt (Some 0)) = 1" by (simp add: demo_mgmt_def)
  then show ?thesis
    using cu_add_first_free [of "demo_sched (demo_cu CTRL_HS)" DOMAIN_PL 7] demo_table
    unfolding demo_sched_mgmt by auto
qed

text \<open>
  Removing a CU that was just added restores the table, the counts of CUs and of
  memory-to-memory CUs and the list of live CUs.
\<close>

theorem cu_add_del_round_trip:
  assumes "cu_table_ok (cu_mgmt_of kds d)" and "m_num_cus (cu_mgmt_of kds d) < int MAX_CUS"
    and "\<forall>i<MAX_CUS. m_xcus (cu_mgmt_of kds d) i \<noteq> Some xcu" and "xcu \<notin> set (k_alive_cus kds)"
    and "kds_add_cu_domain kds d xcu = (r, kds1)" and "kds_del_cu_domain kds1 d xcu = (r', kds2)"
  shows "r = 0 \<and> r' = 0 \<and> m_xcus (cu_mgmt_of kds2 d) = m_xcus (cu_mgmt_of kds d) \<and>
    m_num_cus (cu_mgmt_of kds2 d) = m_num_cus (cu_mgmt_of kds d) \<and>
    m_num_cdma (cu_mgmt_of kds2 d) = m_num_cdma (cu_mgmt_of kds d) \<and> k_alive_cus kds2 = k_alive_cus kds"
proof -
  define m where "m = cu_mgmt_of kds d"
  obtain i where f: "find (\<lambda>i. m_xcus m i = None) [0..<MAX_CUS] = Some i"
    using free_slot [OF assms(1,2)] unfolding m_def .
  then have i: "i < MAX_CUS" "m_xcus m i = None" unfolding find_upt_Some by simp_all
  define m1 where "m1 = (insert_cu kds m i xcu)\<lparr>m_num_cus := m_num_cus (insert_cu kds m i xcu) + 1\<rparr>"
  have r: "r = 0" and k1: "kds1 = (set_cu_mgmt kds d m1)\<lparr>k_alive_cus := k_alive_cus kds @ [xcu]\<rparr>"
    using assms(2,5) by (simp_all add: kds_add_cu_domain_def m1_def f Let_def flip: m_def)
  have m1: "cu_mgmt_of kds1 d = m1" by (simp add: k1 cu_mgmt_of_alive cu_mgmt_of_set)
  have cus: "k_cus kds1 = k_cus kds" by (simp add: k1 set_cu_mgmt_def)
  have x: "m_xcus m1 = (m_xcus m)(i := Some xcu)" and n: "m_num_cus m1 = m_num_cus m + 1"
    and c: "m_num_cdma m1 = (if ci_intr_id (x_info (k_cus kds xcu)) = M2M_CU_ID then m_num_cdma m + 1 else m_num_cdma m)"
    by (simp_all add: m1_def insert_cu_def)
  have "find (\<lambda>i. m_xcus m1 i = Some xcu) [0..<MAX_CUS] = Some i"
    unfolding find_upt_Some x using i(1) assms(3) by (simp flip: m_def)
  moreover have "0 \<le> m_num_cus m" using assms(1) by (simp add: cu_table_ok_def flip: m_def)
  moreover have "(m_xcus m)(i := None) = m_xcus m" using i(2) by (simp add: fun_upd_idem)
  moreover have "remove1 xcu (k_alive_cus kds @ [xcu]) = k_alive_cus kds" using assms(4) by (simp add: remove1_append)
  moreover have "k_alive_cus (set_cu_mgmt k d mm) = k_alive_cus k" for k :: "'a kds_sched" and mm
    by (simp add: set_cu_mgmt_def)
  ultimately show ?thesis
    using assms(6) r unfolding kds_del_cu_domain_def m1 cus m_def [symmetric]
    by (auto simp: x n c Let_def cu_mgmt_of_alive cu_mgmt_of_set k1)
qed

text \<open>An instance.\<close>

theorem cu_add_del_round_trip_witness:
  "m_xcus (cu_mgmt_of (snd (kds_del_cu_domain (snd (kds_add_cu_domain (demo_sched (demo_cu CTRL_HS)) DOMAIN_PL 7)) DOMAIN_PL 7)) DOMAIN_PL)
     = m_xcus (demo_mgmt (Some 0))"
proof -
  have "m_num_cus (demo_mgmt (Some 0)) = 1" and "\<forall>i. m_xcus (demo_mgmt (Some 0)) i \<noteq> Some 7"
    by (simp_all add: demo_mgmt_def)
  moreover have "7 \<notin> set (k_alive_cus (demo_sched (demo_cu CTRL_HS)))" by (simp add: demo_sched_def)
  ultimately show ?thesis
    using cu_add_del_round_trip [of "demo_sched (demo_cu CTRL_HS)" DOMAIN_PL 7, OF _ _ _ _ prod.collapse [symmetric] prod.collapse [symmetric]]
      demo_table unfolding demo_sched_mgmt by simp
qed

text \<open>
  \<open>kds_set_cu_read_range\<close> accepts, for a CU of any size, the range of the last 16 bytes below
  \<open>2 ^ 32\<close>: the sum of its start and size is computed in 32 bits and is 0.
\<close>

theorem read_range_wraps:
  assumes "unat cu_idx < MAX_CUS" and "m_xcus (k_cu_mgmt kds) (unat cu_idx) = Some p"
    and "m_cu_refs (k_cu_mgmt kds) (unat cu_idx) AND CU_EXCLU_MASK = 0"
  shows "\<exists>kds'. kds_set_cu_read_range kds cu_idx 0xFFFFFFF0 16 = Some (0, kds') \<and>
    xcr_start (k_cus kds' p) = 0xFFFFFFF0 \<and> xcr_end (k_cus kds' p) = 0xFFFFFFFF \<and>
    ci_size (x_info (k_cus kds' p)) = ci_size (x_info (k_cus kds p))"
proof -
  have "(0xFFFFFFF0 :: u32) + 16 = 0" and "(16 :: u32) mod 4 = 0" by (simp_all add: unsigned_eq_0_iff)
  then show ?thesis
    using assms by (simp add: kds_set_cu_read_range_def upd_cu_def Let_def word_less_nat_alt word_le_nat_alt)
qed

text \<open>An instance.\<close>

theorem read_range_wraps_witness:
  "\<exists>kds'. kds_set_cu_read_range (demo_sched (demo_cu CTRL_HS)) 0 0xFFFFFFF0 16 = Some (0, kds') \<and>
    xcr_start (k_cus kds' 0) = 0xFFFFFFF0 \<and> xcr_end (k_cus kds' 0) = 0xFFFFFFFF"
  using read_range_wraps [of 0 "demo_sched (demo_cu CTRL_HS)" 0] by (auto simp: demo_defs)

text \<open>
  A virtual context on a card with a memory-to-memory CU cannot be closed: after one successful
  opening the closing fails, because it gives the reference to that CU back twice, and the CU stays
  counted as open.
\<close>

theorem virt_close_fails:
  assumes "m_num_cdma (k_cu_mgmt kds) \<noteq> 0" and "cdma_idx kds = Some i" and "cc_cu_domain ctx = DOMAIN_VIRT"
    and "cc_flags ctx = 0" and "cc_ref_cnt ctx = 0" and "unreserved kds cls [c]"
  shows "\<exists>k1 c1 x1 c2 x2. kds_add_context kds (cls c) ctx = Some (0, k1, c1, x1) \<and>
    kds_del_context env obs sync bad k1 cid c1 x1 = Some (- 22, k1, c2, x2) \<and>
    m_cu_refs (k_cu_mgmt k1) i = 1"
proof -
  have "cdma_idx (kds\<lparr>k_cu_mgmt := (k_cu_mgmt kds)\<lparr>m_cu_refs := f\<rparr>\<rparr>) = Some i" for f
    using assms(2) by (simp add: cdma_idx_def)
  then show ?thesis
    using assms by (simp add: ctx_defs kds_del_context_def unreserved_def Let_def)
qed

text \<open>An instance.\<close>

theorem virt_close_fails_witness:
  "\<exists>k1 c1 x1 c2 x2. kds_add_context ((demo_sched (demo_cu CTRL_HS))\<lparr>k_cu_mgmt := (demo_mgmt (Some 0))\<lparr>m_num_cdma := 1\<rparr>\<rparr>)
      demo_client ((demo_ctx 0)\<lparr>cc_cu_domain := DOMAIN_VIRT\<rparr>) = Some (0, k1, c1, x1) \<and>
    kds_del_context id (\<lambda>_. (0, 0)) False False k1 0 c1 x1 = Some (- 22, k1, c2, x2) \<and>
    m_cu_refs (k_cu_mgmt k1) 0 = 1"
  using virt_close_fails [of "(demo_sched (demo_cu CTRL_HS))\<lparr>k_cu_mgmt := (demo_mgmt (Some 0))\<lparr>m_num_cdma := 1\<rparr>\<rparr>"
      0 "(demo_ctx 0)\<lparr>cc_cu_domain := DOMAIN_VIRT\<rparr>" "\<lambda>_. demo_client" 0 id "\<lambda>_. (0, 0)" False False 0]
  by (simp add: demo_defs unreserved_def cdma_idx_def)

end
