(* ===== verification/Cu_Contract.thy ===== *)
theory Cu_Contract
  imports Xrt_Cu
begin

text \<open>
  The contract between a compute unit (\<open>xrt_cu.c\<close>) and the core that drives its hardware
  (\<open>struct xcu_funcs\<close>), as the locale \<open>xcu_core\<close>: what each function of the table does to the
  lists of submitted and completed commands of the core. The lemmas in the locale are about
  \<open>xrt_cu.c\<close> over any core that keeps the contract: no command is lost or duplicated, the
  counters are the lengths of the queues, commands complete in the order of their submission as
  long as no abort is asked for, and the loops end.
\<close>

section \<open>Order and counters\<close>

definition frozen :: "kds_command \<Rightarrow> kds_command" where
  "frozen k = k\<lparr>kc_status := KDS_NEW, kc_timestamp := (\<lambda>_. 0)\<rparr>"

definition heap_frame :: "cmd_heap \<Rightarrow> cmd_heap \<Rightarrow> bool" where
  "heap_frame h h' = (\<forall>t. frozen (h' t) = frozen (h t))"

text \<open>
  The commands of a compute unit in the order in which they are to reach the host: those of which
  the host has been told, and from the completed queue back to the pending queue. \<open>sub\<close> and
  \<open>com\<close> are the lists of submitted and of completed commands in the core.
\<close>

definition cu_order ::
  "('c \<Rightarrow> nat list) \<Rightarrow> ('c \<Rightarrow> nat list) \<Rightarrow> 'c xrt_cu \<Rightarrow> kenv \<Rightarrow> nat list" where
  "cu_order sub com x e =
     map fst (e_notified e) @ x_cq x @ com (x_core x) @ sub (x_core x) @ x_rq x @ x_pq x"

definition cu_counts :: "('c \<Rightarrow> nat list) \<Rightarrow> ('c \<Rightarrow> nat list) \<Rightarrow> 'c xrt_cu \<Rightarrow> bool" where
  "cu_counts sub com x =
     (num_pq x = of_nat (length (x_pq x)) \<and> num_hpq x = of_nat (length (x_hpq x)) \<and>
      num_rq x = of_nat (length (x_rq x)) \<and> num_cq x = of_nat (length (x_cq x)) \<and>
      num_sq x = of_nat (length (sub (x_core x)) + length (com (x_core x))))"

text \<open>Every queued command can be given to the core, and every abort command names a handle.\<close>

definition cu_cmds_ok :: "(kds_command \<Rightarrow> bool) \<Rightarrow> 'c xrt_cu \<Rightarrow> kenv \<Rightarrow> bool" where
  "cu_cmds_ok ok x e =
     (list_all (\<lambda>t. ok (e_heap e t)) (x_rq x @ x_pq x) \<and>
      list_all (\<lambda>t. kc_info (e_heap e t) \<noteq> []) (x_hpq x))"

text \<open>
  What a piece of the compute unit's work may change: no command is lost or duplicated, none
  overtakes another unless an abort is pending, and every command of which the host is told is
  freed.
\<close>

definition cu_keeps ::
  "('c \<Rightarrow> nat list) \<Rightarrow> ('c \<Rightarrow> nat list) \<Rightarrow> 'c xrt_cu \<times> kenv \<Rightarrow> 'c xrt_cu \<times> kenv \<Rightarrow> bool" where
  "cu_keeps sub com s s' =
     (let (x, e) = s; (x', e') = s' in
      mset (cu_order sub com x' e') = mset (cu_order sub com x e) \<and>
      (x_events x = [] \<and> x_hpq x = [] \<longrightarrow> cu_order sub com x' e' = cu_order sub com x e) \<and>
      x_events x' = x_events x \<and> set (x_hpq x') \<subseteq> set (x_hpq x) \<and>
      set (x_rq x' @ x_pq x') \<subseteq> set (x_rq x @ x_pq x) \<and>
      heap_frame (e_heap e) (e_heap e') \<and>
      (\<exists>l. e_notified e' = e_notified e @ l \<and> e_freed e' = e_freed e @ map fst l) \<and>
      (cu_counts sub com x \<longrightarrow> cu_counts sub com x'))"

lemma heap_frame_refl [simp]: "heap_frame h h"
  by (simp add: heap_frame_def)

lemma heap_frame_trans: "heap_frame h h1 \<Longrightarrow> heap_frame h1 h2 \<Longrightarrow> heap_frame h h2"
  by (simp add: heap_frame_def)

lemma frozen_info: "frozen k = frozen k' \<Longrightarrow> kc_info k = kc_info k'"
  by (cases k; cases k') (simp add: frozen_def)

lemma frozen_payload:
  "frozen k = frozen k' \<Longrightarrow> kc_info k = kc_info k' \<and> kc_isize k = kc_isize k'
     \<and> kc_payload_type k = kc_payload_type k'"
  by (cases k; cases k') (simp add: frozen_def)

lemma frozen_set_status [simp]: "frozen (k\<lparr>kc_status := s\<rparr>) = frozen k"
  by (simp add: frozen_def)

lemma frozen_set_timestamp [simp]: "frozen (k\<lparr>kc_timestamp := s\<rparr>) = frozen k"
  by (simp add: frozen_def)

lemma cu_keeps_refl: "cu_keeps sub com s s"
  by (simp add: cu_keeps_def split: prod.splits)

lemma cu_keeps_trans:
  assumes "cu_keeps sub com s1 s2" and "cu_keeps sub com s2 s3"
  shows "cu_keeps sub com s1 s3"
proof -
  obtain x1 e1 x2 e2 x3 e3 where s: "s1 = (x1, e1)" "s2 = (x2, e2)" "s3 = (x3, e3)"
    by (metis prod.exhaust)
  note k = assms [unfolded cu_keeps_def s Let_def prod.case]
  note m = k [THEN conjunct1] and k2 = k [THEN conjunct2]
  note o = k2 [THEN conjunct1] and k3 = k2 [THEN conjunct2]
  note ev = k3 [THEN conjunct1] and k4 = k3 [THEN conjunct2]
  note hp = k4 [THEN conjunct1] and k5 = k4 [THEN conjunct2]
  note qs = k5 [THEN conjunct1] and k6 = k5 [THEN conjunct2]
  note hf = k6 [THEN conjunct1] and k7 = k6 [THEN conjunct2]
  note nf = k7 [THEN conjunct1] and cs = k7 [THEN conjunct2]
  have ord: "cu_order sub com x3 e3 = cu_order sub com x1 e1" if i: "x_events x1 = [] \<and> x_hpq x1 = []"
  proof -
    have "x_events x2 = [] \<and> x_hpq x2 = []" using i ev(1) hp(1) by simp
    then show ?thesis using o(1) o(2) i by (simp only: simp_thms)
  qed
  have told: "\<exists>l. e_notified e3 = e_notified e1 @ l \<and> e_freed e3 = e_freed e1 @ map fst l"
    using nf(1) nf(2) by (metis append.assoc map_append)
  show ?thesis
    unfolding cu_keeps_def s Let_def prod.case
    using trans [OF m(2) m(1)] ord trans [OF ev(2) ev(1)] subset_trans [OF hp(2) hp(1)] subset_trans [OF qs(2) qs(1)]
      heap_frame_trans [OF hf(1) hf(2)] told cs
    by (intro conjI impI) (assumption | iprover)+
qed

lemma cu_cmds_ok_keeps:
  assumes "cu_keeps sub com (x, e) (x', e')" and "cu_cmds_ok ok x e"
    and "\<And>k k'. frozen k = frozen k' \<Longrightarrow> ok k = ok k'"
  shows "cu_cmds_ok ok x' e'"
proof -
  have fr: "frozen (e_heap e' t) = frozen (e_heap e t)" for t
    using assms(1) by (simp add: cu_keeps_def heap_frame_def)
  have sub: "set (x_rq x' @ x_pq x') \<subseteq> set (x_rq x @ x_pq x)" "set (x_hpq x') \<subseteq> set (x_hpq x)"
    using assms(1) by (simp_all add: cu_keeps_def)
  show ?thesis
    using assms(2) sub unfolding cu_cmds_ok_def list_all_iff frozen_info [OF fr] assms(3) [OF fr]
    by blast
qed

text \<open>The functions that touch neither queues nor core.\<close>

definition same_queues :: "'c xrt_cu \<times> kenv \<Rightarrow> 'c xrt_cu \<times> kenv \<Rightarrow> bool" where
  "same_queues s s' =
     (let (x, e) = s; (x', e') = s' in
      x_pq x' = x_pq x \<and> num_pq x' = num_pq x \<and> x_hpq x' = x_hpq x \<and> num_hpq x' = num_hpq x \<and>
      x_rq x' = x_rq x \<and> num_rq x' = num_rq x \<and> num_sq x' = num_sq x \<and> x_cq x' = x_cq x \<and>
      num_cq x' = num_cq x \<and> x_core x' = x_core x \<and> x_events x' = x_events x \<and>
      e_notified e' = e_notified e \<and> e_freed e' = e_freed e \<and> heap_frame (e_heap e) (e_heap e'))"

lemma cu_keeps_same_queues: "same_queues s s' \<Longrightarrow> cu_keeps sub com s s'"
  by (cases s; cases s') (simp add: same_queues_def cu_keeps_def cu_order_def cu_counts_def)

lemma same_queues_produce: "same_queues (x, e) (xrt_cu_circ_produce x e stage c)"
  by (simp add: same_queues_def xrt_cu_circ_produce_def Let_def split: prod.splits)

lemma same_queues_idle_start: "same_queues (x, e) (xrt_cu_idle_start x e)"
  by (simp add: same_queues_def xrt_cu_idle_start_def Let_def split: prod.splits)

lemma same_queues_idle_end: "same_queues (x, e) (xrt_cu_idle_end x e)"
  by (simp add: same_queues_def xrt_cu_idle_end_def Let_def split: prod.splits)

lemma same_queues_timestamp: "same_queues (x, e) (x, env_timestamp e t s)"
  by (simp add: same_queues_def env_timestamp_def set_xcmd_timestamp_def heap_frame_def Let_def
      split: prod.splits)

lemma heap_frame_set_status: "heap_frame h h' \<Longrightarrow> heap_frame h (set_cmd_status h' t s)"
  by (simp add: heap_frame_def set_cmd_status_def)

lemma heap_frame_fold_status:
  "heap_frame h h' \<Longrightarrow> heap_frame h (fold (\<lambda>t h. set_cmd_status h t s) ts h')"
  by (induction ts arbitrary: h') (simp_all add: heap_frame_set_status)


section \<open>Runs of a compute unit\<close>

definition kenv_start :: "cmd_heap \<Rightarrow> clock \<Rightarrow> kenv" where
  "kenv_start h clk = \<lparr>e_heap = h, e_clock = clk, e_notified = [], e_freed = []\<rparr>"

text \<open>A compute unit and a command for the examples.\<close>

definition example_info :: xrt_cu_info where
  "example_info = \<lparr>ci_model = XCU_HLS, ci_slot_idx = 0, ci_cu_idx = 0, ci_inst_idx = 0, ci_addr = 0x1000,
     ci_size = 0x1000, ci_protocol = CTRL_HS, ci_intr_id = 0, ci_intr_enable = False, ci_sw_reset = True,
     ci_args = [], ci_iname = ''krnl_1'', ci_kname = ''krnl''\<rparr>"

definition example_cmd :: kds_command where
  "example_cmd = (the (kds_alloc_command True True 7 0 16))\<lparr>kc_opcode := OP_START, kc_info := [1, 2, 3, 4]\<rparr>"

text \<open>A compute unit without commands, as its initialisation leaves it.\<close>

definition cu_fresh :: "('c \<Rightarrow> nat list) \<Rightarrow> ('c \<Rightarrow> nat list) \<Rightarrow> 'c xrt_cu \<times> kenv \<Rightarrow> bool" where
  "cu_fresh sub com s =
     (let (x, e) = s in
      cu_order sub com x e = [] \<and> x_hpq x = [] \<and> x_events x = [] \<and> e_freed e = [] \<and>
      cu_counts sub com x)"

text \<open>
  The interrupt handler \<open>cu_isr\<close> of the subdevice \<open>cu.c\<close>.
\<close>

definition cu_isr :: "'c xcu_funcs \<Rightarrow> 'c xrt_cu \<Rightarrow> kenv \<Rightarrow> 'c xrt_cu \<times> kenv" where
  "cu_isr F xcu e =
     (let (x1, e1) = xrt_cu_circ_produce xcu e CU_LOG_STAGE_ISR 0;
          x2 = snd (xrt_cu_clear_intr F x1)
      in (x2\<lparr>x_sem_cu := x_sem_cu x2 + 1\<rparr>, e1))"

text \<open>
  \<open>cu_reach F ok sub com s0 subs calm s\<close>: the compute unit gets from \<open>s0\<close> to \<open>s\<close> when the commands
  \<open>subs\<close> are submitted to it in this order. \<open>calm\<close> holds as long as no abort has been asked for.
  New commands are allocated at addresses that no queue holds; a command that is submitted
  satisfies \<open>ok\<close>. The thread's passes, the polling thread's calls of \<open>xrt_cu_process_queues\<close>,
  interrupts and timers come in any order between the submissions.
\<close>

inductive cu_reach ::
  "'c xcu_funcs \<Rightarrow> (kds_command \<Rightarrow> bool) \<Rightarrow> ('c \<Rightarrow> nat list) \<Rightarrow> ('c \<Rightarrow> nat list) \<Rightarrow>
   'c xrt_cu \<times> kenv \<Rightarrow> nat list \<Rightarrow> bool \<Rightarrow> 'c xrt_cu \<times> kenv \<Rightarrow> bool"
  for F ok sub com s0 where
  start: "cu_reach F ok sub com s0 [] True s0"
| alloc: "cu_reach F ok sub com s0 subs calm (x, e) \<Longrightarrow>
    t \<notin> set (x_pq x @ x_rq x @ sub (x_core x) @ com (x_core x) @ x_cq x @ x_hpq x) \<Longrightarrow>
    cu_reach F ok sub com s0 subs calm (x, e\<lparr>e_heap := (e_heap e)(t := k)\<rparr>)"
| submit: "cu_reach F ok sub com s0 subs calm (x, e) \<Longrightarrow> ok (e_heap e t) \<Longrightarrow>
    cu_reach F ok sub com s0 (subs @ [t]) calm (xrt_cu_submit x t, e)"
| hpq_submit: "cu_reach F ok sub com s0 subs calm (x, e) \<Longrightarrow> kc_info (e_heap e t) \<noteq> [] \<Longrightarrow>
    cu_reach F ok sub com s0 subs False (xrt_cu_hpq_submit x t, e)"
| hpq_wait: "cu_reach F ok sub com s0 subs calm (x, e) \<Longrightarrow> xrt_cu_hpq_wait x = Some x' \<Longrightarrow>
    cu_reach F ok sub com s0 subs calm (x', e)"
| abort: "cu_reach F ok sub com s0 subs calm (x, e) \<Longrightarrow>
    cu_reach F ok sub com s0 subs False (xrt_cu_abort x client, e)"
| abort_done: "cu_reach F ok sub com s0 subs calm (x, e) \<Longrightarrow>
    cu_reach F ok sub com s0 subs calm (snd (xrt_cu_abort_done x client), e)"
| isr: "cu_reach F ok sub com s0 subs calm (x, e) \<Longrightarrow>
    cu_reach F ok sub com s0 subs calm (cu_isr F x e)"
| timer: "cu_reach F ok sub com s0 subs calm (x, e) \<Longrightarrow>
    cu_reach F ok sub com s0 subs calm (cu_timer x, e)"
| stats_timer: "cu_reach F ok sub com s0 subs calm (x, e) \<Longrightarrow>
    cu_reach F ok sub com s0 subs calm (cu_stats_timer x, e)"
| queues: "cu_reach F ok sub com s0 subs calm (x, e) \<Longrightarrow>
    xrt_cu_process_queues F x e = Some (r, x', e') \<Longrightarrow> cu_reach F ok sub com s0 subs calm (x', e')"
| pass: "cu_reach F ok sub com s0 subs calm (x, e) \<Longrightarrow>
    xrt_cu_intr_thread_pass F x e = Some (x', e') \<Longrightarrow> cu_reach F ok sub com s0 subs calm (x', e')"

text \<open>What holds on every run.\<close>

definition cu_run_inv ::
  "(kds_command \<Rightarrow> bool) \<Rightarrow> ('c \<Rightarrow> nat list) \<Rightarrow> ('c \<Rightarrow> nat list) \<Rightarrow>
   nat list \<Rightarrow> bool \<Rightarrow> 'c xrt_cu \<times> kenv \<Rightarrow> bool" where
  "cu_run_inv ok sub com subs calm s =
     (let (x, e) = s in
      cu_counts sub com x \<and> cu_cmds_ok ok x e \<and> mset (cu_order sub com x e) = mset subs \<and>
      e_freed e = map fst (e_notified e) \<and>
      (calm \<longrightarrow> cu_order sub com x e = subs \<and> x_events x = [] \<and> x_hpq x = []))"

section \<open>Registers\<close>

text \<open>
  The hardware of a core is a state of any type with the two operations \<open>ioread32\<close> and
  \<open>iowrite32\<close> on it; a read may change it.
\<close>

record 'h mmio =
  io_read :: "u32 \<Rightarrow> 'h \<Rightarrow> u32 \<times> 'h"
  io_write :: "u32 \<Rightarrow> u32 \<Rightarrow> 'h \<Rightarrow> 'h"

text \<open>The sum of an \<open>int\<close> and a \<open>u32\<close> is unsigned, and is converted back to \<open>int\<close>.\<close>

definition int_plus_u32 :: "int \<Rightarrow> u32 \<Rightarrow> int" where
  "int_plus_u32 i n = sint (word_of_int i + n)"

section \<open>The contract of a core\<close>

locale xcu_core =
  fixes F :: "'c xcu_funcs" and sub com :: "'c \<Rightarrow> nat list" and cmd_ok :: "kds_command \<Rightarrow> bool"
    and submit :: "nat \<Rightarrow> cmd_heap \<Rightarrow> 'c \<Rightarrow> (int \<times> 'c) option"
    and complete :: "'c \<Rightarrow> nat option \<times> 'c"
    and abort' :: "(kds_command \<Rightarrow> bool) \<Rightarrow> cmd_heap \<Rightarrow> 'c \<Rightarrow> int \<times> cmd_heap \<times> 'c"
  assumes submit_config: "submit_config F = Some submit"
    and get_complete: "get_complete F = Some complete"
    and fn_abort: "fn_abort F = Some abort'"
    and credit_same: "sub (snd (alloc_credit F c)) = sub c" "com (snd (alloc_credit F c)) = com c"
      "sub (free_credit F n c) = sub c" "com (free_credit F n c) = com c"
    and start_same: "sub (fn_start F c) = sub c" "com (fn_start F c) = com c"
    and intr_same: "sub (enable_intr F w c) = sub c" "com (enable_intr F w c) = com c"
      "sub (disable_intr F w c) = sub c" "com (disable_intr F w c) = com c"
      "sub (snd (clear_intr F c)) = sub c" "com (snd (clear_intr F c)) = com c"
    and check_moves: "fn_check F force h c = (st, h', c') \<Longrightarrow>
      heap_frame h h' \<and> com c' @ sub c' = com c @ sub c"
    and submit_zero: "submit t h c = Some (0, c') \<Longrightarrow> sub c' = sub c @ [t] \<and> com c' = com c"
    and submit_nonzero: "submit t h c = Some (r, c') \<Longrightarrow> r \<noteq> 0 \<Longrightarrow> sub c' = sub c \<and> com c' = com c"
    and submit_returns: "cmd_ok (h t) \<Longrightarrow> submit t h c \<noteq> None"
    and ok_frozen: "frozen k = frozen k' \<Longrightarrow> cmd_ok k = cmd_ok k'"
    and complete_none: "complete c = (None, c') \<Longrightarrow> com c = [] \<and> com c' = [] \<and> sub c' = sub c"
    and complete_some: "complete c = (Some t, c') \<Longrightarrow> com c = t # com c' \<and> sub c' = sub c"
    and abort_moves: "abort' match h c = (r, h', c') \<Longrightarrow>
      heap_frame h h' \<and> sub c' = filter (\<lambda>t. \<not> match (h t)) (sub c)
      \<and> com c' = com c @ filter (\<lambda>t. match (h t)) (sub c)"
begin

abbreviation keeps where "keeps \<equiv> cu_keeps sub com"
abbreviation counts where "counts \<equiv> cu_counts sub com"
abbreviation ordr where "ordr \<equiv> cu_order sub com"
abbreviation ready where "ready \<equiv> cu_cmds_ok cmd_ok"

lemma ready_keeps: "keeps (x, e) (x', e') \<Longrightarrow> ready x e \<Longrightarrow> ready x' e'"
  using cu_cmds_ok_keeps ok_frozen by blast

lemma core_keeps:
  assumes "sub c = sub (x_core x)" and "com c = com (x_core x)"
  shows "keeps (x, e) (x\<lparr>x_core := c\<rparr>, e)"
  using assms by (simp add: cu_keeps_def cu_order_def cu_counts_def)

lemma process_cq_one_keeps:
  assumes "x_cq x \<noteq> []"
  obtains x' e' where "process_cq_one x e = Some (x', e')" and "keeps (x, e) (x', e')"
    and "x_cq x' = tl (x_cq x)"
proof -
  obtain t ts where cq: "x_cq x = t # ts"
    using assms by (cases "x_cq x") auto
  define st where "st = kc_status (e_heap e t)"
  define e1 where "e1 = env_timestamp e t st"
  obtain x1 e2 where p: "xrt_cu_circ_produce x e1 CU_LOG_STAGE_CQ t = (x1, e2)"
    by (cases "xrt_cu_circ_produce x e1 CU_LOG_STAGE_CQ t")
  have "same_queues (x, e) (x, e1)" "same_queues (x, e1) (x1, e2)"
    unfolding e1_def p [symmetric] by (rule same_queues_timestamp same_queues_produce)+
  then have sq: "same_queues (x, e) (x1, e2)"
    by (auto simp: same_queues_def intro: heap_frame_trans)
  have r: "process_cq_one x e
    = Some ((xrt_cu_incr_ecmd_count (x1\<lparr>bad_state := (st = KDS_SKCRASHED)\<rparr>))
              \<lparr>x_cq := ts, num_cq := num_cq x - 1\<rparr>, free_cmd (notify_host e2 t st) t)"
    by (simp add: process_cq_one_def cq p flip: st_def e1_def)
  show thesis
    by (rule that [OF r])
      (use sq cq in \<open>simp_all add: cu_keeps_def same_queues_def cu_order_def cu_counts_def
          xrt_cu_incr_ecmd_count_def free_cmd_def notify_host_def\<close>)
qed

lemma process_cq_loop_keeps:
  "n \<le> length (x_cq x) \<Longrightarrow>
     \<exists>x' e'. process_cq_loop n x e = Some (x', e') \<and> keeps (x, e) (x', e') \<and> x_cq x' = drop n (x_cq x)"
proof (induction n arbitrary: x e)
  case 0
  then show ?case by (simp add: cu_keeps_refl)
next
  case (Suc n)
  then have "x_cq x \<noteq> []" by auto
  then obtain x1 e1 where 1: "process_cq_one x e = Some (x1, e1)" "keeps (x, e) (x1, e1)"
    "x_cq x1 = tl (x_cq x)"
    by (rule process_cq_one_keeps)
  have "n \<le> length (x_cq x1)" using Suc.prems 1(3) by simp
  from Suc.IH [OF this, of e1] obtain x' e' where
    2: "process_cq_loop n x1 e1 = Some (x', e')" "keeps (x1, e1) (x', e')" "x_cq x' = drop n (x_cq x1)"
    by blast
  have "keeps (x, e) (x', e')" using 1(2) 2(2) by (rule cu_keeps_trans)
  moreover have "x_cq x' = drop (Suc n) (x_cq x)" using 1(3) 2(3) by (simp add: drop_Suc)
  ultimately show ?case using 1(1) 2(1) by simp
qed

lemma process_cq_keeps:
  assumes "counts x"
  obtains x' e' where "process_cq x e = Some (x', e')" and "keeps (x, e) (x', e')"
proof -
  have "unat (num_cq x) \<le> length (x_cq x)"
    using assms by (simp add: cu_counts_def unat_of_nat)
  from process_cq_loop_keeps [OF this, of e] show thesis
    using that unfolding process_cq_def by blast
qed

lemma check_keeps: "keeps (x, e) (xrt_cu_check_gen F force x e)"
proof -
  obtain st h c where r: "fn_check F force (e_heap e) (x_core x) = (st, h, c)"
    by (metis prod.exhaust)
  from check_moves [OF r] have
    h: "heap_frame (e_heap e) h" and m: "com c @ sub c = com (x_core x) @ sub (x_core x)" by auto
  have "com c @ sub c @ z = com (x_core x) @ sub (x_core x) @ z" for z
    using m by (metis append_assoc)
  moreover have "length (sub c) + length (com c) = length (sub (x_core x)) + length (com (x_core x))"
    using m by (metis add.commute length_append)
  moreover have "mset (com c) + mset (sub c) = mset (com (x_core x)) + mset (sub (x_core x))"
    using m by (metis mset_append)
  ultimately show ?thesis
    using h by (simp add: xrt_cu_check_gen_def r cu_keeps_def cu_order_def cu_counts_def flip: of_nat_add)
qed

lemma drain_complete_keeps:
  "\<exists>x' e'. drain_complete F log x e = Some (x', e') \<and> keeps (x, e) (x', e')
     \<and> com (x_core x') = [] \<and> x_hpq x' = x_hpq x"
proof (induction "length (com (x_core x))" arbitrary: x e rule: less_induct)
  case less
  obtain r c where c: "complete (x_core x) = (r, c)"
    by (cases "complete (x_core x)")
  have g: "xrt_cu_get_complete F x = (r, x\<lparr>x_core := c\<rparr>)"
    by (simp add: xrt_cu_get_complete_def get_complete c)
  show ?case
  proof (cases r)
    case None
    from complete_none [OF c [unfolded None]] show ?thesis
      using core_keeps [of c x e] by (subst drain_complete.simps) (simp add: g None)
  next
    case (Some t)
    from complete_some [OF c [unfolded Some]]
    have cs: "com (x_core x) = t # com c" "sub c = sub (x_core x)" by auto
    let ?x = "x\<lparr>x_core := c\<rparr>"
    obtain x1 e1 where
      p: "(if log then xrt_cu_circ_produce ?x e CU_LOG_STAGE_SQ t else (?x, e)) = (x1, e1)"
      by (metis prod.exhaust)
    have sq: "same_queues (?x, e) (x1, e1)"
      using p same_queues_produce [of ?x e CU_LOG_STAGE_SQ t]
      by (auto simp: same_queues_def split: if_splits)
    let ?y = "x1\<lparr>x_cq := x_cq x1 @ [t], num_cq := num_cq x1 + 1, num_sq := num_sq x1 - 1\<rparr>"
    have k: "keeps (x, e) (?y, e1)"
      using sq cs by (simp add: same_queues_def cu_keeps_def cu_order_def cu_counts_def algebra_simps)
    have "length (com (x_core ?y)) < length (com (x_core x))"
      using sq cs by (simp add: same_queues_def)
    from less [OF this, of e1] obtain x' e' where
      "drain_complete F log ?y e1 = Some (x', e')" "keeps (?y, e1) (x', e')" "com (x_core x') = []"
      "x_hpq x' = x_hpq ?y" by blast
    moreover have "drain_complete F log x e = drain_complete F log ?y e1"
      by (subst drain_complete.simps) (simp only: g Some fst_conv snd_conv option.case Let_def p)
    moreover have "x_hpq ?y = x_hpq x" using sq by (simp add: same_queues_def)
    ultimately show ?thesis using cu_keeps_trans [OF k] by simp
  qed
qed

lemma abort_keeps:
  assumes "x_events x \<noteq> [] \<or> x_hpq x \<noteq> []" and "xrt_cu_cmd_abort F x e match = (r, x', e')"
  shows "keeps (x, e) (x', e') \<and> x_hpq x' = x_hpq x \<and> x_events x' = x_events x"
proof -
  obtain q h c where a: "abort' match (e_heap e) (x_core x) = (q, h, c)"
    by (metis prod.exhaust)
  have eq: "x' = x\<lparr>x_core := c\<rparr>" "e' = e\<lparr>e_heap := h\<rparr>"
    using assms(2) by (simp_all add: xrt_cu_cmd_abort_def fn_abort a)
  from abort_moves [OF a] have h: "heap_frame (e_heap e) h"
    and s: "sub c = filter (\<lambda>t. \<not> match (e_heap e t)) (sub (x_core x))"
    and c: "com c = com (x_core x) @ filter (\<lambda>t. match (e_heap e t)) (sub (x_core x))" by auto
  have "length (sub c) + length (com c) = length (sub (x_core x)) + length (com (x_core x))"
    unfolding s c using sum_length_filter_compl [of "\<lambda>t. match (e_heap e t)" "sub (x_core x)"] by simp
  moreover have "mset (sub c) + mset (com c) = mset (sub (x_core x)) + mset (com (x_core x))"
    unfolding s c by (simp add: union_filter_mset_complement [symmetric] mset_filter ac_simps)
  ultimately show ?thesis
    using assms(1) h unfolding eq
    by (auto simp: cu_keeps_def cu_order_def cu_counts_def ac_simps simp flip: of_nat_add)
qed

lemma sq_abort_event_keeps: "keeps (x, e) (sq_abort_event F x e)"
proof (cases "x_events x")
  case Nil
  then show ?thesis by (simp add: sq_abort_event_def first_event_client_or_null_def cu_keeps_refl)
next
  case (Cons c cs)
  obtain r x1 e1 where a: "xrt_cu_cmd_abort F x e (abort_client c) = (r, x1, e1)"
    by (metis prod.exhaust)
  have "keeps (x, e) (x1, e1)" using abort_keeps [OF _ a] Cons by simp
  moreover have "keeps (x1, e1) (x1\<lparr>bad_state := b, start_tick := 0\<rparr>, e1)"
    "keeps (x, e) (x\<lparr>start_tick := t\<rparr>, e)" for b t
    by (rule cu_keeps_same_queues, simp add: same_queues_def)+
  ultimately show ?thesis
    using Cons by (auto simp: sq_abort_event_def first_event_client_or_null_def a Let_def cu_keeps_refl
        intro: cu_keeps_trans)
qed

lemma process_sq_submitted_keeps:
  "\<exists>x' e'. process_sq_submitted F x e = Some (x', e') \<and> keeps (x, e) (x', e')"
proof -
  define x1 where "x1 = (if ready_cnt x \<noteq> 0
                then (xrt_cu_put_credit F x (ready_cnt x))\<lparr>ready_cnt := 0\<rparr> else x)"
  have k1: "keeps (x, e) (x1, e)"
    unfolding x1_def xrt_cu_put_credit_def
    by (simp add: cu_keeps_def cu_order_def cu_counts_def credit_same)
  obtain x2 e2 where s: "sq_abort_event F x1 e = (x2, e2)"
    by (cases "sq_abort_event F x1 e")
  obtain x3 e3 where d: "drain_complete F True x2 e2 = Some (x3, e3)" "keeps (x2, e2) (x3, e3)"
    using drain_complete_keeps [of True x2 e2] by blast
  obtain x4 e4 where i: "xrt_cu_idle_start x3 e3 = (x4, e4)"
    by (cases "xrt_cu_idle_start x3 e3")
  have "keeps (x1, e) (x2, e2)" using sq_abort_event_keeps [of x1 e] s by simp
  moreover have "keeps (x3, e3) (x4, e4)"
    using cu_keeps_same_queues [OF same_queues_idle_start, of sub com x3 e3] i by simp
  ultimately have "keeps (x, e) (x4, e4)"
    using k1 d(2) by (blast intro: cu_keeps_trans)
  then show ?thesis
    using k1 unfolding process_sq_submitted_def Let_def x1_def [symmetric] by (simp add: s d(1) i)
qed

lemma process_sq_keeps: "\<exists>x' e'. process_sq F x e = Some (x', e') \<and> keeps (x, e) (x', e')"
proof -
  obtain x1 e1 where c: "xrt_cu_check F x e = (x1, e1)" by (cases "xrt_cu_check F x e")
  have "keeps (x, e) (x1, e1)" using check_keeps [of x e False] c by (simp add: xrt_cu_check_def)
  then show ?thesis
    using process_sq_submitted_keeps [of x1 e1] by (auto simp: process_sq_def c cu_keeps_refl intro: cu_keeps_trans)
qed

lemma abort_rq_keeps:
  assumes "x_events x \<noteq> []" shows "keeps (x, e) (abort_rq c x e)"
proof -
  let ?sel = "\<lambda>t. kc_client (e_heap e t) = c \<or> bad_state x"
  define moved kept where "moved = filter ?sel (x_rq x)" and "kept = filter (\<lambda>t. \<not> ?sel t) (x_rq x)"
  have eq: "abort_rq c x e = (x\<lparr>x_rq := kept, x_cq := x_cq x @ moved,
      num_cq := num_cq x + of_nat (length moved), num_rq := num_rq x - of_nat (length moved)\<rparr>,
      e\<lparr>e_heap := fold (\<lambda>t h. set_cmd_status h t KDS_ABORT) moved (e_heap e)\<rparr>)"
    by (simp add: abort_rq_def Let_def moved_def kept_def)
  have l: "length (x_rq x) = length moved + length kept"
    unfolding moved_def kept_def by (rule sum_length_filter_compl [symmetric])
  have m: "mset (x_rq x) = mset moved + mset kept"
    unfolding moved_def kept_def by (simp only: mset_filter multiset_partition [symmetric])
  have "set kept \<subseteq> set (x_rq x)" by (auto simp: kept_def)
  then show ?thesis
    using assms l m unfolding eq
    by (auto simp: cu_keeps_def cu_order_def cu_counts_def heap_frame_fold_status ac_simps)
qed

lemma process_pq_keeps: "keeps (x, e) (process_pq x e)"
proof -
  obtain x1 e1 where i: "xrt_cu_idle_end x e = (x1, e1)"
    by (cases "xrt_cu_idle_end x e")
  have "keeps (x, e) (x1, e1)" using cu_keeps_same_queues [OF same_queues_idle_end, of sub com x e] i by simp
  moreover have "keeps (x1, e1) (x1\<lparr>x_pq := [], x_rq := x_rq x1 @ x_pq x1, num_rq := num_rq x1 + num_pq x1,
      num_pq := 0\<rparr>, e1)"
    by (auto simp: cu_keeps_def cu_order_def cu_counts_def)
  moreover have "keeps (y, e1) (y\<lparr>max_running := n\<rparr>, e1)" for y n
    by (rule cu_keeps_same_queues) (simp add: same_queues_def)
  ultimately show ?thesis
    unfolding process_pq_def i Let_def prod.case
    by (auto simp: cu_keeps_refl intro: cu_keeps_trans)
qed

lemma submit_keeps:
  assumes "x_rq x = t # rest" and "submit t (e_heap e) (x_core x) = Some (0, c)"
    and "same_queues (x\<lparr>x_core := c'\<rparr>, e) (x5, e2)" and "sub c' = sub c" and "com c' = com c"
    and "same_queues (x5\<lparr>x_rq := rest, num_sq := num_sq x5 + 1, num_rq := num_rq x5 - 1\<rparr>, e2) (x7, e3)"
  shows "keeps (x, e) (x7, e3)"
  using submit_zero [OF assms(2)] assms(1,3-6)
  by (auto simp: same_queues_def cu_keeps_def cu_order_def cu_counts_def intro: heap_frame_trans)

lemma process_rq_returns:
  assumes "counts x" and "ready x e"
  shows "\<exists>b x' e'. process_rq F x e = Some (b, x', e') \<and> keeps (x, e) (x', e')
    \<and> (b \<longrightarrow> length (x_rq x') < length (x_rq x))"
proof (cases "num_rq x = 0 \<or> x_events x \<noteq> []")
  case True
  show ?thesis
  proof (cases "num_rq x = 0")
    case True
    then show ?thesis by (auto simp: process_rq_def cu_keeps_refl)
  next
    case n: False
    with True obtain c cs where ev: "x_events x = c # cs" by (cases "x_events x") auto
    obtain x1 e1 where a: "abort_rq c x e = (x1, e1)" by (cases "abort_rq c x e")
    have "process_rq F x e = Some (False, x1, e1)"
      by (simp add: process_rq_def n first_event_client_or_null_def ev a)
    then show ?thesis using abort_rq_keeps [of x e c] ev a by auto
  qed
next
  case False
  then have ev: "first_event_client_or_null x = None" and n: "num_rq x \<noteq> 0"
    by (simp_all add: first_event_client_or_null_def)
  have "x_rq x \<noteq> []" using assms(1) n by (auto simp: cu_counts_def)
  then obtain t rest where rq: "x_rq x = t # rest" by (cases "x_rq x") auto
  obtain cr c1 where a: "alloc_credit F (x_core x) = (cr, c1)"
    by (cases "alloc_credit F (x_core x)")
  have same1: "sub c1 = sub (x_core x)" "com c1 = com (x_core x)"
    using credit_same(1,2) [of "x_core x"] a by simp_all
  define x1 where "x1 = x\<lparr>x_core := c1\<rparr>"
  have k1: "keeps (x, e) (x1, e)" unfolding x1_def by (rule core_keeps [OF same1])
  have g: "xrt_cu_get_credit F x = (cr, x1)" by (simp add: xrt_cu_get_credit_def a x1_def)
  have "cmd_ok (e_heap e t)" using assms(2) rq by (simp add: cu_cmds_ok_def)
  then obtain r c2 where s: "submit t (e_heap e) c1 = Some (r, c2)"
    using submit_returns by fastforce
  have sc: "xrt_cu_submit_config F x1 e t = Some (r, x1\<lparr>x_core := c2\<rparr>)"
    by (simp add: xrt_cu_submit_config_def submit_config s x1_def)
  consider "cr = 0" | "cr \<noteq> 0" "r \<noteq> 0" | "cr \<noteq> 0" "r = 0" by blast
  then show ?thesis
  proof cases
    case 1
    then show ?thesis using k1 by (auto simp: process_rq_def n ev rq g)
  next
    case 2
    have "keeps (x, e) (xrt_cu_put_credit F (x1\<lparr>x_core := c2\<rparr>) 1, e)"
      using submit_nonzero [OF s 2(2)] same1 core_keeps [of "free_credit F 1 c2" x e]
      by (simp add: xrt_cu_put_credit_def x1_def credit_same)
    then show ?thesis using 2 by (auto simp: process_rq_def n ev rq g sc)
  next
    case 3
    define x3 where "x3 = xrt_cu_start F (x1\<lparr>x_core := c2\<rparr>)"
    define x4 where "x4 = (if x_thread x3
                     then (if \<not> force_intr x3 \<and> interrupt_used x3
                           then xrt_cu_switch_to_poll F (x3\<lparr>poll_count := 0\<rparr>) else x3\<lparr>poll_count := 0\<rparr>)
                     else x3)"
    define e1 where "e1 = env_timestamp e t KDS_RUNNING"
    obtain x5 e2 where p: "xrt_cu_circ_produce x4 e1 CU_LOG_STAGE_RQ t = (x5, e2)"
      by (cases "xrt_cu_circ_produce x4 e1 CU_LOG_STAGE_RQ t")
    define x6 where "x6 = x5\<lparr>x_rq := rest, num_sq := num_sq x5 + 1, num_rq := num_rq x5 - 1\<rparr>"
    define x7 where "x7 = (if max_sq_length (x_stats x6) < num_sq x6
                           then x6\<lparr>x_stats := (x_stats x6)\<lparr>max_sq_length := num_sq x6\<rparr>\<rparr> else x6)"
    have run: "process_rq F x e = Some (True, x7, e2)"
      by (simp only: process_rq_def n if_False ev option.case rq list.case g prod.case 3 simp_thms sc
          Option.bind_lunit Let_def p x3_def [symmetric] x4_def [symmetric] e1_def [symmetric]
          x6_def [symmetric] x7_def [symmetric])
    have core: "sub (x_core x4) = sub c2" "com (x_core x4) = com c2"
      by (simp_all add: x4_def x3_def xrt_cu_start_def xrt_cu_switch_to_poll_def xrt_cu_disable_intr_def
          start_same intr_same)
    have "same_queues (x1\<lparr>x_core := x_core x4\<rparr>, e) (x4, e1)"
      using same_queues_timestamp [of x4 e t KDS_RUNNING]
      by (simp add: e1_def same_queues_def x4_def x3_def xrt_cu_start_def xrt_cu_switch_to_poll_def
          xrt_cu_disable_intr_def)
    then have "same_queues (x1\<lparr>x_core := x_core x4\<rparr>, e) (x5, e2)"
      using same_queues_produce [of x4 e1 CU_LOG_STAGE_RQ t] p
      by (auto simp: same_queues_def intro: heap_frame_trans)
    moreover have "same_queues (x6, e2) (x7, e2)" by (simp add: x7_def same_queues_def)
    ultimately have "keeps (x1, e) (x7, e2)"
      using submit_keeps [of x1 t rest e c2 "x_core x4" x5 e2 x7 e2] core s 3 rq
      by (simp add: x1_def x6_def)
    with k1 have "keeps (x, e) (x7, e2)" by (rule cu_keeps_trans)
    moreover have "x_rq x7 = rest" by (simp add: x7_def x6_def)
    ultimately show ?thesis using run rq by auto
  qed
qed

lemma process_rq_loop_returns:
  assumes "counts x" and "ready x e"
  shows "\<exists>x' e'. process_rq_loop F x e = Some (x', e') \<and> keeps (x, e) (x', e')"
  using assms
proof (induction "length (x_rq x)" arbitrary: x e rule: less_induct)
  case less
  obtain b x1 e1 where 1: "process_rq F x e = Some (b, x1, e1)" "keeps (x, e) (x1, e1)"
    "b \<longrightarrow> length (x_rq x1) < length (x_rq x)"
    using process_rq_returns [OF less.prems] by blast
  show ?case
  proof (cases b)
    case True
    have "counts x1" using 1(2) less.prems(1) by (simp add: cu_keeps_def)
    with True 1 less.hyps [of x1 e1] ready_keeps [OF 1(2) less.prems(2)] obtain x' e' where
      "process_rq_loop F x1 e1 = Some (x', e')" "keeps (x1, e1) (x', e')" by blast
    then show ?thesis
      using 1 True cu_keeps_trans by (subst process_rq_loop.simps) (auto intro: cu_keeps_trans)
  next
    case False
    then show ?thesis using 1 by (subst process_rq_loop.simps) simp
  qed
qed

lemma try_abort_cmd_keeps:
  assumes "x_hpq x \<noteq> []" and "kc_info (e_heap e a) \<noteq> []"
  shows "\<exists>x' e'. try_abort_cmd F x e a = Some (x', e') \<and> keeps (x, e) (x', e')
    \<and> x_hpq x' = x_hpq x"
proof -
  obtain handle w where i: "kc_info (e_heap e a) = handle # w"
    using assms(2) by (cases "kc_info (e_heap e a)") auto
  let ?find = "find (\<lambda>t. kc_exec_bo_handle (e_heap e t) = handle) (x_rq x)"
  show ?thesis
  proof (cases ?find)
    case (Some t)
    then have t: "t \<in> set (x_rq x)" by (auto simp: find_Some_iff)
    then have l: "length (x_rq x) = Suc (length (remove1 t (x_rq x)))"
      and m: "mset (x_rq x) = add_mset t (mset (remove1 t (x_rq x)))"
      by (auto simp: length_remove1 intro: Suc_pred [symmetric] dest: length_pos_if_in_set)
    let ?h = "set_cmd_status (set_cmd_status (e_heap e) a KDS_COMPLETED) t KDS_ABORT"
    let ?x = "x\<lparr>x_rq := remove1 t (x_rq x), x_cq := x_cq x @ [t], num_cq := num_cq x + 1,
                num_rq := num_rq x - 1\<rparr>"
    have "keeps (x, e) (?x, e\<lparr>e_heap := ?h\<rparr>)"
      using assms(1) set_remove1_subset [of t "x_rq x"]
      by (auto simp: cu_keeps_def cu_order_def cu_counts_def heap_frame_set_status l m simp del: mset_remove1)
    then show ?thesis by (simp add: try_abort_cmd_def i Some)
  next
    case None
    obtain r x1 e1 where ab: "xrt_cu_cmd_abort F x e (abort_handle handle) = (r, x1, e1)"
      by (metis prod.exhaust)
    have k1: "keeps (x, e) (x1, e1)" "x_hpq x1 = x_hpq x" using abort_keeps [OF _ ab] assms(1) by auto
    define x2 where "x2 = (if r \<noteq> 0 then x1\<lparr>bad_state := True\<rparr> else x1)"
    define e2 where "e2 = e1\<lparr>e_heap := set_cmd_status (e_heap e1) a
                                 (if r \<noteq> 0 then KDS_TIMEOUT else KDS_COMPLETED)\<rparr>"
    have "same_queues (x1, e1) (x2, e2)"
      by (simp add: x2_def e2_def same_queues_def heap_frame_set_status)
    then have k2: "keeps (x1, e1) (x2, e2)" by (rule cu_keeps_same_queues)
    have hp: "x_hpq x2 = x_hpq x" using k1(2) by (simp add: x2_def)
    obtain x3 e3 where d: "drain_complete F False x2 e2 = Some (x3, e3)" "keeps (x2, e2) (x3, e3)"
      "x_hpq x3 = x_hpq x2"
      using drain_complete_keeps [of False x2 e2] by blast
    have "try_abort_cmd F x e a = (if num_sq x = 0 then Some (x, e) else Some (x3, e3))"
      unfolding try_abort_cmd_def i list.case None option.case ab prod.case Let_def
        x2_def [symmetric] e2_def [symmetric] d(1) ..
    moreover have "keeps (x, e) (x3, e3)" using k1(1) k2 d(2) by (blast intro: cu_keeps_trans)
    ultimately show ?thesis using d(3) hp cu_keeps_refl by auto
  qed
qed

lemma process_hpq_loop_keeps:
  assumes "x_hpq x = ts" and "ready x e"
  shows "\<exists>x' e'. process_hpq_loop F ts x e = Some (x', e') \<and> keeps (x, e) (x', e')"
  using assms
proof (induction ts arbitrary: x e)
  case Nil
  then show ?case by (simp add: cu_keeps_refl)
next
  case (Cons t ts)
  have i: "kc_info (e_heap e t) \<noteq> []" using Cons.prems(1,2) by (simp add: cu_cmds_ok_def)
  have "\<exists>x1 e1. (if kc_opcode (e_heap e t) = OP_ABORT then try_abort_cmd F x e t else Some (x, e))
      = Some (x1, e1) \<and> keeps (x, e) (x1, e1) \<and> x_hpq x1 = t # ts"
    using try_abort_cmd_keeps [OF _ i, of x] Cons.prems(1) cu_keeps_refl [of sub com "(x, e)"]
    by (cases "kc_opcode (e_heap e t) = OP_ABORT") simp_all
  then obtain x1 e1 where 1: "(if kc_opcode (e_heap e t) = OP_ABORT then try_abort_cmd F x e t else Some (x, e))
      = Some (x1, e1)" "keeps (x, e) (x1, e1)" "x_hpq x1 = t # ts" by blast
  define y where "y = x1\<lparr>x_hpq := ts, num_hpq := num_hpq x1 - 1\<rparr>"
  have "keeps (x1, e1) (y, e1)"
    using 1(3) by (auto simp: y_def cu_keeps_def cu_order_def cu_counts_def)
  with 1(2) have k: "keeps (x, e) (y, e1)" by (rule cu_keeps_trans)
  have "x_hpq y = ts" by (simp add: y_def)
  from Cons.IH [OF this ready_keeps [OF k Cons.prems(2)]] obtain x' e' where
    "process_hpq_loop F ts y e1 = Some (x', e')" "keeps (y, e1) (x', e')" by blast
  then show ?case
    using cu_keeps_trans [OF k] 1(1) by (simp add: y_def)
qed

lemma process_hpq_keeps:
  assumes "ready x e"
  shows "\<exists>x' e'. process_hpq F x e = Some (x', e') \<and> keeps (x, e) (x', e')"
proof -
  obtain x1 e1 where 1: "process_hpq_loop F (x_hpq x) x e = Some (x1, e1)" "keeps (x, e) (x1, e1)"
    using process_hpq_loop_keeps [OF refl assms] by blast
  have "keeps (x1, e1) (x1\<lparr>x_comp := x_comp x1 + 1\<rparr>, e1)"
    by (rule cu_keeps_same_queues) (simp add: same_queues_def)
  with 1 show ?thesis by (auto simp: process_hpq_def cu_keeps_refl intro: cu_keeps_trans)
qed

lemma counts_keeps: "keeps (x, e) (x', e') \<Longrightarrow> counts x \<Longrightarrow> counts x'"
  by (simp add: cu_keeps_def)

text \<open>The whole of the work always returns, and keeps the commands.\<close>

lemma process_queues_returns:
  assumes "counts x" and "ready x e"
  shows "\<exists>r x' e'. xrt_cu_process_queues F x e = Some (r, x', e') \<and> keeps (x, e) (x', e')"
proof -
  obtain x1 e1 where 1: "process_pq x e = (x1, e1)" by (cases "process_pq x e")
  have k1: "keeps (x, e) (x1, e1)" using process_pq_keeps [of x e] 1 by simp
  note i1 = counts_keeps [OF k1 assms(1)] ready_keeps [OF k1 assms(2)]
  obtain x2 e2 where 2: "process_rq_loop F x1 e1 = Some (x2, e2)" and k2: "keeps (x1, e1) (x2, e2)"
    using process_rq_loop_returns [OF i1] by blast
  note i2 = counts_keeps [OF k2 i1(1)] ready_keeps [OF k2 i1(2)]
  obtain x3 e3 where 3: "process_cq x2 e2 = Some (x3, e3)" and k3: "keeps (x2, e2) (x3, e3)"
    using process_cq_keeps [OF i2(1)] by blast
  note i3 = counts_keeps [OF k3 i2(1)] ready_keeps [OF k3 i2(2)]
  obtain x4 e4 where 4: "process_sq F x3 e3 = Some (x4, e4)" and k4: "keeps (x3, e3) (x4, e4)"
    using process_sq_keeps by blast
  note i4 = counts_keeps [OF k4 i3(1)] ready_keeps [OF k4 i3(2)]
  obtain x5 e5 where 5: "process_hpq F x4 e4 = Some (x5, e5)" and k5: "keeps (x4, e4) (x5, e5)"
    using process_hpq_keeps [OF i4(2)] by blast
  have "keeps (x, e) (x5, e5)" using k1 k2 k3 k4 k5 by (blast intro: cu_keeps_trans)
  then show ?thesis by (simp add: xrt_cu_process_queues_def 1 2 3 4 5)
qed

lemma intr_thread_sq_keeps: "\<exists>x' e'. intr_thread_sq F x e = Some (x', e') \<and> keeps (x, e) (x', e')"
proof -
  obtain x1 e1 where 1: "process_sq F x e = Some (x1, e1)" "keeps (x, e) (x1, e1)"
    using process_sq_keeps by blast
  let ?x2 = "x1\<lparr>poll_count := poll_count x1 + 1\<rparr>"
  have p: "keeps (x1, e1) (?x2, e1)" "keeps (x1, e1) (xrt_cu_switch_to_interrupt F ?x2, e1)"
    by (simp_all add: cu_keeps_def cu_order_def cu_counts_def xrt_cu_switch_to_interrupt_def
        xrt_cu_enable_intr_def intr_same)
  obtain y f where 2: "xrt_cu_check F x e = (y, f)" by (cases "xrt_cu_check F x e")
  let ?y = "y\<lparr>sleep_cnt := sleep_cnt y + 1, x_sem_cu := down (x_sem_cu y)\<rparr>"
  obtain z g where 3: "(if done_cnt y = 0 \<or> ready_cnt y = 0 then xrt_cu_check F ?y f else (y, f)) = (z, g)"
    by (metis prod.exhaust)
  have "keeps (x, e) (y, f)" using check_keeps [of x e False] 2 by (simp add: xrt_cu_check_def)
  moreover have "keeps (y, f) (?y, f)"
    by (rule cu_keeps_same_queues) (simp add: same_queues_def)
  moreover have "keeps (?y, f) (xrt_cu_check F ?y f)" using check_keeps [of ?y f False] by (simp add: xrt_cu_check_def)
  ultimately have k: "keeps (x, e) (z, g)" using 3 by (auto split: if_splits intro: cu_keeps_trans)
  obtain x' e' where 4: "process_sq_submitted F z g = Some (x', e')" "keeps (z, g) (x', e')"
    using process_sq_submitted_keeps by blast
  have "keeps (x, e) (x', e')" using k 4(2) by (rule cu_keeps_trans)
  moreover have "keeps (x, e) (?x2, e1)" "keeps (x, e) (xrt_cu_switch_to_interrupt F ?x2, e1)"
    using 1(2) p by (blast intro: cu_keeps_trans)+
  ultimately show ?thesis
    unfolding intr_thread_sq_def 2 prod.case Let_def 3
    by (simp add: 1(1) 4(1) cu_keeps_refl del: poll_count_update_def)
qed

lemma intr_thread_pass_returns:
  assumes "counts x" and "ready x e"
  shows "\<exists>x' e'. xrt_cu_intr_thread_pass F x e = Some (x', e') \<and> keeps (x, e) (x', e')"
proof -
  obtain b x1 e1 where 1: "process_rq F x e = Some (b, x1, e1)" and k1: "keeps (x, e) (x1, e1)"
    using process_rq_returns [OF assms] by blast
  note i1 = counts_keeps [OF k1 assms(1)] ready_keeps [OF k1 assms(2)]
  obtain x2 e2 where 2: "process_cq x1 e1 = Some (x2, e2)" and k2: "keeps (x1, e1) (x2, e2)"
    using process_cq_keeps [OF i1(1)] by blast
  note i2 = ready_keeps [OF k2 i1(2)]
  obtain x3 e3 where 3: "intr_thread_sq F x2 e2 = Some (x3, e3)" and k3: "keeps (x2, e2) (x3, e3)"
    using intr_thread_sq_keeps by blast
  obtain x4 e4 where 4: "process_hpq F x3 e3 = Some (x4, e4)" and k4: "keeps (x3, e3) (x4, e4)"
    using process_hpq_keeps [OF ready_keeps [OF k3 i2]] by blast
  have k: "keeps (x, e) (x4, e4)" using k1 k2 k3 k4 by (blast intro: cu_keeps_trans)
  obtain y f where 5: "(if num_pq x4 = 0 then xrt_cu_check_force F x4 e4 else (x4, e4)) = (y, f)"
    by (metis prod.exhaust)
  obtain x5 e5 where 6: "(if num_sq x4 = 0 \<and> num_cq x4 = 0 then (y\<lparr>x_sem := down (x_sem y)\<rparr>, f) else (x4, e4))
      = (x5, e5)" by (metis prod.exhaust)
  have "keeps (x4, e4) (y, f)"
    using check_keeps [of x4 e4 True] 5 by (auto simp: xrt_cu_check_force_def cu_keeps_refl split: if_splits)
  moreover have "keeps (y, f) (y\<lparr>x_sem := down (x_sem y)\<rparr>, f)"
    by (rule cu_keeps_same_queues) (simp add: same_queues_def)
  ultimately have "keeps (x4, e4) (x5, e5)"
    using 6 cu_keeps_refl by (auto split: if_splits intro: cu_keeps_trans)
  then have "keeps (x, e) (process_pq x5 e5)"
    using k process_pq_keeps [of x5 e5] by (blast intro: cu_keeps_trans)
  then show ?thesis
    using k k1 unfolding xrt_cu_intr_thread_pass_def 1 2 3 4 Let_def Option.bind_lunit prod.case 5 6
    by (cases "process_pq x5 e5") auto
qed

lemma run_inv_keeps:
  assumes "cu_run_inv cmd_ok sub com subs calm (x, e)" and "keeps (x, e) (x', e')"
  shows "cu_run_inv cmd_ok sub com subs calm (x', e')"
proof -
  have "ready x' e'" "counts x'"
    using assms ready_keeps counts_keeps by (auto simp: cu_run_inv_def)
  then show ?thesis using assms by (auto simp: cu_run_inv_def cu_keeps_def)
qed

lemma run_inv_same_queues:
  assumes "cu_run_inv cmd_ok sub com subs calm (x, e)" and "same_queues (x, e) (x', e')"
  shows "cu_run_inv cmd_ok sub com subs calm (x', e')"
  using run_inv_keeps [OF assms(1) cu_keeps_same_queues [OF assms(2)]] .

lemma run_inv_start:
  assumes "cu_fresh sub com s" shows "cu_run_inv cmd_ok sub com [] True s"
proof -
  obtain x e where s: "s = (x, e)" by (cases s)
  show ?thesis using assms unfolding s by (simp add: cu_fresh_def cu_run_inv_def cu_cmds_ok_def cu_order_def)
qed

lemma run_inv_alloc:
  assumes "cu_run_inv cmd_ok sub com subs calm (x, e)" and "t \<notin> set (x_pq x @ x_rq x @ x_hpq x)"
  shows "cu_run_inv cmd_ok sub com subs calm (x, e\<lparr>e_heap := (e_heap e)(t := k)\<rparr>)"
proof -
  have "ready x (e\<lparr>e_heap := (e_heap e)(t := k)\<rparr>)"
    using assms by (auto simp: cu_run_inv_def cu_cmds_ok_def list_all_iff)
  then show ?thesis using assms(1) by (simp add: cu_run_inv_def cu_order_def)
qed

lemma run_inv_submit:
  assumes "cu_run_inv cmd_ok sub com subs calm (x, e)" and "cmd_ok (e_heap e t)"
  shows "cu_run_inv cmd_ok sub com (subs @ [t]) calm (xrt_cu_submit x t, e)"
proof -
  have "ready (xrt_cu_submit x t) e"
    using assms by (simp add: cu_run_inv_def cu_cmds_ok_def xrt_cu_submit_def Let_def)
  moreover have "counts (xrt_cu_submit x t)"
    using assms(1) by (simp add: cu_run_inv_def cu_counts_def xrt_cu_submit_def Let_def add.commute)
  moreover have "ordr (xrt_cu_submit x t) e = ordr x e @ [t]"
    by (simp add: cu_order_def xrt_cu_submit_def Let_def)
  moreover have "x_events (xrt_cu_submit x t) = x_events x" "x_hpq (xrt_cu_submit x t) = x_hpq x"
    by (simp_all add: xrt_cu_submit_def Let_def)
  ultimately show ?thesis using assms(1) by (simp add: cu_run_inv_def)
qed

lemma run_inv_hpq_submit:
  assumes "cu_run_inv cmd_ok sub com subs calm (x, e)" and "kc_info (e_heap e t) \<noteq> []"
  shows "cu_run_inv cmd_ok sub com subs False (xrt_cu_hpq_submit x t, e)"
proof -
  have "ready (xrt_cu_hpq_submit x t) e"
    using assms by (simp add: cu_run_inv_def cu_cmds_ok_def xrt_cu_hpq_submit_def)
  moreover have "counts (xrt_cu_hpq_submit x t)"
    using assms(1) by (simp add: cu_run_inv_def cu_counts_def xrt_cu_hpq_submit_def add.commute)
  moreover have "ordr (xrt_cu_hpq_submit x t) e = ordr x e"
    by (simp add: cu_order_def xrt_cu_hpq_submit_def)
  ultimately show ?thesis using assms(1) by (simp add: cu_run_inv_def)
qed

lemma run_inv_events:
  assumes "cu_run_inv cmd_ok sub com subs calm (x, e)" and "calm' \<Longrightarrow> calm \<and> (x_events x = [] \<longrightarrow> evs = [])"
  shows "cu_run_inv cmd_ok sub com subs calm' (x\<lparr>x_events := evs\<rparr>, e)"
  using assms by (auto simp: cu_run_inv_def cu_cmds_ok_def cu_order_def cu_counts_def)

lemma cu_reach_inv:
  assumes "cu_reach F cmd_ok sub com s0 subs calm s" and "cu_fresh sub com s0"
  shows "cu_run_inv cmd_ok sub com subs calm s"
  using assms
proof (induction rule: cu_reach.induct)
  case start
  then show ?case by (rule run_inv_start)
next
  case (alloc subs calm x e t k)
  then show ?case by (intro run_inv_alloc) simp_all
next
  case (submit subs calm x e t)
  then show ?case by (intro run_inv_submit) simp_all
next
  case (hpq_submit subs calm x e t)
  then show ?case by (intro run_inv_hpq_submit) simp_all
next
  case (hpq_wait subs calm x e x')
  have "same_queues (x, e) (x', e)"
    using hpq_wait(2) by (auto simp: same_queues_def xrt_cu_hpq_wait_def split: if_splits)
  with hpq_wait show ?case using run_inv_same_queues by blast
next
  case (abort subs calm x e client)
  have "cu_run_inv cmd_ok sub com subs False
      (x\<lparr>x_events := (if client \<in> set (x_events x) then x_events x else x_events x @ [client])\<rparr>, e)"
    using abort by (intro run_inv_events [of subs calm]) simp_all
  moreover have "xrt_cu_abort x client
      = x\<lparr>x_events := (if client \<in> set (x_events x) then x_events x else x_events x @ [client])\<rparr>"
    by (simp add: xrt_cu_abort_def)
  ultimately show ?case by (simp only:)
next
  case (abort_done subs calm x e client)
  have "cu_run_inv cmd_ok sub com subs calm (x\<lparr>x_events := remove1 client (x_events x)\<rparr>, e)"
    using abort_done by (intro run_inv_events [of subs calm]) simp_all
  then show ?case unfolding xrt_cu_abort_done_def snd_conv .
next
  case (isr subs calm x e)
  obtain x1 e1 where p: "xrt_cu_circ_produce x e CU_LOG_STAGE_ISR 0 = (x1, e1)" by (metis prod.exhaust)
  have "keeps (x, e) (x1, e1)"
    using cu_keeps_same_queues [OF same_queues_produce, of sub com x e CU_LOG_STAGE_ISR 0] p by simp
  moreover have "keeps (x1, e1) (cu_isr F x e)"
    by (simp add: cu_isr_def p xrt_cu_clear_intr_def Let_def cu_keeps_def cu_order_def cu_counts_def
        case_prod_beta intr_same)
  ultimately have "keeps (x, e) (cu_isr F x e)" by (rule cu_keeps_trans)
  then show ?case using run_inv_keeps isr by (metis prod.collapse)
next
  case (timer subs calm x e)
  have "same_queues (x, e) (cu_timer x, e)" by (simp add: same_queues_def cu_timer_def)
  with timer show ?case using run_inv_same_queues by blast
next
  case (stats_timer subs calm x e)
  have "same_queues (x, e) (cu_stats_timer x, e)"
    by (simp add: same_queues_def cu_stats_timer_def xrt_cu_incr_sq_count_def)
  with stats_timer show ?case using run_inv_same_queues by blast
next
  case (queues subs calm x e r x' e')
  then have inv: "cu_run_inv cmd_ok sub com subs calm (x, e)" by blast
  then have "counts x" "ready x e" by (simp_all add: cu_run_inv_def)
  from process_queues_returns [OF this] have "keeps (x, e) (x', e')" using queues(2) by auto
  then show ?case by (rule run_inv_keeps [OF inv])
next
  case (pass subs calm x e x' e')
  then have inv: "cu_run_inv cmd_ok sub com subs calm (x, e)" by blast
  then have "counts x" "ready x e" by (simp_all add: cu_run_inv_def)
  from intr_thread_pass_returns [OF this] have "keeps (x, e) (x', e')" using pass(2) by auto
  then show ?case by (rule run_inv_keeps [OF inv])
qed

text \<open>In every reachable state both forms of the work return.\<close>

lemma cu_reach_returns:
  assumes "cu_reach F cmd_ok sub com s0 subs calm (x, e)" and "cu_fresh sub com s0"
  shows "xrt_cu_process_queues F x e \<noteq> None \<and> xrt_cu_intr_thread_pass F x e \<noteq> None"
  using process_queues_returns [of x e] intr_thread_pass_returns [of x e] cu_reach_inv [OF assms]
  by (auto simp: cu_run_inv_def)

end

end
