(* ===== verification/Fast_Adapter.thy ===== *)
theory Fast_Adapter
  imports Cu_Contract
begin

text \<open>
  The compute unit with fast adapter of \<open>fast_adapter.c\<close> and \<open>xrt_fa_cfg_update\<close> of \<open>xrt_cu.c\<close>: a
  core of \<open>xrt_cu.c\<close> that puts descriptors into slots of a command memory and counts finished
  tasks with a register. The module parameter \<open>kds_echo\<close> is the argument \<open>echo\<close>.
\<close>

section \<open>State and registers\<close>

text \<open>
  \<open>f_cmdmem\<close> is \<open>None\<close> for a null pointer, else the words of the command memory, by their index.
\<close>

record 'h xrt_cu_fa =
  f_hw :: 'h
  f_cmdmem :: "(nat \<Rightarrow> u32) option"
  f_paddr :: u64
  f_slot_sz :: u32
  f_num_slots :: u32
  f_head_slot :: u32
  f_desc_msw :: u32
  f_task_cnt :: u32
  f_max_credits :: int
  f_credits :: int
  f_run_cnts :: int
  f_check_count :: u64
  f_submitted :: "nat list"
  f_completed :: "nat list"

abbreviation (input) FA_MSWR :: u32 where "FA_MSWR \<equiv> 0"
abbreviation (input) FA_LSWR :: u32 where "FA_LSWR \<equiv> 4"
abbreviation (input) FA_ISR :: u32 where "FA_ISR \<equiv> 8"
abbreviation (input) FA_IER :: u32 where "FA_IER \<equiv> 0xC"
abbreviation (input) FA_SR :: u32 where "FA_SR \<equiv> 0x10"
abbreviation (input) FA_TCR :: u32 where "FA_TCR \<equiv> 0x14"
abbreviation (input) FA_FDR :: u32 where "FA_FDR \<equiv> 0x1C"

definition fa_read32 :: "'h mmio \<Rightarrow> 'h xrt_cu_fa \<Rightarrow> u32 \<Rightarrow> u32 \<times> 'h xrt_cu_fa" where
  "fa_read32 io cu reg = (let (v, hw) = io_read io reg (f_hw cu) in (v, cu\<lparr>f_hw := hw\<rparr>))"

definition fa_write32 :: "'h mmio \<Rightarrow> 'h xrt_cu_fa \<Rightarrow> u32 \<Rightarrow> u32 \<Rightarrow> 'h xrt_cu_fa" where
  "fa_write32 io cu reg val = cu\<lparr>f_hw := io_write io reg val (f_hw cu)\<rparr>"

definition fa_move_to_complete ::
  "kds_status \<Rightarrow> cmd_heap \<times> 'h xrt_cu_fa \<Rightarrow> cmd_heap \<times> 'h xrt_cu_fa" where
  "fa_move_to_complete status = (\<lambda>(h, cu).
     case f_submitted cu of
       [] \<Rightarrow> (h, cu)
     | xcmd # rest \<Rightarrow> (set_cmd_status h xcmd status,
         cu\<lparr>f_submitted := rest, f_completed := f_completed cu @ [xcmd]\<rparr>))"

section \<open>Operations\<close>

definition cu_fa_alloc_credit :: "'h xrt_cu_fa \<Rightarrow> int \<times> 'h xrt_cu_fa" where
  "cu_fa_alloc_credit cu =
     (if f_credits cu \<noteq> 0 then (f_credits cu, cu\<lparr>f_credits := f_credits cu - 1\<rparr>) else (0, cu))"

text \<open>The comparison of a \<open>u32\<close> and an \<open>int\<close> is unsigned.\<close>

definition fa_usable_credits :: "'h xrt_cu_fa \<Rightarrow> int" where
  "fa_usable_credits cu =
     (if f_num_slots cu < word_of_int (f_max_credits cu) then sint (f_num_slots cu) else f_max_credits cu)"

definition cu_fa_free_credit :: "u32 \<Rightarrow> 'h xrt_cu_fa \<Rightarrow> 'h xrt_cu_fa" where
  "cu_fa_free_credit n cu =
     (let c = int_plus_u32 (f_credits cu) n; m = fa_usable_credits cu
      in cu\<lparr>f_credits := (if c > m then m else c)\<rparr>)"

definition cu_fa_peek_credit :: "'h xrt_cu_fa \<Rightarrow> int" where
  "cu_fa_peek_credit cu = f_credits cu"

text \<open>
  \<open>memcpy(&slot[1], &data[1], sz - 4)\<close> and then \<open>slot[0] = data[0]\<close>. The length is of type
  \<open>size_t\<close>: below four it wraps, and the copy runs beyond every buffer. Bytes behind the last
  full word go to the low bytes of the next one. A read beyond the payload's buffer is \<open>None\<close>.
\<close>

definition fa_copy_desc :: "u32 list \<Rightarrow> nat \<Rightarrow> nat \<Rightarrow> (nat \<Rightarrow> u32) \<Rightarrow> nat \<Rightarrow> u32" where
  "fa_copy_desc data slot sz mem = (\<lambda>i.
     let n = sz div 4; r = sz mod 4; k = i - slot in
     if slot \<le> i \<and> k < n then data ! k
     else if slot \<le> i \<and> k = n \<and> 0 < r then set_field 0 (8 * r) (data ! k) (mem i)
     else mem i)"

definition cu_fa_configure ::
  "bool \<Rightarrow> u32 list \<Rightarrow> u64 \<Rightarrow> u32 \<Rightarrow> 'h xrt_cu_fa \<Rightarrow> (int \<times> 'h xrt_cu_fa) option" where
  "cu_fa_configure echo data sz ty cu =
     (case f_cmdmem cu of
        None \<Rightarrow> Some (0, cu)
      | Some mem \<Rightarrow>
          if echo then Some (0, cu)
          else if sz < 4 \<or> 4 * length data < unat sz then None
          else Some (0, cu\<lparr>f_cmdmem := Some (fa_copy_desc data (unat (f_head_slot cu) div 4) (unat sz) mem)\<rparr>))"

definition cu_fa_start :: "'h mmio \<Rightarrow> bool \<Rightarrow> 'h xrt_cu_fa \<Rightarrow> 'h xrt_cu_fa" where
  "cu_fa_start io echo cu =
     (let msw = ucast (drop_bit 32 (f_paddr cu)); lsw = ucast (f_paddr cu);
          c1 = cu\<lparr>f_run_cnts := f_run_cnts cu + 1\<rparr>
      in if echo \<or> f_cmdmem c1 = None then c1
         else let c2 = (if msw \<noteq> f_desc_msw c1 then (fa_write32 io c1 FA_MSWR msw)\<lparr>f_desc_msw := msw\<rparr> else c1);
                  c3 = fa_write32 io c2 FA_LSWR (lsw + f_head_slot c2);
                  head = f_head_slot c3 + f_slot_sz c3
              in c3\<lparr>f_head_slot := (if head = f_slot_sz c3 * f_num_slots c3 then 0 else head)\<rparr>)"

definition cu_fa_check ::
  "'h mmio \<Rightarrow> bool \<Rightarrow> bool \<Rightarrow> cmd_heap \<Rightarrow> 'h xrt_cu_fa \<Rightarrow> xcu_status \<times> cmd_heap \<times> 'h xrt_cu_fa" where
  "cu_fa_check io echo force h cu =
     (let st = \<lparr>num_done = 0, num_ready = 0, new_status = 0, st_rcode = 0\<rparr> in
      if echo \<or> f_cmdmem cu = None
      then (st\<lparr>num_done := 1, num_ready := 1\<rparr>, h, cu\<lparr>f_run_cnts := f_run_cnts cu - 1\<rparr>)
      else if \<not> force \<and> f_run_cnts cu = 0 then (st, h, cu)
      else let (task_count, c1) = fa_read32 io (cu\<lparr>f_check_count := f_check_count cu + 1\<rparr>) FA_TCR;
               fin = task_count - f_task_cnt c1;
               c2 = c1\<lparr>f_task_cnt := task_count, f_run_cnts := int_plus_u32 (f_run_cnts c1) (- fin)\<rparr>
           in (st\<lparr>num_done := fin, num_ready := fin\<rparr>,
               (fa_move_to_complete KDS_COMPLETED ^^ unat fin) (h, c2)))"

definition cu_fa_enable_intr :: "'h mmio \<Rightarrow> u32 \<Rightarrow> 'h xrt_cu_fa \<Rightarrow> 'h xrt_cu_fa" where
  "cu_fa_enable_intr io intr_type cu = fa_write32 io cu FA_IER 1"

definition cu_fa_disable_intr :: "'h mmio \<Rightarrow> u32 \<Rightarrow> 'h xrt_cu_fa \<Rightarrow> 'h xrt_cu_fa" where
  "cu_fa_disable_intr io intr_type cu = fa_write32 io cu FA_IER 0"

definition cu_fa_clear_intr :: "'h mmio \<Rightarrow> 'h xrt_cu_fa \<Rightarrow> u32 \<times> 'h xrt_cu_fa" where
  "cu_fa_clear_intr io cu = fa_read32 io cu FA_ISR"

definition cu_fa_reset :: "'h xrt_cu_fa \<Rightarrow> 'h xrt_cu_fa" where
  "cu_fa_reset cu = cu"

definition cu_fa_reset_done :: "'h xrt_cu_fa \<Rightarrow> bool \<times> 'h xrt_cu_fa" where
  "cu_fa_reset_done cu = (True, cu)"

definition cu_fa_submit_config ::
  "bool \<Rightarrow> nat \<Rightarrow> cmd_heap \<Rightarrow> 'h xrt_cu_fa \<Rightarrow> (int \<times> 'h xrt_cu_fa) option" where
  "cu_fa_submit_config echo xcmd h cu =
     do { (ret, c1) \<leftarrow> cu_fa_configure echo (kc_info (h xcmd)) (kc_isize (h xcmd))
                         (kc_payload_type (h xcmd)) cu;
          if ret \<noteq> 0 then Some (ret, c1)
          else Some (ret, c1\<lparr>f_submitted := f_submitted c1 @ [xcmd]\<rparr>) }"

definition cu_fa_get_complete :: "'h xrt_cu_fa \<Rightarrow> nat option \<times> 'h xrt_cu_fa" where
  "cu_fa_get_complete cu =
     (case f_completed cu of [] \<Rightarrow> (None, cu) | xcmd # rest \<Rightarrow> (Some xcmd, cu\<lparr>f_completed := rest\<rparr>))"

definition cu_fa_abort ::
  "(kds_command \<Rightarrow> bool) \<Rightarrow> cmd_heap \<Rightarrow> 'h xrt_cu_fa \<Rightarrow> int \<times> cmd_heap \<times> 'h xrt_cu_fa" where
  "cu_fa_abort match h cu =
     (let moved = filter (\<lambda>xcmd. match (h xcmd)) (f_submitted cu)
      in (- 16, fold (\<lambda>xcmd h. set_cmd_status h xcmd KDS_TIMEOUT) moved h,
          cu\<lparr>f_submitted := filter (\<lambda>xcmd. \<not> match (h xcmd)) (f_submitted cu),
             f_completed := f_completed cu @ moved\<rparr>))"

section \<open>The function table, set-up and configuration\<close>

definition xrt_cu_fa_funcs :: "'h mmio \<Rightarrow> bool \<Rightarrow> 'h xrt_cu_fa xcu_funcs" where
  "xrt_cu_fa_funcs io echo =
     \<lparr>alloc_credit = cu_fa_alloc_credit, free_credit = cu_fa_free_credit,
      peek_credit = cu_fa_peek_credit, configure = cu_fa_configure echo,
      fn_start = cu_fa_start io echo, fn_check = cu_fa_check io echo,
      submit_config = Some (cu_fa_submit_config echo), get_complete = Some cu_fa_get_complete,
      fn_abort = Some cu_fa_abort, fn_reset = cu_fa_reset, reset_done = cu_fa_reset_done,
      enable_intr = cu_fa_enable_intr io, disable_intr = cu_fa_disable_intr io,
      clear_intr = cu_fa_clear_intr io\<rparr>"

definition xrt_cu_fa_init ::
  "'h mmio \<Rightarrow> bool \<Rightarrow> bool \<Rightarrow> 'h \<Rightarrow> 'h xrt_cu_fa xrt_cu \<Rightarrow> 'h xrt_cu_fa xrt_cu res" where
  "xrt_cu_fa_init io alloc_ok map_ok hw xcu =
     (if \<not> alloc_ok \<or> \<not> map_ok then Inl ENOMEM
      else let c0 = \<lparr>f_hw = hw, f_cmdmem = None, f_paddr = 0, f_slot_sz = 0, f_num_slots = 0,
                     f_head_slot = 0, f_desc_msw = 0, f_task_cnt = 0, f_max_credits = 0, f_credits = 0,
                     f_run_cnts = 0, f_check_count = 0, f_submitted = [], f_completed = []\<rparr>;
               (depth, c1) = fa_read32 io (fa_write32 io c0 FA_SR 0) FA_FDR;
               (tasks, c2) = fa_read32 io c1 FA_TCR;
               (msw, c3) = fa_read32 io c2 FA_MSWR;
               core = c3\<lparr>f_max_credits := sint depth, f_task_cnt := tasks, f_desc_msw := msw,
                         f_credits := sint depth\<rparr>
           in Inr (xrt_cu_init (xcu\<lparr>x_core := core\<rparr>)))"

definition xrt_cu_fa_fini :: "'h xrt_cu_fa xrt_cu \<Rightarrow> 'h xrt_cu_fa xrt_cu" where
  "xrt_cu_fa_fini xcu = xrt_cu_fini xcu"

text \<open>\<open>mem\<close> is what the command memory at \<open>vaddr\<close> holds.\<close>

definition xrt_fa_cfg_update ::
  "'h xrt_cu_fa xrt_cu \<Rightarrow> u64 \<Rightarrow> u64 \<Rightarrow> (nat \<Rightarrow> u32) \<Rightarrow> u32 \<Rightarrow> 'h xrt_cu_fa xrt_cu" where
  "xrt_fa_cfg_update xcu bar dev mem slots =
     (let cu = x_core xcu in
      if bar = 0
      then xcu\<lparr>x_core := cu\<lparr>f_cmdmem := None, f_paddr := 0, f_slot_sz := 0, f_num_slots := 0\<rparr>\<rparr>
      else let c1 = cu\<lparr>f_cmdmem := Some mem, f_paddr := dev,
                       f_slot_sz := cu_fa_get_desc_size (x_info xcu), f_num_slots := slots\<rparr>
           in xcu\<lparr>x_core := c1\<lparr>f_credits := fa_usable_credits c1\<rparr>\<rparr>)"

section \<open>The core keeps the contract\<close>

definition fa_cmd_ok :: "bool \<Rightarrow> kds_command \<Rightarrow> bool" where
  "fa_cmd_ok echo k = (echo \<or> 4 \<le> kc_isize k \<and> unat (kc_isize k) \<le> 4 * length (kc_info k))"

lemma fa_move_many:
  "(fa_move_to_complete st ^^ n) (h, cu) = (h', cu') \<Longrightarrow>
     heap_frame h h' \<and> f_completed cu' @ f_submitted cu' = f_completed cu @ f_submitted cu"
proof (induction n arbitrary: h' cu')
  case 0
  then show ?case by simp
next
  case (Suc n)
  obtain h1 c1 where 1: "(fa_move_to_complete st ^^ n) (h, cu) = (h1, c1)" by (metis prod.exhaust)
  then have "fa_move_to_complete st (h1, c1) = (h', cu')" using Suc.prems by simp
  then show ?case
    using Suc.IH [OF 1]
    by (auto simp: fa_move_to_complete_def heap_frame_set_status split: list.splits)
qed

lemma fa_check_moves:
  assumes "cu_fa_check io echo force h cu = (st, h', cu')"
  shows "heap_frame h h' \<and> f_completed cu' @ f_submitted cu' = f_completed cu @ f_submitted cu"
  using assms
  by (auto simp: cu_fa_check_def fa_read32_def Let_def split: if_splits prod.splits dest!: fa_move_many)

lemma fa_submit_config_cases:
  assumes "cu_fa_submit_config echo t h cu = Some (r, cu')"
  shows "r = 0 \<and> f_completed cu' = f_completed cu \<and> f_submitted cu' = f_submitted cu @ [t]"
  using assms
  by (auto simp: cu_fa_submit_config_def cu_fa_configure_def split: if_splits option.splits)

lemma fa_submit_config_returns: "fa_cmd_ok echo (h t) \<Longrightarrow> cu_fa_submit_config echo t h cu \<noteq> None"
  by (auto simp: fa_cmd_ok_def cu_fa_submit_config_def cu_fa_configure_def split: option.splits)

lemma fa_quiet_functions:
  "f_submitted (snd (cu_fa_alloc_credit c)) = f_submitted c" "f_completed (snd (cu_fa_alloc_credit c)) = f_completed c"
  "f_submitted (cu_fa_free_credit n c) = f_submitted c" "f_completed (cu_fa_free_credit n c) = f_completed c"
  "f_submitted (cu_fa_start io echo c) = f_submitted c" "f_completed (cu_fa_start io echo c) = f_completed c"
  "f_submitted (cu_fa_enable_intr io w c) = f_submitted c" "f_completed (cu_fa_enable_intr io w c) = f_completed c"
  "f_submitted (cu_fa_disable_intr io w c) = f_submitted c" "f_completed (cu_fa_disable_intr io w c) = f_completed c"
  "f_submitted (snd (cu_fa_clear_intr io c)) = f_submitted c" "f_completed (snd (cu_fa_clear_intr io c)) = f_completed c"
  by (simp_all add: cu_fa_alloc_credit_def cu_fa_free_credit_def cu_fa_start_def cu_fa_enable_intr_def
      cu_fa_disable_intr_def cu_fa_clear_intr_def fa_read32_def fa_write32_def case_prod_beta Let_def)

lemma fa_get_complete_none:
  "cu_fa_get_complete c = (None, c') \<Longrightarrow> f_completed c = [] \<and> f_completed c' = [] \<and> f_submitted c' = f_submitted c"
  by (auto simp: cu_fa_get_complete_def split: list.splits)

lemma fa_get_complete_some:
  "cu_fa_get_complete c = (Some t, c') \<Longrightarrow> f_completed c = t # f_completed c' \<and> f_submitted c' = f_submitted c"
  by (auto simp: cu_fa_get_complete_def split: list.splits)

lemma fa_cmd_ok_frozen: "frozen k = frozen k' \<Longrightarrow> fa_cmd_ok echo k = fa_cmd_ok echo k'"
  by (drule frozen_payload) (simp add: fa_cmd_ok_def)

lemma fa_abort_moves:
  "cu_fa_abort match h c = (r, h', c') \<Longrightarrow>
     heap_frame h h' \<and> f_submitted c' = filter (\<lambda>t. \<not> match (h t)) (f_submitted c)
     \<and> f_completed c' = f_completed c @ filter (\<lambda>t. match (h t)) (f_submitted c)"
  by (auto simp: cu_fa_abort_def heap_frame_fold_status Let_def)

interpretation fa: xcu_core "xrt_cu_fa_funcs io echo" f_submitted f_completed "fa_cmd_ok echo"
  "cu_fa_submit_config echo" cu_fa_get_complete cu_fa_abort
  for io :: "'h mmio" and echo
  by unfold_locales
    (simp_all add: xrt_cu_fa_funcs_def fa_quiet_functions fa_check_moves fa_submit_config_cases
      fa_abort_moves fa_submit_config_returns fa_get_complete_none fa_get_complete_some,
     (drule fa_submit_config_cases, simp)?, erule fa_cmd_ok_frozen)

lemma fa_init_fresh:
  assumes "xrt_cu_fa_init io True True hw (xrt_cu_zalloc info c) = Inr x0"
  shows "cu_fresh f_submitted f_completed (x0, kenv_start h clk)"
  using assms
  by (auto simp: xrt_cu_fa_init_def xrt_cu_zalloc_def xrt_cu_init_def xrt_cu_init_ecmd_and_sq_count_def
      fa_read32_def fa_write32_def cu_fresh_def cu_order_def cu_counts_def kenv_start_def Let_def case_prod_beta
      split: if_splits)

text \<open>A run for the examples.\<close>

definition fa_example_io :: "unit mmio" where
  "fa_example_io = \<lparr>io_read = (\<lambda>reg hw. (4, hw)), io_write = (\<lambda>reg val hw. hw)\<rparr>"

definition fa_example_core :: "unit xrt_cu_fa" where
  "fa_example_core = \<lparr>f_hw = (), f_cmdmem = Some (\<lambda>_. 0), f_paddr = 0x100001000, f_slot_sz = 32,
     f_num_slots = 4, f_head_slot = 96, f_desc_msw = 0, f_task_cnt = 0, f_max_credits = 4, f_credits = 4,
     f_run_cnts = 0, f_check_count = 0, f_submitted = [], f_completed = []\<rparr>"

lemma start_fa_returns:
  assumes "length (kc_info x) = n_count p" and "1 + n_extra p + unat (0::u32) \<le> n_count p"
  shows "\<exists>p' x' c'. start_fa_ecmd2xcmd c p x = Inr (p', x', c')"
proof -
  obtain x1 c1 where s: "start_common c OP_START p x = (x1, c1)" by (metis prod.exhaust)
  obtain x2 where "copy_payload 0 p x1 = Inr x2"
    using copy_payload_ok [of x1 p 0] start_common_fields [OF s] assms by simp
  then show ?thesis by (simp add: start_fa_ecmd2xcmd_def s Let_def)
qed

section \<open>Properties\<close>



text \<open>
  The head of the descriptor ring moves from slot to slot and wraps at the end of the command
  memory: after \<open>cu_fa_start\<close> it is at the next of the \<open>num_slots\<close> slots, modulo their number, as
  long as the command memory is smaller than 4 GiB.
\<close>

theorem fa_head_slot_cycles:
  assumes "f_cmdmem cu = Some mem" and "0 < f_slot_sz cu"
    and "unat (f_slot_sz cu) * unat (f_num_slots cu) < 2 ^ 32"
    and "unat (f_head_slot cu) = k * unat (f_slot_sz cu)" and "k < unat (f_num_slots cu)"
  shows "unat (f_head_slot (cu_fa_start io False cu)) = (Suc k mod unat (f_num_slots cu)) * unat (f_slot_sz cu)"
proof -
  let ?s = "unat (f_slot_sz cu)" and ?n = "unat (f_num_slots cu)"
  have s: "0 < ?s" using assms(2) by (simp add: word_less_nat_alt)
  have "Suc k * ?s \<le> ?n * ?s" using assms(5) by (intro mult_le_mono1) simp
  then have lt: "?s + k * ?s < 2 ^ 32" using assms(3) by (simp add: mult.commute)
  have add: "unat (f_head_slot cu + f_slot_sz cu) = Suc k * ?s"
    using lt assms(4) by (simp add: unat_word_ariths)
  have mul: "unat (f_slot_sz cu * f_num_slots cu) = ?n * ?s"
    using assms(3) by (simp add: unat_word_ariths mult.commute)
  have eq: "f_head_slot cu + f_slot_sz cu = f_slot_sz cu * f_num_slots cu \<longleftrightarrow> Suc k = ?n"
    using add mul s by (metis mult_cancel2 nat_neq_iff word_unat_eq_iff)
  show ?thesis
  proof (cases "Suc k = ?n")
    case True
    then show ?thesis using eq assms(1) by (simp add: cu_fa_start_def Let_def fa_write32_def)
  next
    case False
    then have "Suc k mod ?n = Suc k" using assms(5) by simp
    then show ?thesis
      using False eq add assms(1) by (simp add: cu_fa_start_def Let_def fa_write32_def)
  qed
qed

text \<open>An instance: the last of four slots.\<close>

theorem fa_head_slot_cycles_witness: "unat (f_head_slot (cu_fa_start fa_example_io False fa_example_core)) = 0"
  using fa_head_slot_cycles [of fa_example_core "\<lambda>_. 0" 3 fa_example_io] by (simp add: fa_example_core_def)

text \<open>
  A descriptor that is not larger than a slot is written to the slot at the head and to no
  other: its words are in order in that slot, and every word of every other slot keeps its value.
\<close>

theorem fa_descriptor_in_slot:
  assumes "f_cmdmem cu = Some mem" and "unat sz = 4 * n" and "unat (f_slot_sz cu) = 4 * s"
    and "0 < n" and "n \<le> s" and "n \<le> length data" and "unat (f_head_slot cu) = k * unat (f_slot_sz cu)"
  shows "\<exists>mem'. cu_fa_configure False data sz ty cu = Some (0, cu\<lparr>f_cmdmem := Some mem'\<rparr>)
    \<and> map mem' [k * s..<k * s + n] = take n data
    \<and> (\<forall>j i. j \<noteq> k \<and> i < s \<longrightarrow> mem' (j * s + i) = mem (j * s + i))"
proof -
  have slot: "unat (f_head_slot cu) div 4 = k * s" using assms(3,7) by simp
  have sz: "\<not> sz < 4" "\<not> 4 * length data < unat sz"
    using assms(2,4,6) by (simp_all add: word_less_nat_alt)
  let ?mem = "fa_copy_desc data (k * s) (unat sz) mem"
  have c: "cu_fa_configure False data sz ty cu = Some (0, cu\<lparr>f_cmdmem := Some ?mem\<rparr>)"
    by (simp add: cu_fa_configure_def assms(1) sz slot)
  have w: "map ?mem [k * s..<k * s + n] = take n data"
    using assms(2,6) by (intro nth_equalityI) (simp_all add: fa_copy_desc_def)
  have o: "?mem (j * s + i) = mem (j * s + i)" if "j \<noteq> k" "i < s" for j i
  proof (cases "k < j")
    case True
    then have "Suc k * s \<le> j * s" by (intro mult_le_mono1) simp
    then have "\<not> (j * s + i - k * s < n)" using assms(5) by simp
    then show ?thesis using assms(2) by (simp add: fa_copy_desc_def Let_def)
  next
    case False
    then have "Suc j * s \<le> k * s" using that(1) by (intro mult_le_mono1) simp
    then have "\<not> k * s \<le> j * s + i" using that(2) by simp
    then show ?thesis by (simp add: fa_copy_desc_def Let_def)
  qed
  show ?thesis using c w o by blast
qed

text \<open>An instance: a descriptor of two words in the fourth slot.\<close>

theorem fa_descriptor_in_slot_witness:
  "\<exists>mem'. cu_fa_configure False [5, 6] 8 0 fa_example_core = Some (0, fa_example_core\<lparr>f_cmdmem := Some mem'\<rparr>)
    \<and> map mem' [24..<26] = [5, 6]"
  using fa_descriptor_in_slot [of fa_example_core "\<lambda>_. 0" 8 2 8 "[5, 6]" 3 0]
  by (auto simp: fa_example_core_def)

text \<open>
  A valid \<open>ERT_START_FA\<close> packet can make the driver copy without bounds: the length
  \<open>sz - 4\<close> of \<open>cu_fa_configure\<close> wraps exactly when the packet has no payload behind its CU masks,
  and \<open>ert_valid_opcode\<close> accepts such packets.
\<close>

theorem fa_empty_payload_faults:
  assumes "ert_valid_opcode p" and "pkt_opcode p = ERT_START_FA" and "length (kc_info x) = n_count p"
    and "start_fa_ecmd2xcmd c p x = Inr (p', x', c')" and "f_cmdmem cu = Some mem"
  shows "cu_fa_submit_config False t (h(t := x')) cu = None \<longleftrightarrow> n_count p = 1 + n_extra p"
proof -
  obtain x1 c1 where s: "start_common c OP_START p x = (x1, c1)" by (metis prod.exhaust)
  obtain x2 where c: "copy_payload 0 p x1 = Inr x2"
    and x': "kc_info x' = kc_info x2" "kc_isize x' = kc_isize x2"
    using assms(4) by (auto simp: start_fa_ecmd2xcmd_def s Let_def split: sum.splits)
  have le: "1 + n_extra p + unat (0::u32) \<le> n_count p"
    using assms(1,2) by (simp add: ert_valid_opcode_def Let_def)
  from copied_payload_shape [OF s c assms(3) le] x'
  have sz: "unat (kc_isize x') = 4 * (n_count p - (1 + n_extra p))" and l: "length (kc_info x') = n_count p"
    by simp_all
  have "kc_isize x' < 4 \<longleftrightarrow> n_count p = 1 + n_extra p"
    using le sz by (simp add: word_less_nat_alt)
  moreover have "\<not> 4 * length (kc_info x') < unat (kc_isize x')" using sz l by simp
  ultimately show ?thesis
    using assms(5) by (simp add: cu_fa_submit_config_def cu_fa_configure_def)
qed

text \<open>An instance: a packet that consists of its header and one CU mask.\<close>

theorem fa_empty_payload_faults_witness:
  "\<exists>p' x' c'. start_fa_ecmd2xcmd (\<lambda>_. 0) (\<lambda>i. if i = 0 then 0x6001001 else of_nat i)
       (the (kds_alloc_command True True 0 0 4)) = Inr (p', x', c')
     \<and> cu_fa_submit_config False 7 ((\<lambda>_. example_cmd)(7 := x')) fa_example_core = None"
proof -
  let ?p = "(\<lambda>i. if i = 0 then 0x6001001 else of_nat i) :: execbuf" and ?x = "the (kds_alloc_command True True 0 0 4)"
  have p: "pkt_opcode ?p = 12" "n_count ?p = 1" "n_extra ?p = 0"
    by (simp_all add: pkt_field_defs get_field_def drop_bit_eq_div take_bit_eq_mod)
  have x: "length (kc_info ?x) = 1" by (simp add: kds_alloc_command_def)
  obtain p' x' c' where r: "start_fa_ecmd2xcmd (\<lambda>_. 0) ?p ?x = Inr (p', x', c')"
    using start_fa_returns [of ?x ?p "\<lambda>_. 0"] p(2,3) x by auto
  have v: "ert_valid_opcode ?p" using p by (simp add: ert_valid_opcode_def)
  have m: "f_cmdmem fa_example_core = Some (\<lambda>_. 0)" by (simp add: fa_example_core_def)
  have "length (kc_info ?x) = n_count ?p" using p(2) x by simp
  from fa_empty_payload_faults [OF v p(1) this r m, of 7 "\<lambda>_. example_cmd"]
  have "cu_fa_submit_config False 7 ((\<lambda>_. example_cmd)(7 := x')) fa_example_core = None"
    unfolding p(2,3) by simp
  with r show ?thesis by blast
qed

end
