(* ===== verification/Kds_Submit.thy ===== *)
theory Kds_Submit
  imports Kds_Core Fast_Adapter
begin

text \<open>
  Submitting a command to the scheduler (\<open>common/drv/kds_core.c\<close>).

  \<open>run\<close> is what the thread of a CU does while another thread waits for it. The callbacks of a
  command are \<open>notify_host\<close> and \<open>free_cmd\<close>.
\<close>

section \<open>Submission\<close>

definition report :: "kenv \<Rightarrow> nat \<Rightarrow> kds_status \<Rightarrow> kenv" where
  "report e xcmd st = free_cmd (notify_host e xcmd st) xcmd"

text \<open>
  Word 1 of the packet is the number of images, then follow images of seven words: the first CU, the
  number of CUs and a name. A CU beyond the array is a fault.
\<close>

definition kds_scu_config :: "kds_cu_mgmt \<Rightarrow> kds_command \<Rightarrow> kds_cu_mgmt option" where
  "kds_scu_config m xcmd =
     (let buf = kc_execbuf xcmd;
          idxs = concat (map (\<lambda>i. map (\<lambda>j. unat (of_nat j + buf (2 + 7 * i))) [0..<unat (buf (3 + 7 * i))])
                           [0..<unat (buf 1)])
      in if list_ex (\<lambda>i. i \<ge> MAX_CUS) idxs then None
         else Some (m\<lparr>m_usage := fold (\<lambda>i u. u(i := 0)) idxs (m_usage m)\<rparr>))"

fun abort_loop ::
  "('c xrt_cu \<Rightarrow> kenv \<Rightarrow> ('c xrt_cu \<times> kenv) option) \<Rightarrow> u32 \<Rightarrow> nat list \<Rightarrow> 'c kds_sched \<Rightarrow> kenv \<Rightarrow> nat \<Rightarrow>
   ('c kds_sched \<times> kenv) option" where
  "abort_loop run domain [] kds e xcmd =
     Some (kds, report (e\<lparr>e_heap := set_cmd_status (e_heap e) xcmd KDS_ERROR\<rparr>) xcmd KDS_ERROR)"
| "abort_loop run domain (i # is) kds e xcmd =
     (case m_xcus (cu_mgmt_of kds domain) i of
        None \<Rightarrow> abort_loop run domain is kds e xcmd
      | Some p \<Rightarrow>
          do { (x1, e1) \<leftarrow> run (xrt_cu_hpq_submit (k_cus kds p) xcmd) e;
               x2 \<leftarrow> xrt_cu_hpq_wait x1;
               let k1 = upd_cu kds p x2; st = kc_status (e_heap e1 xcmd) in
               if st = KDS_NEW then abort_loop run domain is k1 e1 xcmd
               else Some (if st = KDS_TIMEOUT then k1\<lparr>k_bad_state := True\<rparr> else k1, report e1 xcmd st) })"

definition kds_cu_abort_cmd ::
  "('c xrt_cu \<Rightarrow> kenv \<Rightarrow> ('c xrt_cu \<times> kenv) option) \<Rightarrow> 'c kds_sched \<Rightarrow> u32 \<Rightarrow> kenv \<Rightarrow> nat \<Rightarrow>
   ('c kds_sched \<times> kenv) option" where
  "kds_cu_abort_cmd run kds domain e xcmd = abort_loop run domain [0..<MAX_CUS] kds e xcmd"

definition start_cmd ::
  "bool list \<Rightarrow> 'c kds_sched \<Rightarrow> u32 \<Rightarrow> kds_client \<Rightarrow> kenv \<Rightarrow> nat \<Rightarrow>
   (int \<times> 'c kds_sched \<times> kds_client \<times> kenv) option" where
  "start_cmd gs kds domain client e xcmd =
     do { (ret, k1, cl1, e1) \<leftarrow> kds_cu_dispatch gs kds domain client e xcmd;
          Some (ret, if ret = 0 \<and> (k_ert_disable k1 \<or> k_xgq_enable k1) then k1\<lparr>k_polling_start := True\<rparr> else k1, cl1, e1) }"

definition kds_submit_cu ::
  "('c xrt_cu \<Rightarrow> kenv \<Rightarrow> ('c xrt_cu \<times> kenv) option) \<Rightarrow> bool list \<Rightarrow> 'c kds_sched \<Rightarrow> u32 \<Rightarrow> kds_client \<Rightarrow> kenv \<Rightarrow> nat \<Rightarrow>
   (int \<times> 'c kds_sched \<times> kds_client \<times> kenv) option" where
  "kds_submit_cu run gs kds domain client e xcmd =
     (case kc_opcode (e_heap e xcmd) of
        OP_START \<Rightarrow> start_cmd gs kds domain client e xcmd
      | OP_START_SK \<Rightarrow> start_cmd gs kds domain client e xcmd
      | OP_CONFIG \<Rightarrow> Some (0, kds, client, report e xcmd KDS_COMPLETED)
      | OP_GET_STAT \<Rightarrow> Some (0, kds, client, report e xcmd KDS_COMPLETED)
      | OP_ABORT \<Rightarrow> do { (k1, e1) \<leftarrow> kds_cu_abort_cmd run kds domain e xcmd; Some (0, k1, client, e1) }
      | _ \<Rightarrow> Some (- 22, kds, client, e))"

definition kds_submit_ert ::
  "bool list \<Rightarrow> 'c kds_sched \<Rightarrow> kds_client \<Rightarrow> kenv \<Rightarrow> nat \<Rightarrow> (int \<times> 'c kds_sched \<times> kds_client \<times> kenv) option" where
  "kds_submit_ert gs kds client e xcmd =
     (let submit = (\<lambda>kds client e. if \<not> k_ert kds then None
                      else Some (0, kds\<lparr>k_ert_log := k_ert_log kds @ [ErtSubmit xcmd]\<rparr>, client, env_timestamp e xcmd KDS_QUEUED))
      in case kc_opcode (e_heap e xcmd) of
        OP_START \<Rightarrow>
          do { (r, k1, cl1, x1) \<leftarrow> acquire_loop gs kds DOMAIN_PL client (e_heap e xcmd);
               let e1 = e\<lparr>e_heap := (e_heap e)(xcmd := x1)\<rparr> in
               if r < 0 then Some (r, k1, cl1, e1) else submit k1 cl1 e1 }
      | OP_CONFIG_SK \<Rightarrow>
          do { m \<leftarrow> kds_scu_config (k_scu_mgmt kds) (e_heap e xcmd); submit (kds\<lparr>k_scu_mgmt := m\<rparr>) client e }
      | OP_GET_STAT \<Rightarrow>
          if m_num_cus (k_scu_mgmt kds) = 0 then Some (0, kds, client, report e xcmd KDS_COMPLETED) else submit kds client e
      | OP_CONFIG \<Rightarrow> submit kds client e
      | OP_START_SK \<Rightarrow> submit kds client e
      | OP_CLK_CALIB \<Rightarrow> submit kds client e
      | OP_VALIDATE \<Rightarrow> submit kds client e
      | _ \<Rightarrow> Some (- 22, kds, client, e))"

definition kds_add_command ::
  "('c xrt_cu \<Rightarrow> kenv \<Rightarrow> ('c xrt_cu \<times> kenv) option) \<Rightarrow> bool list \<Rightarrow> 'c kds_sched \<Rightarrow> kds_client \<Rightarrow> kenv \<Rightarrow> nat \<Rightarrow>
   (int \<times> 'c kds_sched \<times> kds_client \<times> kenv) option" where
  "kds_add_command run gs kds client e xcmd =
     do { (err, k1, cl1, e1) \<leftarrow>
            (let t = kc_type (e_heap e xcmd) in
             if t = KDS_CU then kds_submit_cu run gs kds DOMAIN_PL client e xcmd
             else if t = KDS_SCU then kds_submit_cu run gs kds DOMAIN_PS client e xcmd
             else if t = KDS_ERT then kds_submit_ert gs kds client e xcmd
             else Some (- 22, kds, client, e));
          Some (err, k1, cl1, if err \<noteq> 0 then report e1 xcmd KDS_ERROR else e1) }"

text \<open>
  \<open>in_time\<close> says whether the completion comes within ten seconds, \<open>later\<close> whether it comes after the
  abort; otherwise the wait has no end.
\<close>

definition kds_submit_cmd_and_wait ::
  "('c xrt_cu \<Rightarrow> kenv \<Rightarrow> ('c xrt_cu \<times> kenv) option) \<Rightarrow> bool list \<Rightarrow> bool \<Rightarrow> bool \<Rightarrow> 'c kds_sched \<Rightarrow> nat \<Rightarrow> kds_client \<Rightarrow>
   kenv \<Rightarrow> nat \<Rightarrow> (int \<times> 'c kds_sched \<times> kds_client \<times> kenv) option" where
  "kds_submit_cmd_and_wait run gs in_time later kds cid client e xcmd =
     do { (r, k1, cl1, e1) \<leftarrow> kds_add_command run gs kds client e xcmd;
          if r \<noteq> 0 then Some (r, k1, cl1, e1)
          else if in_time then Some (0, k1, cl1, e1)
          else if \<not> k_ert k1 \<or> \<not> later then None
          else Some (0, k1\<lparr>k_ert_log := k_ert_log k1 @ [ErtAbortSync cid NO_INDEX]\<rparr>, cl1, e1) }"

section \<open>Every command is handed over or reported, once\<close>

text \<open>While it looks for the command to abort, a CU reports nothing and keeps its pending queue.\<close>

definition quiet :: "'c xrt_cu \<times> kenv \<Rightarrow> 'c xrt_cu \<times> kenv \<Rightarrow> bool" where
  "quiet s s' \<longleftrightarrow> x_pq (fst s') = x_pq (fst s) \<and> e_notified (snd s') = e_notified (snd s) \<and> e_freed (snd s') = e_freed (snd s)"

lemma quiet_trans: "quiet s1 s2 \<Longrightarrow> quiet s2 s3 \<Longrightarrow> quiet s1 s3"
  by (simp add: quiet_def)

lemma get_complete_pq: "x_pq (snd (xrt_cu_get_complete F xcu)) = x_pq xcu"
  by (simp add: xrt_cu_get_complete_def split: option.split prod.split)

lemma drain_quiet:
  assumes "drain_complete F log xcu e = Some s" shows "\<not> log \<Longrightarrow> quiet (xcu, e) s"
proof (induction rule: drain_complete.raw_induct [OF _ assms, rotated])
  case (1 f F log xcu e s)
  let ?r = "xrt_cu_get_complete F xcu"
  show ?case
  proof (cases "fst ?r")
    case None
    then show ?thesis using 1(2) by (auto simp: Let_def quiet_def get_complete_pq)
  next
    case (Some xcmd)
    let ?x = "(snd ?r)\<lparr>x_cq := x_cq (snd ?r) @ [xcmd], num_cq := num_cq (snd ?r) + 1, num_sq := num_sq (snd ?r) - 1\<rparr>"
    have "f F log ?x e = Some s" using 1(2,3) Some by (simp add: Let_def)
    then have "quiet (?x, e) s" using 1(1) 1(3) by simp
    then show ?thesis by (simp add: quiet_def get_complete_pq)
  qed
qed

lemma cmd_abort_quiet:
  "xrt_cu_cmd_abort F xcu e c = (r, x1, e1) \<Longrightarrow> quiet (xcu, e) (x1, e1)"
  by (auto simp: xrt_cu_cmd_abort_def quiet_def split: option.splits prod.splits)

lemma drain_status_quiet:
  "drain_complete F False (if b then xcu\<lparr>bad_state := True\<rparr> else xcu) (e\<lparr>e_heap := h\<rparr>) = Some s \<Longrightarrow> quiet (xcu, e) s"
  by (drule drain_quiet, simp) (simp add: quiet_def split: if_splits)

lemma try_abort_quiet:
  assumes "try_abort_cmd F xcu e c = Some s"
  shows "quiet (xcu, e) s"
proof -
  obtain handle rest where i: "kc_info (e_heap e c) = handle # rest"
    using assms by (auto simp: try_abort_cmd_def split: list.splits)
  obtain r x1 e1 where a: "xrt_cu_cmd_abort F xcu e (abort_handle handle) = (r, x1, e1)" by (metis prod_cases3)
  show ?thesis
  proof (cases "find (\<lambda>xcmd. kc_exec_bo_handle (e_heap e xcmd) = handle) (x_rq xcu)")
    case None
    show ?thesis
    proof (cases "num_sq xcu = 0")
      case True
      then show ?thesis using assms None by (simp add: try_abort_cmd_def i quiet_def)
    next
      case False
      then show ?thesis
        using assms None cmd_abort_quiet [OF a]
        by (auto simp: try_abort_cmd_def i a Let_def dest!: drain_status_quiet intro: quiet_trans)
    qed
  next
    case (Some xcmd)
    then show ?thesis using assms by (auto simp: try_abort_cmd_def i quiet_def)
  qed
qed

lemma process_hpq_loop_quiet: "process_hpq_loop F l xcu e = Some s \<Longrightarrow> quiet (xcu, e) s"
proof (induction F l xcu e arbitrary: s rule: process_hpq_loop.induct)
  case (1 F xcu e)
  then show ?case by (simp add: quiet_def)
next
  case (2 F xcmd rest xcu e)
  then obtain x1 e1 where s: "(if kc_opcode (e_heap e xcmd) = OP_ABORT then try_abort_cmd F xcu e xcmd else Some (xcu, e)) = Some (x1, e1)"
    "process_hpq_loop F rest (x1\<lparr>x_hpq := rest, num_hpq := num_hpq x1 - 1\<rparr>) e1 = Some s"
    by (auto simp: bind_eq_Some_conv)
  have "quiet (xcu, e) (x1, e1)" using s(1) try_abort_quiet [of F xcu e xcmd "(x1, e1)"] by (auto simp: quiet_def split: if_splits)
  moreover have "quiet (x1\<lparr>x_hpq := rest, num_hpq := num_hpq x1 - 1\<rparr>, e1) s"
    using 2(1) [OF s(1) refl s(2)] .
  ultimately show ?case by (simp add: quiet_def)
qed

lemma process_hpq_quiet: "process_hpq F xcu e = Some s \<Longrightarrow> quiet (xcu, e) s"
  by (auto simp: process_hpq_def bind_eq_Some_conv quiet_def split: if_splits dest!: process_hpq_loop_quiet)

text \<open>The command is handed over: to the pending queue of one CU or to the ERT.\<close>

definition handed :: "'c kds_sched \<Rightarrow> 'c kds_sched \<Rightarrow> nat \<Rightarrow> bool" where
  "handed kds kds' xcmd \<longleftrightarrow>
     (\<exists>p. x_pq (k_cus kds' p) = x_pq (k_cus kds p) @ [xcmd] \<and> (\<forall>q. q \<noteq> p \<longrightarrow> x_pq (k_cus kds' q) = x_pq (k_cus kds q)) \<and>
          k_ert_log kds' = k_ert_log kds) \<or>
     k_ert_log kds' = k_ert_log kds @ [ErtSubmit xcmd] \<and> (\<forall>q. x_pq (k_cus kds' q) = x_pq (k_cus kds q))"

definition not_handed :: "'c kds_sched \<Rightarrow> 'c kds_sched \<Rightarrow> bool" where
  "not_handed kds kds' \<longleftrightarrow> k_ert_log kds' = k_ert_log kds \<and> (\<forall>q. x_pq (k_cus kds' q) = x_pq (k_cus kds q))"

definition unreported :: "kenv \<Rightarrow> kenv \<Rightarrow> bool" where
  "unreported e e' \<longleftrightarrow> e_notified e' = e_notified e \<and> e_freed e' = e_freed e"

definition reported :: "kenv \<Rightarrow> kenv \<Rightarrow> nat \<Rightarrow> bool" where
  "reported e e' xcmd \<longleftrightarrow> (\<exists>st. e_notified e' = e_notified e @ [(xcmd, st)]) \<and> e_freed e' = e_freed e @ [xcmd]"

lemmas outcome_defs = handed_def not_handed_def unreported_def reported_def report_def notify_host_def free_cmd_def

lemma timestamp_unreported: "unreported e (env_timestamp e xcmd st)"
  by (simp add: unreported_def env_timestamp_def split: prod.split)

lemma acquire_not_handed:
  "acquire_cu_idx g kds d client x = Some (r, kds', client', x') \<Longrightarrow> k_ert_log kds' = k_ert_log kds \<and> k_cus kds' = k_cus kds"
  by (auto simp: acquire_cu_idx_def Let_def set_cu_mgmt_def split: if_splits list.splits option.splits)

lemma acquire_loop_not_handed:
  "acquire_loop gs kds d client x = Some (r, kds', client', x') \<Longrightarrow> k_ert_log kds' = k_ert_log kds \<and> k_cus kds' = k_cus kds"
proof (induction gs arbitrary: kds client x)
  case Nil
  then show ?case by (auto dest: acquire_not_handed)
next
  case (Cons g gs)
  then show ?case by (auto simp: bind_eq_Some_conv split: if_splits dest: acquire_not_handed)
qed

lemma dispatch_outcome:
  assumes "kds_cu_dispatch gs kds d client e xcmd = Some (r, kds', client', e')"
  shows "unreported e e' \<and> (if r = 0 then handed kds kds' xcmd else not_handed kds kds')"
proof -
  obtain r1 k1 cl1 x1 where a: "acquire_loop gs kds d client (e_heap e xcmd) = Some (r1, k1, cl1, x1)"
    using assms by (auto simp: kds_cu_dispatch_def bind_eq_Some_conv)
  have pq: "x_pq (xrt_cu_submit x xcmd) = x_pq x @ [xcmd]" for x :: "'a xrt_cu"
    by (simp add: xrt_cu_submit_def Let_def)
  show ?thesis
    using assms acquire_loop_not_handed [OF a] timestamp_unreported [of "e\<lparr>e_heap := (e_heap e)(xcmd := x1)\<rparr>" xcmd KDS_QUEUED]
    by (auto simp: kds_cu_dispatch_def a bind_eq_Some_conv Let_def upd_cu_def pq outcome_defs split: if_splits)
qed

lemma hpq_pq: "x_pq (xrt_cu_hpq_submit x c) = x_pq x" "xrt_cu_hpq_wait x = Some x' \<Longrightarrow> x_pq x' = x_pq x"
  by (auto simp: xrt_cu_hpq_submit_def xrt_cu_hpq_wait_def split: if_splits)

lemma abort_loop_outcome:
  "abort_loop (process_hpq F) d is kds e xcmd = Some (kds', e') \<Longrightarrow> reported e e' xcmd \<and> not_handed kds kds'"
proof (induction "is" arbitrary: kds e)
  case Nil
  then show ?case by (auto simp: outcome_defs)
next
  case (Cons i "is")
  show ?case
  proof (cases "m_xcus (cu_mgmt_of kds d) i")
    case None
    then show ?thesis using Cons by simp
  next
    case (Some p)
    then obtain x1 e1 x2 where run: "process_hpq F (xrt_cu_hpq_submit (k_cus kds p) xcmd) e = Some (x1, e1)"
      and w: "xrt_cu_hpq_wait x1 = Some x2"
      and rest: "if kc_status (e_heap e1 xcmd) = KDS_NEW then abort_loop (process_hpq F) d is (upd_cu kds p x2) e1 xcmd = Some (kds', e')
        else (kds' = upd_cu kds p x2 \<or> kds' = (upd_cu kds p x2)\<lparr>k_bad_state := True\<rparr>) \<and>
             e' = report e1 xcmd (kc_status (e_heap e1 xcmd))"
      using Cons.prems by (auto simp: bind_eq_Some_conv Let_def split: if_splits)
    have same: "not_handed kds (upd_cu kds p x2)" "unreported e e1"
      using process_hpq_quiet [OF run] hpq_pq(2) [OF w]
      by (auto simp: quiet_def hpq_pq(1) not_handed_def unreported_def upd_cu_def)
    show ?thesis
    proof (cases "kc_status (e_heap e1 xcmd) = KDS_NEW")
      case True
      then show ?thesis using rest Cons.IH [of "upd_cu kds p x2" e1] same
        by (auto simp: not_handed_def unreported_def reported_def)
    next
      case False
      then show ?thesis using rest same by (auto simp: outcome_defs)
    qed
  qed
qed

lemma submit_cu_outcome:
  assumes "kds_submit_cu (process_hpq F) gs kds d client e xcmd = Some (r, kds', client', e')"
  shows "if r = 0 then handed kds kds' xcmd \<and> unreported e e' \<or> not_handed kds kds' \<and> reported e e' xcmd
    else not_handed kds kds' \<and> unreported e e'"
proof (cases "kc_opcode (e_heap e xcmd) \<in> {OP_START, OP_START_SK}")
  case True
  then obtain k1 where "kds_cu_dispatch gs kds d client e xcmd = Some (r, k1, client', e')"
    and "kds' = k1 \<or> kds' = k1\<lparr>k_polling_start := True\<rparr>"
    using assms by (auto simp: kds_submit_cu_def start_cmd_def bind_eq_Some_conv split: if_splits)
  with dispatch_outcome [of gs kds d client e xcmd r k1 client' e'] show ?thesis
    by (auto simp: handed_def not_handed_def split: if_splits)
next
  case False
  then show ?thesis
    using assms abort_loop_outcome [of F d "[0..<MAX_CUS]" kds e xcmd kds' e']
    by (cases "kc_opcode (e_heap e xcmd)")
       (auto simp: kds_submit_cu_def kds_cu_abort_cmd_def bind_eq_Some_conv outcome_defs)
qed

lemma submit_ert_outcome:
  assumes "kds_submit_ert gs kds client e xcmd = Some (r, kds', client', e')"
  shows "if r = 0 then handed kds kds' xcmd \<and> unreported e e' \<or> not_handed kds kds' \<and> reported e e' xcmd
    else not_handed kds kds' \<and> unreported e e'"
proof (cases "kc_opcode (e_heap e xcmd) = OP_START")
  case True
  then obtain r1 k1 x1 where a: "acquire_loop gs kds DOMAIN_PL client (e_heap e xcmd) = Some (r1, k1, client', x1)"
    and b: "if r1 < 0 then r = r1 \<and> kds' = k1 \<and> e' = e\<lparr>e_heap := (e_heap e)(xcmd := x1)\<rparr>
      else r = 0 \<and> kds' = k1\<lparr>k_ert_log := k_ert_log k1 @ [ErtSubmit xcmd]\<rparr> \<and>
           e' = env_timestamp (e\<lparr>e_heap := (e_heap e)(xcmd := x1)\<rparr>) xcmd KDS_QUEUED"
    using assms by (auto simp: kds_submit_ert_def bind_eq_Some_conv Let_def split: if_splits)
  show ?thesis
    using acquire_loop_not_handed [OF a] b timestamp_unreported [of "e\<lparr>e_heap := (e_heap e)(xcmd := x1)\<rparr>" xcmd KDS_QUEUED]
    by (auto simp: outcome_defs split: if_splits)
next
  case False
  then show ?thesis
    using assms timestamp_unreported [of e xcmd KDS_QUEUED]
    by (cases "kc_opcode (e_heap e xcmd)")
       (auto simp: kds_submit_ert_def bind_eq_Some_conv Let_def outcome_defs split: if_splits)
qed

text \<open>
  C25. \<open>kds_add_command\<close> deals with a command exactly once. Either it returns 0 and hands the command
  over, to the pending queue of one CU or to the ERT, and does not report it; or it reports the command
  once, frees it once, and hands it to nobody.
\<close>

theorem add_command_once:
  assumes "kds_add_command (process_hpq F) gs kds client e xcmd = Some (r, kds', client', e')"
  shows "(r = 0 \<and> handed kds kds' xcmd \<and> unreported e e') \<or> (not_handed kds kds' \<and> reported e e' xcmd)"
proof -
  let ?out = "\<lambda>r k e'. if r = 0 then handed kds k xcmd \<and> unreported e e' \<or> not_handed kds k \<and> reported e e' xcmd
    else not_handed kds k \<and> unreported e e'"
  obtain e1 where r: "(if kc_type (e_heap e xcmd) = KDS_CU then kds_submit_cu (process_hpq F) gs kds DOMAIN_PL client e xcmd
      else if kc_type (e_heap e xcmd) = KDS_SCU then kds_submit_cu (process_hpq F) gs kds DOMAIN_PS client e xcmd
      else if kc_type (e_heap e xcmd) = KDS_ERT then kds_submit_ert gs kds client e xcmd
      else Some (- 22, kds, client, e)) = Some (r, kds', client', e1)"
    and e': "e' = (if r \<noteq> 0 then report e1 xcmd KDS_ERROR else e1)"
    using assms by (auto simp: kds_add_command_def bind_eq_Some_conv Let_def)
  have "?out r kds' e1"
    using r by (auto split: if_splits dest!: submit_cu_outcome submit_ert_outcome simp: not_handed_def unreported_def)
  with e' show ?thesis by (auto simp: outcome_defs split: if_splits)
qed

definition demo_fa_cu :: "unit xrt_cu_fa xrt_cu" where
  "demo_fa_cu = xrt_cu_zalloc (x_info (demo_cu CTRL_FA)) fa_example_core"

definition demo_start :: kds_command where
  "demo_start = demo_cmd\<lparr>kc_opcode := OP_START\<rparr>"

lemma demo_start_cus: "map unat (cu_mask_to_cu_idx demo_start) = [0]"
  unfolding cu_mask_to_cu_idx_def
  by (subst cu_mask_bits) (simp_all add: demo_start_def demo_cmd_def kds_alloc_command_def upt_rec)

lemma demo_start_acquire:
  "\<exists>k cl. acquire_cu_idx False (demo_sched demo_fa_cu) DOMAIN_PL demo_holder demo_start
     = Some (0, k, cl, demo_start\<lparr>kc_cu_idx := 0\<rparr>) \<and> m_xcus (k_cu_mgmt k) 0 = Some 0"
proof -
  have "length (cu_mask_to_cu_idx demo_start) = 1" using arg_cong [OF demo_start_cus, of length] by simp
  then show ?thesis
    unfolding acquire_cu_idx_def demo_start_cus
    by (simp add: demo_defs demo_holder_def demo_fa_cu_def demo_cu_def xrt_cu_zalloc_def kds_client_domain_refcnt_def
        kds_test_refcnt_def cu_mgmt_of_def set_cu_mgmt_def min_usage_cu_def)
qed

lemma demo_add_command:
  "\<exists>k cl e'. kds_add_command run [] (demo_sched demo_fa_cu) demo_holder (kenv_start (\<lambda>_. demo_start) (\<lambda>_. 0)) 3
     = Some (0, k, cl, e')"
proof -
  have "kc_opcode demo_start = OP_START" "kc_type demo_start = 0"
    by (simp_all add: demo_start_def demo_cmd_def kds_alloc_command_def)
  with demo_start_acquire show ?thesis
    by (auto simp: kds_add_command_def kds_submit_cu_def start_cmd_def kds_cu_dispatch_def kenv_start_def cu_mgmt_of_def Let_def)
qed

text \<open>Witness of C25.\<close>

theorem add_command_once_witness:
  "\<exists>r k cl e'. kds_add_command (process_hpq (xrt_cu_fa_funcs fa_example_io False)) [] (demo_sched demo_fa_cu) demo_holder
       (kenv_start (\<lambda>_. demo_start) (\<lambda>_. 0)) 3 = Some (r, k, cl, e') \<and>
     ((r = 0 \<and> handed (demo_sched demo_fa_cu) k 3 \<and> unreported (kenv_start (\<lambda>_. demo_start) (\<lambda>_. 0)) e') \<or>
      (not_handed (demo_sched demo_fa_cu) k \<and> reported (kenv_start (\<lambda>_. demo_start) (\<lambda>_. 0)) e' 3))"
  using demo_add_command add_command_once by blast

section \<open>An abort ends at the first busy CU\<close>

lemma drain_env:
  assumes "drain_complete F log xcu e = Some s" shows "\<not> log \<Longrightarrow> snd s = e"
proof (induction rule: drain_complete.raw_induct [OF _ assms, rotated])
  case (1 f F log xcu e s)
  then show ?case by (cases "fst (xrt_cu_get_complete F xcu)") (auto simp: Let_def)
qed

lemma try_abort_submitted:
  assumes "try_abort_cmd F xcu e c = Some (x1, e1)" and "num_sq xcu \<noteq> 0"
    and "\<forall>t\<in>set (x_rq xcu). take 1 (kc_info (e_heap e c)) \<noteq> [kc_exec_bo_handle (e_heap e t)]"
  shows "kc_status (e_heap e1 c) \<in> {KDS_COMPLETED, KDS_TIMEOUT}"
proof -
  obtain handle rest where i: "kc_info (e_heap e c) = handle # rest"
    using assms(1) by (auto simp: try_abort_cmd_def split: list.splits)
  obtain r x2 e2 where a: "xrt_cu_cmd_abort F xcu e (abort_handle handle) = (r, x2, e2)" by (metis prod_cases3)
  have "find (\<lambda>t. kc_exec_bo_handle (e_heap e t) = handle) (x_rq xcu) = None"
    using assms(3) by (auto simp: i find_None_iff)
  then have "drain_complete F False (if r \<noteq> 0 then x2\<lparr>bad_state := True\<rparr> else x2)
      (e2\<lparr>e_heap := set_cmd_status (e_heap e2) c (if r \<noteq> 0 then KDS_TIMEOUT else KDS_COMPLETED)\<rparr>) = Some (x1, e1)"
    using assms(1,2) by (simp add: try_abort_cmd_def i a Let_def)
  from drain_env [OF this] show ?thesis by (simp add: set_cmd_status_def)
qed

text \<open>
  C40. If the CU in slot 0 has a command that is submitted to its hardware, it ends every abort that is
  not in its run queue, also of a command of another CU: the abort is reported as done or as timed out,
  no other CU has seen it, and after a time-out the device counts as bad.
\<close>

theorem abort_hits_first_busy_cu:
  assumes "m_xcus (cu_mgmt_of kds d) 0 = Some p" and "num_sq (k_cus kds p) \<noteq> 0"
    and "x_hpq (k_cus kds p) = []" and "num_hpq (k_cus kds p) = 0" and "ci_protocol (x_info (k_cus kds p)) \<noteq> CTRL_NONE"
    and "kc_opcode (e_heap e xcmd) = OP_ABORT"
    and "\<forall>t\<in>set (x_rq (k_cus kds p)). take 1 (kc_info (e_heap e xcmd)) \<noteq> [kc_exec_bo_handle (e_heap e t)]"
    and "kds_cu_abort_cmd (process_hpq F) kds d e xcmd = Some (kds', e')"
  shows "\<exists>st\<in>{KDS_COMPLETED, KDS_TIMEOUT}. e_notified e' = e_notified e @ [(xcmd, st)] \<and>
    k_bad_state kds' = (k_bad_state kds \<or> st = KDS_TIMEOUT) \<and> (\<forall>q. q \<noteq> p \<longrightarrow> k_cus kds' q = k_cus kds q)"
proof -
  let ?x = "xrt_cu_hpq_submit (k_cus kds p) xcmd"
  have slots: "[0..<MAX_CUS] = 0 # [1..<MAX_CUS]" by (simp add: upt_rec)
  obtain x1 e1 x2 where run: "process_hpq F ?x e = Some (x1, e1)" and w: "xrt_cu_hpq_wait x1 = Some x2"
    and rest: "kc_status (e_heap e1 xcmd) \<noteq> KDS_NEW \<Longrightarrow>
      kds' = (if kc_status (e_heap e1 xcmd) = KDS_TIMEOUT then (upd_cu kds p x2)\<lparr>k_bad_state := True\<rparr> else upd_cu kds p x2) \<and>
      e' = report e1 xcmd (kc_status (e_heap e1 xcmd))"
    using assms(1,8) by (auto simp: kds_cu_abort_cmd_def slots bind_eq_Some_conv Let_def split: if_splits)
  have x: "x_hpq ?x = [xcmd]" "num_hpq ?x = 1" "num_sq ?x = num_sq (k_cus kds p)" "x_rq ?x = x_rq (k_cus kds p)"
    using assms(3-5) by (simp_all add: xrt_cu_hpq_submit_def)
  obtain x3 where "try_abort_cmd F ?x e xcmd = Some (x3, e1)"
    using run assms(6) by (auto simp: process_hpq_def x bind_eq_Some_conv)
  from try_abort_submitted [OF this] assms(2,7) x have st: "kc_status (e_heap e1 xcmd) \<in> {KDS_COMPLETED, KDS_TIMEOUT}" by simp
  moreover have "e_notified e1 = e_notified e" using process_hpq_quiet [OF run] by (simp add: quiet_def)
  ultimately show ?thesis using rest
    by (intro bexI [OF _ st]) (auto simp: upd_cu_def report_def notify_host_def free_cmd_def)
qed

definition demo_busy_cu :: "unit xrt_cu_fa xrt_cu" where
  "demo_busy_cu = demo_fa_cu\<lparr>num_sq := 1, x_core := fa_example_core\<lparr>f_submitted := [5]\<rparr>\<rparr>"

definition demo_abort :: kds_command where
  "demo_abort = demo_cmd\<lparr>kc_opcode := OP_ABORT, kc_info := [9]\<rparr>"

lemma demo_drain:
  "f_completed (x_core x) = [] \<Longrightarrow> drain_complete (xrt_cu_fa_funcs io echo) log x e = Some (x, e)"
  by (subst drain_complete.simps) (simp add: xrt_cu_get_complete_def xrt_cu_fa_funcs_def cu_fa_get_complete_def)

lemma demo_abort_run:
  "\<exists>kds' e'. kds_cu_abort_cmd (process_hpq (xrt_cu_fa_funcs fa_example_io False)) (demo_sched demo_busy_cu) DOMAIN_PL
     (kenv_start ((\<lambda>_. demo_start)(7 := demo_abort)) (\<lambda>_. 0)) 7 = Some (kds', e')"
proof -
  have slots: "[0..<MAX_CUS] = 0 # [1..<MAX_CUS]" by (simp add: upt_rec)
  have c: "kc_info demo_abort = [9]" "kc_opcode demo_abort = OP_ABORT" "kc_exec_bo_handle demo_start = 0"
    by (simp_all add: demo_abort_def demo_start_def demo_cmd_def kds_alloc_command_def)
  have x: "x_hpq demo_busy_cu = []" "num_hpq demo_busy_cu = 0" "num_sq demo_busy_cu = 1" "x_rq demo_busy_cu = []"
    "f_submitted (x_core demo_busy_cu) = [5]" "f_completed (x_core demo_busy_cu) = []" "x_comp demo_busy_cu = 0"
    "ci_protocol (x_info demo_busy_cu) = CTRL_FA"
    by (simp_all add: demo_busy_cu_def demo_fa_cu_def demo_cu_def xrt_cu_zalloc_def fa_example_core_def)
  have a: "fn_abort (xrt_cu_fa_funcs fa_example_io False) = Some cu_fa_abort" by (simp add: xrt_cu_fa_funcs_def)
  show ?thesis
    by (simp add: kds_cu_abort_cmd_def slots cu_mgmt_of_def demo_sched_def demo_mgmt_def kenv_start_def process_hpq_def
        xrt_cu_hpq_submit_def xrt_cu_hpq_wait_def try_abort_cmd_def xrt_cu_cmd_abort_def a cu_fa_abort_def abort_handle_def
        x c Let_def demo_drain set_cmd_status_def)
qed

text \<open>Witness of C40: a CU with fast adapter runs a command with handle 0, the abort is for handle 9.\<close>

theorem abort_hits_first_busy_cu_witness:
  "\<exists>kds' e' st. st \<in> {KDS_COMPLETED, KDS_TIMEOUT} \<and>
     kds_cu_abort_cmd (process_hpq (xrt_cu_fa_funcs fa_example_io False)) (demo_sched demo_busy_cu) DOMAIN_PL
       (kenv_start ((\<lambda>_. demo_start)(7 := demo_abort)) (\<lambda>_. 0)) 7 = Some (kds', e') \<and> e_notified e' = [(7, st)] \<and>
     k_bad_state kds' = (st = KDS_TIMEOUT)"
proof -
  obtain kds' e' where run: "kds_cu_abort_cmd (process_hpq (xrt_cu_fa_funcs fa_example_io False)) (demo_sched demo_busy_cu) DOMAIN_PL
      (kenv_start ((\<lambda>_. demo_start)(7 := demo_abort)) (\<lambda>_. 0)) 7 = Some (kds', e')"
    using demo_abort_run by blast
  have "m_xcus (cu_mgmt_of (demo_sched demo_busy_cu) DOMAIN_PL) 0 = Some 0" by (simp add: demo_defs cu_mgmt_of_def)
  from abort_hits_first_busy_cu [OF this _ _ _ _ _ _ run]
  show ?thesis using run
    by (auto simp: demo_sched_def demo_busy_cu_def demo_fa_cu_def demo_cu_def xrt_cu_zalloc_def kenv_start_def demo_abort_def)
qed

end
