(* ===== verification/Cu_Hls.thy ===== *)
theory Cu_Hls
  imports Cu_Contract
begin

text \<open>
  The HLS compute unit of \<open>cu_hls.c\<close>: a core of \<open>xrt_cu.c\<close>. The module parameter \<open>kds_echo\<close> is
  the argument \<open>echo\<close>.
\<close>

section \<open>State and registers\<close>

record 'h xrt_cu_hls =
  h_hw :: 'h
  h_max_credits :: int
  h_credits :: int
  h_run_cnts :: int
  h_ctrl_chain :: bool
  h_sw_reset :: bool
  h_done :: u32
  h_submitted :: "nat list"
  h_completed :: "nat list"

abbreviation (input) HLS_CTRL :: u32 where "HLS_CTRL \<equiv> 0"
abbreviation (input) HLS_GIE :: u32 where "HLS_GIE \<equiv> 4"
abbreviation (input) HLS_IER :: u32 where "HLS_IER \<equiv> 8"
abbreviation (input) HLS_ISR :: u32 where "HLS_ISR \<equiv> 0xC"
abbreviation (input) HLS_ARGS :: u32 where "HLS_ARGS \<equiv> 0x10"

definition hls_read32 :: "'h mmio \<Rightarrow> 'h xrt_cu_hls \<Rightarrow> u32 \<Rightarrow> u32 \<times> 'h xrt_cu_hls" where
  "hls_read32 io cu reg = (let (v, hw) = io_read io reg (h_hw cu) in (v, cu\<lparr>h_hw := hw\<rparr>))"

definition hls_write32 :: "'h mmio \<Rightarrow> 'h xrt_cu_hls \<Rightarrow> u32 \<Rightarrow> u32 \<Rightarrow> 'h xrt_cu_hls" where
  "hls_write32 io cu reg val = cu\<lparr>h_hw := io_write io reg val (h_hw cu)\<rparr>"

definition hls_move_to_complete ::
  "kds_status \<Rightarrow> cmd_heap \<times> 'h xrt_cu_hls \<Rightarrow> cmd_heap \<times> 'h xrt_cu_hls" where
  "hls_move_to_complete status = (\<lambda>(h, cu).
     case h_submitted cu of
       [] \<Rightarrow> (h, cu)
     | xcmd # rest \<Rightarrow> (set_cmd_status h xcmd status,
         cu\<lparr>h_run_cnts := h_run_cnts cu - 1, h_submitted := rest, h_completed := h_completed cu @ [xcmd]\<rparr>))"

section \<open>Credits\<close>

definition cu_hls_alloc_credit :: "'h xrt_cu_hls \<Rightarrow> int \<times> 'h xrt_cu_hls" where
  "cu_hls_alloc_credit cu =
     (if h_credits cu \<noteq> 0 then (h_credits cu, cu\<lparr>h_credits := h_credits cu - 1\<rparr>) else (0, cu))"

definition cu_hls_free_credit :: "u32 \<Rightarrow> 'h xrt_cu_hls \<Rightarrow> 'h xrt_cu_hls" where
  "cu_hls_free_credit n cu =
     (let c = int_plus_u32 (h_credits cu) n
      in cu\<lparr>h_credits := (if c > h_max_credits cu then h_max_credits cu else c)\<rparr>)"

definition cu_hls_peek_credit :: "'h xrt_cu_hls \<Rightarrow> int" where
  "cu_hls_peek_credit cu = h_credits cu"

section \<open>Configuration\<close>

text \<open>
  The writes that a payload asks for, as pairs of offset and value; \<open>None\<close> where the loop reads
  beyond the buffer.
\<close>

definition regmap_writes :: "u32 list \<Rightarrow> nat \<Rightarrow> (u32 \<times> u32) list option" where
  "regmap_writes data num_reg =
     (if num_reg \<le> length data then Some (map (\<lambda>i. (HLS_ARGS + of_nat i * 4, data ! i)) [0..<num_reg])
      else None)"

definition key_val_writes :: "u32 list \<Rightarrow> nat \<Rightarrow> (u32 \<times> u32) list option" where
  "key_val_writes data num_reg =
     (let n = (num_reg + 1) div 2
      in if 2 * n \<le> length data then Some (map (\<lambda>i. (data ! (2 * i), data ! (2 * i + 1))) [0..<n])
         else None)"

text \<open>
  The payload of an XGQ start command follows its two header words; its size in bytes is the
  \<open>count\<close> field of the header.
\<close>

definition cu_hls_xgq_start :: "u32 list \<Rightarrow> (u32 \<times> u32) list option" where
  "cu_hls_xgq_start data = regmap_writes (drop 2 data) (unat (get_field 16 15 (data ! 0)) div 4)"

definition cu_hls_xgq_start_kv :: "u32 list \<Rightarrow> (u32 \<times> u32) list option" where
  "cu_hls_xgq_start_kv data = key_val_writes (drop 2 data) (unat (get_field 16 15 (data ! 0)) div 4)"

text \<open>The result \<open>Inl\<close> is an error code, \<open>Inr\<close> the writes.\<close>

definition hls_config_writes :: "u32 list \<Rightarrow> u64 \<Rightarrow> u32 \<Rightarrow> (int + (u32 \<times> u32) list) option" where
  "hls_config_writes data sz ty =
     (let num_reg = unat sz div 4 in
      if ty = REGMAP then map_option Inr (regmap_writes data num_reg)
      else if ty = KEY_VAL then map_option Inr (key_val_writes data num_reg)
      else if ty = XGQ_CMD then
        (if data = [] then None
         else let opcode = get_field 0 16 (data ! 0) in
           if opcode = XGQ_CMD_OP_START_CUIDX then map_option Inr (cu_hls_xgq_start data)
           else if opcode = XGQ_CMD_OP_START_CUIDX_KV then map_option Inr (cu_hls_xgq_start_kv data)
           else Some (Inl (- 22)))
      else Some (Inr []))"

definition cu_hls_configure ::
  "'h mmio \<Rightarrow> bool \<Rightarrow> u32 list \<Rightarrow> u64 \<Rightarrow> u32 \<Rightarrow> 'h xrt_cu_hls \<Rightarrow> (int \<times> 'h xrt_cu_hls) option" where
  "cu_hls_configure io echo data sz ty cu =
     (if echo then Some (0, cu)
      else case hls_config_writes data sz ty of
        None \<Rightarrow> None
      | Some (Inl err) \<Rightarrow> Some (err, cu)
      | Some (Inr ws) \<Rightarrow> Some (0, fold (\<lambda>(reg, val) cu. hls_write32 io cu reg val) ws cu))"

definition cu_hls_start :: "'h mmio \<Rightarrow> bool \<Rightarrow> 'h xrt_cu_hls \<Rightarrow> 'h xrt_cu_hls" where
  "cu_hls_start io echo cu =
     (let c1 = cu\<lparr>h_run_cnts := h_run_cnts cu + 1\<rparr>
      in if echo then c1 else hls_write32 io c1 HLS_CTRL CU_AP_START)"

section \<open>Status\<close>

abbreviation no_status :: xcu_status where
  "no_status \<equiv> \<lparr>num_done = 0, num_ready = 0, new_status = 0, st_rcode = 0\<rparr>"

definition cu_hls_ctrl_hs_check ::
  "'h mmio \<Rightarrow> bool \<Rightarrow> cmd_heap \<Rightarrow> 'h xrt_cu_hls \<Rightarrow> xcu_status \<times> cmd_heap \<times> 'h xrt_cu_hls" where
  "cu_hls_ctrl_hs_check io force h cu =
     (if \<not> force \<and> h_run_cnts cu = 0 then (no_status, h, cu)
      else let (ctrl_reg, c1) = hls_read32 io cu HLS_CTRL in
        if ctrl_reg AND CU_AP_DONE \<noteq> 0
        then (no_status\<lparr>num_done := 1, num_ready := 1, new_status := ctrl_reg\<rparr>,
              hls_move_to_complete KDS_COMPLETED (h, c1))
        else (no_status\<lparr>new_status := ctrl_reg\<rparr>, h, c1))"

definition cu_hls_ctrl_chain_check ::
  "'h mmio \<Rightarrow> bool \<Rightarrow> cmd_heap \<Rightarrow> 'h xrt_cu_hls \<Rightarrow> xcu_status \<times> cmd_heap \<times> 'h xrt_cu_hls" where
  "cu_hls_ctrl_chain_check io force h cu =
     (let used_credit = h_max_credits cu - h_credits cu in
      if \<not> force \<and> used_credit = 0 \<and> h_run_cnts cu = 0 then (no_status, h, cu)
      else let done0 = h_done cu;
               (ctrl_reg, c1) = hls_read32 io (cu\<lparr>h_done := 0\<rparr>) HLS_CTRL;
               ready_reg = (if used_credit \<noteq> 0 \<and> ctrl_reg AND CU_AP_START = 0 then 1 else 0);
               (done_reg, c2) = (if ctrl_reg AND CU_AP_DONE \<noteq> 0
                                 then (done0 + 1, hls_write32 io c1 HLS_CTRL CU_AP_CONTINUE)
                                 else (done0, c1))
           in (no_status\<lparr>num_done := done_reg, num_ready := ready_reg, new_status := ctrl_reg\<rparr>,
               (hls_move_to_complete KDS_COMPLETED ^^ unat done_reg) (h, c2)))"

definition cu_hls_check ::
  "'h mmio \<Rightarrow> bool \<Rightarrow> bool \<Rightarrow> cmd_heap \<Rightarrow> 'h xrt_cu_hls \<Rightarrow> xcu_status \<times> cmd_heap \<times> 'h xrt_cu_hls" where
  "cu_hls_check io echo force h cu =
     (if echo
      then (no_status\<lparr>num_done := 1, num_ready := 1, new_status := CU_AP_IDLE\<rparr>,
            hls_move_to_complete KDS_COMPLETED (h, cu))
      else if h_ctrl_chain cu then cu_hls_ctrl_chain_check io force h cu
      else cu_hls_ctrl_hs_check io force h cu)"

section \<open>Interrupts\<close>

definition cu_hls_enable_intr :: "'h mmio \<Rightarrow> u32 \<Rightarrow> 'h xrt_cu_hls \<Rightarrow> 'h xrt_cu_hls" where
  "cu_hls_enable_intr io intr_type cu = hls_write32 io (hls_write32 io cu HLS_GIE 1) HLS_IER intr_type"

definition cu_hls_disable_intr :: "'h mmio \<Rightarrow> u32 \<Rightarrow> 'h xrt_cu_hls \<Rightarrow> 'h xrt_cu_hls" where
  "cu_hls_disable_intr io intr_type cu =
     (let (orig, c1) = hls_read32 io cu HLS_IER
      in hls_write32 io (hls_write32 io c1 HLS_GIE 0) HLS_IER (orig AND NOT intr_type))"

definition cu_hls_clear_intr :: "'h mmio \<Rightarrow> 'h xrt_cu_hls \<Rightarrow> u32 \<times> 'h xrt_cu_hls" where
  "cu_hls_clear_intr io cu =
     (if h_max_credits cu = 1
      then let (isr, c1) = hls_read32 io cu HLS_ISR;
               c2 = (if h_ctrl_chain c1 \<and> isr AND CU_INTR_DONE \<noteq> 0
                     then let (ctrl_reg, c) = hls_read32 io c1 HLS_CTRL
                          in if ctrl_reg AND CU_AP_DONE \<noteq> 0
                             then hls_write32 io (c\<lparr>h_done := h_done c + 1\<rparr>) HLS_CTRL CU_AP_CONTINUE
                             else c
                     else c1)
           in (isr, hls_write32 io c2 HLS_ISR isr)
      else hls_read32 io cu HLS_ISR)"

section \<open>Reset, submission and abort\<close>

definition cu_hls_reset :: "'h mmio \<Rightarrow> 'h xrt_cu_hls \<Rightarrow> 'h xrt_cu_hls" where
  "cu_hls_reset io cu = hls_write32 io cu HLS_CTRL CU_AP_SW_RESET"

definition cu_hls_reset_done :: "'h mmio \<Rightarrow> 'h xrt_cu_hls \<Rightarrow> bool \<times> 'h xrt_cu_hls" where
  "cu_hls_reset_done io cu =
     (let (ctrl_reg, c1) = hls_read32 io cu HLS_CTRL in (ctrl_reg AND CU_AP_SW_RESET = 0, c1))"

definition cu_hls_submit_config ::
  "'h mmio \<Rightarrow> bool \<Rightarrow> nat \<Rightarrow> cmd_heap \<Rightarrow> 'h xrt_cu_hls \<Rightarrow> (int \<times> 'h xrt_cu_hls) option" where
  "cu_hls_submit_config io echo xcmd h cu =
     do { (ret, c1) \<leftarrow> cu_hls_configure io echo (kc_info (h xcmd)) (kc_isize (h xcmd))
                         (kc_payload_type (h xcmd)) cu;
          if ret \<noteq> 0 then Some (ret, c1)
          else Some (ret, c1\<lparr>h_submitted := h_submitted c1 @ [xcmd]\<rparr>) }"

definition cu_hls_get_complete :: "'h xrt_cu_hls \<Rightarrow> nat option \<times> 'h xrt_cu_hls" where
  "cu_hls_get_complete cu =
     (case h_completed cu of [] \<Rightarrow> (None, cu) | xcmd # rest \<Rightarrow> (Some xcmd, cu\<lparr>h_completed := rest\<rparr>))"

text \<open>The loop that waits for the reset; \<open>time\<close> is in microseconds.\<close>

function hls_reset_wait :: "'h mmio \<Rightarrow> int \<Rightarrow> 'h xrt_cu_hls \<Rightarrow> int \<times> 'h xrt_cu_hls" where
  "hls_reset_wait io time cu =
     (let (fin, c1) = cu_hls_reset_done io cu
      in if fin then (time - 1000, c1)
         else if time - 1000 > 0 then hls_reset_wait io (time - 1000) c1 else (time - 1000, c1))"
  by pat_completeness auto
termination
  by (relation "measure (\<lambda>(io, time, cu). nat time)") auto

declare hls_reset_wait.simps [simp del]

definition cu_hls_abort ::
  "'h mmio \<Rightarrow> (kds_command \<Rightarrow> bool) \<Rightarrow> cmd_heap \<Rightarrow> 'h xrt_cu_hls \<Rightarrow> int \<times> cmd_heap \<times> 'h xrt_cu_hls" where
  "cu_hls_abort io match h cu =
     (let (ret, c1) = (if h_sw_reset cu
                       then let (time, c) = hls_reset_wait io 10000000 (cu_hls_reset io cu)
                            in if time \<ge> 0 then (0, c\<lparr>h_credits := h_max_credits c\<rparr>) else (- 16, c)
                       else (- 16, cu));
          moved = filter (\<lambda>xcmd. match (h xcmd)) (h_submitted c1)
      in (ret, fold (\<lambda>xcmd h. set_cmd_status h xcmd KDS_TIMEOUT) moved h,
          c1\<lparr>h_submitted := filter (\<lambda>xcmd. \<not> match (h xcmd)) (h_submitted c1),
             h_completed := h_completed c1 @ moved\<rparr>))"

section \<open>The function table, set-up and removal\<close>

definition xrt_cu_hls_funcs :: "'h mmio \<Rightarrow> bool \<Rightarrow> 'h xrt_cu_hls xcu_funcs" where
  "xrt_cu_hls_funcs io echo =
     \<lparr>alloc_credit = cu_hls_alloc_credit, free_credit = cu_hls_free_credit,
      peek_credit = cu_hls_peek_credit, configure = cu_hls_configure io echo,
      fn_start = cu_hls_start io echo, fn_check = cu_hls_check io echo,
      submit_config = Some (cu_hls_submit_config io echo), get_complete = Some cu_hls_get_complete,
      fn_abort = Some (cu_hls_abort io), fn_reset = cu_hls_reset io,
      reset_done = cu_hls_reset_done io, enable_intr = cu_hls_enable_intr io,
      disable_intr = cu_hls_disable_intr io, clear_intr = cu_hls_clear_intr io\<rparr>"

text \<open>Whether the allocation and the mapping of the registers succeed are arguments.\<close>

definition xrt_cu_hls_init ::
  "'h mmio \<Rightarrow> bool \<Rightarrow> bool \<Rightarrow> 'h \<Rightarrow> 'h xrt_cu_hls xrt_cu \<Rightarrow> 'h xrt_cu_hls xrt_cu res" where
  "xrt_cu_hls_init io alloc_ok map_ok hw xcu =
     (if \<not> alloc_ok \<or> \<not> map_ok then Inl ENOMEM
      else let core = \<lparr>h_hw = hw, h_max_credits = 1, h_credits = 1, h_run_cnts = 0,
                       h_ctrl_chain = (ci_protocol (x_info xcu) = CTRL_CHAIN),
                       h_sw_reset = ci_sw_reset (x_info xcu), h_done = 0,
                       h_submitted = [], h_completed = []\<rparr>;
               x1 = xcu\<lparr>x_core := core\<rparr>
           in if ci_protocol (x_info xcu) = CTRL_NONE then Inr x1
              else let (status, c) = hls_read32 io core HLS_CTRL
                   in Inr (xrt_cu_init (x1\<lparr>x_core := c, x_status := status\<rparr>)))"

definition xrt_cu_hls_fini :: "'h xrt_cu_hls xrt_cu \<Rightarrow> 'h xrt_cu_hls xrt_cu" where
  "xrt_cu_hls_fini xcu = (if ci_protocol (x_info xcu) \<noteq> CTRL_NONE then xrt_cu_fini xcu else xcu)"

section \<open>The core keeps the contract\<close>

text \<open>A command that the core can be configured with: no loop reads beyond its buffer.\<close>

definition hls_cmd_ok :: "bool \<Rightarrow> kds_command \<Rightarrow> bool" where
  "hls_cmd_ok echo k =
     (echo \<or> hls_config_writes (kc_info k) (kc_isize k) (kc_payload_type k) \<noteq> None)"

text \<open>The register accesses change neither list.\<close>

definition hls_same :: "'h xrt_cu_hls \<Rightarrow> 'h xrt_cu_hls \<Rightarrow> bool" where
  "hls_same cu cu' = (h_submitted cu' = h_submitted cu \<and> h_completed cu' = h_completed cu)"

lemma hls_same_read: "hls_same cu (snd (hls_read32 io cu reg))"
  by (simp add: hls_same_def hls_read32_def case_prod_beta)

lemma hls_same_write: "hls_same cu cu' \<Longrightarrow> hls_same cu (hls_write32 io cu' reg val)"
  by (simp add: hls_same_def hls_write32_def)

lemma hls_same_writes:
  "hls_same cu cu' \<Longrightarrow> hls_same cu (fold (\<lambda>(reg, val) cu. hls_write32 io cu reg val) ws cu')"
  by (induction ws arbitrary: cu') (auto intro: hls_same_write)

lemma hls_same_reset_wait: "hls_same cu (snd (hls_reset_wait io time cu))"
proof (induction io time cu rule: hls_reset_wait.induct)
  case (1 io time cu)
  obtain fin c1 where r: "cu_hls_reset_done io cu = (fin, c1)" by (cases "cu_hls_reset_done io cu")
  have s: "hls_same cu c1"
    using r hls_same_read [of cu io HLS_CTRL] by (auto simp: cu_hls_reset_done_def case_prod_beta)
  then show ?case
    using 1 [OF r [symmetric] refl] r
    by (subst hls_reset_wait.simps) (auto simp: hls_same_def Let_def)
qed

lemma hls_move_to_complete_moves:
  "hls_move_to_complete st (h, cu) = (h', cu') \<Longrightarrow>
     heap_frame h h' \<and> h_completed cu' @ h_submitted cu' = h_completed cu @ h_submitted cu"
  by (auto simp: hls_move_to_complete_def heap_frame_set_status split: list.splits)

lemma hls_move_many:
  "(hls_move_to_complete st ^^ n) (h, cu) = (h', cu') \<Longrightarrow>
     heap_frame h h' \<and> h_completed cu' @ h_submitted cu' = h_completed cu @ h_submitted cu"
proof (induction n arbitrary: h' cu')
  case 0
  then show ?case by simp
next
  case (Suc n)
  obtain h1 c1 where 1: "(hls_move_to_complete st ^^ n) (h, cu) = (h1, c1)" by (metis prod.exhaust)
  then have "hls_move_to_complete st (h1, c1) = (h', cu')" using Suc.prems by simp
  then show ?case
    using Suc.IH [OF 1] hls_move_to_complete_moves heap_frame_trans by metis
qed

lemma hls_check_moves:
  assumes "cu_hls_check io echo force h cu = (st, h', cu')"
  shows "heap_frame h h' \<and> h_completed cu' @ h_submitted cu' = h_completed cu @ h_submitted cu"
proof -
  obtain ctrl c1 where r: "hls_read32 io cu HLS_CTRL = (ctrl, c1)" by (metis prod.exhaust)
  obtain ctrl' c1' where r': "hls_read32 io (cu\<lparr>h_done := 0\<rparr>) HLS_CTRL = (ctrl', c1')"
    by (metis prod.exhaust)
  have same: "hls_same cu c1" "hls_same cu c1'"
    using hls_same_read [of cu io HLS_CTRL] hls_same_read [of "cu\<lparr>h_done := 0\<rparr>" io HLS_CTRL] r r'
    by (simp_all add: hls_same_def)
  let ?ok = "heap_frame h h' \<and> h_completed cu' @ h_submitted cu' = h_completed cu @ h_submitted cu"
  have hs: ?ok if "cu_hls_ctrl_hs_check io force h cu = (st, h', cu')"
    using that same(1) hls_move_to_complete_moves [of KDS_COMPLETED h c1 h' cu']
    by (auto simp: cu_hls_ctrl_hs_check_def r hls_same_def split: if_splits)
  have "hls_same cu (hls_write32 io c1' HLS_CTRL CU_AP_CONTINUE)" by (rule hls_same_write [OF same(2)])
  then have chain: ?ok if "cu_hls_ctrl_chain_check io force h cu = (st, h', cu')"
    using that same(2) hls_move_many
    by (auto simp: cu_hls_ctrl_chain_check_def r' hls_same_def Let_def split: if_splits dest!: hls_move_many)
  show ?ok
    using assms hs chain hls_move_to_complete_moves [of KDS_COMPLETED h cu h' cu']
    by (auto simp: cu_hls_check_def split: if_splits)
qed

lemma hls_submit_config_cases:
  assumes "cu_hls_submit_config io echo t h cu = Some (r, cu')"
  shows "h_completed cu' = h_completed cu
    \<and> h_submitted cu' = (if r = 0 then h_submitted cu @ [t] else h_submitted cu)"
  using assms hls_same_writes [of cu cu io]
  by (auto simp: cu_hls_submit_config_def cu_hls_configure_def hls_same_def
      split: if_splits option.splits sum.splits)

lemma hls_abort_moves:
  assumes "cu_hls_abort io match h cu = (r, h', cu')"
  shows "heap_frame h h' \<and> h_submitted cu' = filter (\<lambda>t. \<not> match (h t)) (h_submitted cu)
    \<and> h_completed cu' = h_completed cu @ filter (\<lambda>t. match (h t)) (h_submitted cu)"
proof -
  obtain time c where w: "hls_reset_wait io 10000000 (cu_hls_reset io cu) = (time, c)"
    by (metis prod.exhaust)
  have "hls_same cu (cu_hls_reset io cu)"
    unfolding cu_hls_reset_def by (rule hls_same_write) (simp add: hls_same_def)
  then have "hls_same cu c"
    using hls_same_reset_wait [of "cu_hls_reset io cu" io 10000000] w by (simp add: hls_same_def)
  then show ?thesis
    using assms by (auto simp: cu_hls_abort_def w hls_same_def heap_frame_fold_status Let_def split: if_splits)
qed

lemma hls_quiet_functions:
  "hls_same c (snd (cu_hls_alloc_credit c))" "hls_same c (cu_hls_free_credit n c)"
  "hls_same c (cu_hls_start io echo c)" "hls_same c (cu_hls_enable_intr io w c)"
  "hls_same c (cu_hls_disable_intr io w c)" "hls_same c (snd (cu_hls_clear_intr io c))"
  by (simp_all add: hls_same_def cu_hls_alloc_credit_def cu_hls_free_credit_def cu_hls_start_def
      cu_hls_enable_intr_def cu_hls_disable_intr_def cu_hls_clear_intr_def hls_read32_def hls_write32_def
      case_prod_beta Let_def)

lemma hls_submit_config_returns: "hls_cmd_ok echo (h t) \<Longrightarrow> cu_hls_submit_config io echo t h cu \<noteq> None"
  by (auto simp: hls_cmd_ok_def cu_hls_submit_config_def cu_hls_configure_def split: sum.splits)

lemma hls_get_complete_none:
  "cu_hls_get_complete c = (None, c') \<Longrightarrow> h_completed c = [] \<and> h_completed c' = [] \<and> h_submitted c' = h_submitted c"
  by (auto simp: cu_hls_get_complete_def split: list.splits)

lemma hls_get_complete_some:
  "cu_hls_get_complete c = (Some t, c') \<Longrightarrow> h_completed c = t # h_completed c' \<and> h_submitted c' = h_submitted c"
  by (auto simp: cu_hls_get_complete_def split: list.splits)

lemma hls_cmd_ok_frozen: "frozen k = frozen k' \<Longrightarrow> hls_cmd_ok echo k = hls_cmd_ok echo k'"
  by (drule frozen_payload) (simp add: hls_cmd_ok_def)

interpretation hls: xcu_core "xrt_cu_hls_funcs io echo" h_submitted h_completed "hls_cmd_ok echo"
  "cu_hls_submit_config io echo" cu_hls_get_complete "cu_hls_abort io"
  for io :: "'h mmio" and echo
  by unfold_locales
    (simp_all add: xrt_cu_hls_funcs_def hls_quiet_functions [unfolded hls_same_def] hls_check_moves
      hls_submit_config_cases hls_abort_moves hls_submit_config_returns hls_get_complete_none
      hls_get_complete_some, erule hls_cmd_ok_frozen)

lemma hls_init_fresh:
  assumes "xrt_cu_hls_init io True True hw (xrt_cu_zalloc info c) = Inr x0"
  shows "cu_fresh h_submitted h_completed (x0, kenv_start h clk)"
  using assms
  by (auto simp: xrt_cu_hls_init_def xrt_cu_zalloc_def xrt_cu_init_def xrt_cu_init_ecmd_and_sq_count_def
      hls_read32_def cu_fresh_def cu_order_def cu_counts_def kenv_start_def Let_def case_prod_beta
      split: if_splits)

lemma hls_reset_wait_time: "time mod 1000 = 0 \<Longrightarrow> time > 0 \<Longrightarrow> fst (hls_reset_wait io time cu) \<ge> 0"
proof (induction io time cu rule: hls_reset_wait.induct)
  case (1 io time cu)
  have ge: "time - 1000 \<ge> 0" using zdvd_imp_le [of 1000 time] 1(2,3) by (simp add: mod_eq_0_iff_dvd)
  obtain fin c1 where r: "cu_hls_reset_done io cu = (fin, c1)" by (cases "cu_hls_reset_done io cu")
  have m: "(time - 1000) mod 1000 = 0" using 1(2) by (simp only: minus_mod_self2)
  show ?case
  proof (cases "\<not> fin \<and> time - 1000 > 0")
    case True
    then show ?thesis using 1(1) [OF r [symmetric] refl] m r by (subst hls_reset_wait.simps) simp
  next
    case False
    then show ?thesis using ge r by (subst hls_reset_wait.simps) auto
  qed
qed

text \<open>A run for the examples: one command on a CU whose registers always read 2.\<close>

definition done_io :: "unit mmio" where
  "done_io = \<lparr>io_read = (\<lambda>reg hw. (2, hw)), io_write = (\<lambda>reg val hw. hw)\<rparr>"

definition hls_example_core :: "unit xrt_cu_hls" where
  "hls_example_core = \<lparr>h_hw = (), h_max_credits = 0, h_credits = 0, h_run_cnts = 0, h_ctrl_chain = False,
     h_sw_reset = True, h_done = 0, h_submitted = [], h_completed = []\<rparr>"

lemma hls_example_run:
  "\<exists>x0. xrt_cu_hls_init done_io True True () (xrt_cu_zalloc example_info hls_example_core) = Inr x0
     \<and> cu_reach (xrt_cu_hls_funcs done_io False) (hls_cmd_ok False) h_submitted h_completed
         (x0, kenv_start (\<lambda>_. example_cmd) (\<lambda>_. 0)) [7] True
         (xrt_cu_submit x0 7, kenv_start (\<lambda>_. example_cmd) (\<lambda>_. 0))"
proof -
  obtain x0 where x0: "xrt_cu_hls_init done_io True True () (xrt_cu_zalloc example_info hls_example_core) = Inr x0"
    by (cases "xrt_cu_hls_init done_io True True () (xrt_cu_zalloc example_info hls_example_core)")
      (auto simp: xrt_cu_hls_init_def Let_def case_prod_beta split: if_splits)
  have "hls_cmd_ok False example_cmd"
    by (simp add: hls_cmd_ok_def example_cmd_def kds_alloc_command_def hls_config_writes_def regmap_writes_def)
  then have "cu_reach (xrt_cu_hls_funcs done_io False) (hls_cmd_ok False) h_submitted h_completed
         (x0, kenv_start (\<lambda>_. example_cmd) (\<lambda>_. 0)) ([] @ [7]) True
         (xrt_cu_submit x0 7, kenv_start (\<lambda>_. example_cmd) (\<lambda>_. 0))"
    by (intro cu_reach.submit cu_reach.start) (simp add: kenv_start_def)
  with x0 show ?thesis by simp
qed

lemma start_krnl_returns:
  assumes "length (kc_info x) = n_count p" and "1 + n_extra p + unat (4::u32) \<le> n_count p"
  shows "\<exists>p' x' c'. start_krnl_ecmd2xcmd c p x = Inr (p', x', c')"
proof -
  obtain x1 c1 where s: "start_common c OP_START p x = (x1, c1)" by (metis prod.exhaust)
  obtain x2 where "copy_payload 4 p x1 = Inr x2"
    using copy_payload_ok [of x1 p 4] start_common_fields [OF s] assms by simp
  then show ?thesis by (simp add: start_krnl_ecmd2xcmd_def s Let_def)
qed

section \<open>Properties\<close>

text \<open>
  C6. No command given to an HLS compute unit is lost, duplicated or freed too early: from
  \<open>xrt_cu_hls_init\<close> on, whatever the hardware answers and in whatever order submissions, thread
  passes, interrupts, timers and aborts come, every submitted command is in exactly one place,
  in one of the queues or reported to the host; exactly the reported commands have been freed.
\<close>

theorem hls_no_command_lost:
  assumes "xrt_cu_hls_init io True True hw (xrt_cu_zalloc info c) = Inr x0"
    and "cu_reach (xrt_cu_hls_funcs io echo) (hls_cmd_ok echo) h_submitted h_completed
      (x0, kenv_start h clk) subs calm (x, e)"
  shows "mset (map fst (e_notified e)) + mset (x_cq x) + mset (h_completed (x_core x))
      + mset (h_submitted (x_core x)) + mset (x_rq x) + mset (x_pq x) = mset subs
    \<and> e_freed e = map fst (e_notified e)"
  using hls.cu_reach_inv [OF assms(2) hls_init_fresh [OF assms(1)]]
  by (simp add: cu_run_inv_def cu_order_def ac_simps)

text \<open>Witness of C6: one command is submitted.\<close>

theorem hls_no_command_lost_witness:
  "\<exists>x0. mset (map fst (e_notified (kenv_start (\<lambda>_. example_cmd) (\<lambda>_. 0)))) + mset (x_cq (xrt_cu_submit x0 7))
      + mset (h_completed (x_core (xrt_cu_submit x0 7))) + mset (h_submitted (x_core (xrt_cu_submit x0 7)))
      + mset (x_rq (xrt_cu_submit x0 7)) + mset (x_pq (xrt_cu_submit x0 7)) = mset [7]
    \<and> xrt_cu_hls_init done_io True True () (xrt_cu_zalloc example_info hls_example_core) = Inr x0"
proof -
  obtain x0 where x0: "xrt_cu_hls_init done_io True True () (xrt_cu_zalloc example_info hls_example_core) = Inr x0"
    "cu_reach (xrt_cu_hls_funcs done_io False) (hls_cmd_ok False) h_submitted h_completed
      (x0, kenv_start (\<lambda>_. example_cmd) (\<lambda>_. 0)) [7] True
      (xrt_cu_submit x0 7, kenv_start (\<lambda>_. example_cmd) (\<lambda>_. 0))"
    using hls_example_run by blast
  show ?thesis using hls_no_command_lost [OF x0] x0(1) by blast
qed

text \<open>
  C7. An HLS compute unit reports commands in the order in which they were submitted, as long as
  no abort is asked for: what has been reported, followed by the queues from the completed one
  back to the pending one, is the sequence of submissions.
\<close>

theorem hls_completes_in_order:
  assumes "xrt_cu_hls_init io True True hw (xrt_cu_zalloc info c) = Inr x0"
    and "cu_reach (xrt_cu_hls_funcs io echo) (hls_cmd_ok echo) h_submitted h_completed
      (x0, kenv_start h clk) subs True (x, e)"
  shows "map fst (e_notified e) @ x_cq x @ h_completed (x_core x) @ h_submitted (x_core x)
      @ x_rq x @ x_pq x = subs"
  using hls.cu_reach_inv [OF assms(2) hls_init_fresh [OF assms(1)]]
  by (simp add: cu_run_inv_def cu_order_def)

text \<open>Witness of C7: one command is submitted.\<close>

theorem hls_completes_in_order_witness:
  "\<exists>x0. map fst (e_notified (kenv_start (\<lambda>_. example_cmd) (\<lambda>_. 0))) @ x_cq (xrt_cu_submit x0 7)
      @ h_completed (x_core (xrt_cu_submit x0 7)) @ h_submitted (x_core (xrt_cu_submit x0 7))
      @ x_rq (xrt_cu_submit x0 7) @ x_pq (xrt_cu_submit x0 7) = [7]
    \<and> xrt_cu_hls_init done_io True True () (xrt_cu_zalloc example_info hls_example_core) = Inr x0"
proof -
  obtain x0 where x0: "xrt_cu_hls_init done_io True True () (xrt_cu_zalloc example_info hls_example_core) = Inr x0"
    "cu_reach (xrt_cu_hls_funcs done_io False) (hls_cmd_ok False) h_submitted h_completed
      (x0, kenv_start (\<lambda>_. example_cmd) (\<lambda>_. 0)) [7] True
      (xrt_cu_submit x0 7, kenv_start (\<lambda>_. example_cmd) (\<lambda>_. 0))"
    using hls_example_run by blast
  show ?thesis using hls_completes_in_order [OF x0] x0(1) by blast
qed



text \<open>
  C26. The HLS core can be configured with every command that comes from a valid \<open>ERT_START_CU\<close> or
  \<open>ERT_START_KEY_VAL\<close> packet: neither loop of \<open>cu_hls_configure\<close> reads beyond the buffer of the
  command, also when a list of offset-value pairs has an odd number of words.
\<close>

theorem hls_accepts_valid_packets:
  assumes "ert_valid_opcode p" and "length (kc_info x) = n_count p"
    and "pkt_opcode p = ERT_START_CU \<and> start_krnl_ecmd2xcmd c p x = Inr (p', x', c')
      \<or> pkt_opcode p = ERT_START_KEY_VAL \<and> start_krnl_kv_ecmd2xcmd c p x = Inr (p', x', c')"
  shows "hls_cmd_ok echo x'"
proof -
  obtain x1 c1 where s: "start_common c OP_START p x = (x1, c1)" by (metis prod.exhaust)
  from assms(3) show ?thesis
  proof (elim disjE conjE)
    assume o: "pkt_opcode p = ERT_START_CU" and r: "start_krnl_ecmd2xcmd c p x = Inr (p', x', c')"
    obtain x2 where c: "copy_payload 4 p x1 = Inr x2"
      and x': "kc_info x' = kc_info x2" "kc_isize x' = kc_isize x2" "kc_payload_type x' = REGMAP"
      using r by (auto simp: start_krnl_ecmd2xcmd_def s Let_def split: sum.splits)
    have "1 + n_extra p + unat (4::u32) \<le> n_count p"
      using assms(1) o by (simp add: ert_valid_opcode_def Let_def)
    from copied_payload_shape [OF s c assms(2) this] x' show ?thesis
      by (simp add: hls_cmd_ok_def hls_config_writes_def regmap_writes_def)
  next
    assume o: "pkt_opcode p = ERT_START_KEY_VAL" and r: "start_krnl_kv_ecmd2xcmd c p x = Inr (p', x', c')"
    obtain x2 where c: "copy_payload 0 p x1 = Inr x2"
      and x': "kc_info x' = kc_info x2" "kc_isize x' = kc_isize x2" "kc_payload_type x' = KEY_VAL"
      using r by (auto simp: start_krnl_kv_ecmd2xcmd_def s Let_def split: sum.splits)
    have le: "1 + n_extra p + unat (0::u32) \<le> n_count p"
      using assms(1) o by (simp add: ert_valid_opcode_def Let_def)
    have "2 * ((n_count p - (1 + n_extra p) + 1) div 2) \<le> n_count p" using le by simp
    with copied_payload_shape [OF s c assms(2) le] x' show ?thesis
      by (simp add: hls_cmd_ok_def hls_config_writes_def key_val_writes_def Let_def)
  qed
qed

text \<open>Witness of C26: a packet with one CU mask, the four control registers and one argument.\<close>

theorem hls_accepts_valid_packets_witness:
  "\<exists>p' x' c'. start_krnl_ecmd2xcmd (\<lambda>_. 0) (\<lambda>i. if i = 0 then 0x6001 else of_nat i)
       (the (kds_alloc_command True True 0 0 24)) = Inr (p', x', c') \<and> hls_cmd_ok False x'"
proof -
  let ?p = "(\<lambda>i. if i = 0 then 0x6001 else of_nat i) :: execbuf" and ?x = "the (kds_alloc_command True True 0 0 24)"
  have p: "pkt_opcode ?p = 0" "n_count ?p = 6" "n_extra ?p = 0"
    by (simp_all add: pkt_field_defs get_field_def drop_bit_eq_div take_bit_eq_mod)
  have x: "length (kc_info ?x) = 6" by (simp add: kds_alloc_command_def)
  obtain p' x' c' where r: "start_krnl_ecmd2xcmd (\<lambda>_. 0) ?p ?x = Inr (p', x', c')"
    using start_krnl_returns [of ?x ?p "\<lambda>_. 0"] p(2,3) x by auto
  have v: "ert_valid_opcode ?p" using p by (simp add: ert_valid_opcode_def)
  have "hls_cmd_ok False x'"
    by (rule hls_accepts_valid_packets [OF v]) (use r p(1,2) x in \<open>simp_all only:, blast\<close>)
  with r show ?thesis by blast
qed

text \<open>
  An abort on a CU with software reset always reports success and restores all credits, also
  when the hardware never finishes its reset: the wait ends with \<open>time\<close> at 0, which the code
  takes for a reset that is done.
\<close>

theorem hls_abort_ignores_reset_timeout:
  assumes "h_sw_reset cu"
  shows "fst (cu_hls_abort io match h cu) = 0
    \<and> h_credits (snd (snd (cu_hls_abort io match h cu))) = h_max_credits (snd (snd (cu_hls_abort io match h cu)))"
proof -
  obtain time c where w: "hls_reset_wait io 10000000 (cu_hls_reset io cu) = (time, c)"
    by (metis prod.exhaust)
  have "time \<ge> 0" using hls_reset_wait_time [of 10000000 io "cu_hls_reset io cu"] w by simp
  then show ?thesis using assms by (simp add: cu_hls_abort_def w Let_def)
qed

text \<open>An instance: the reset bit of this CU never clears.\<close>

theorem hls_abort_ignores_reset_timeout_witness:
  "fst (cu_hls_abort \<lparr>io_read = (\<lambda>reg hw. (0x100, hw)), io_write = (\<lambda>reg val hw. hw)\<rparr> (\<lambda>_. True)
     (\<lambda>_. example_cmd) hls_example_core) = 0"
  using hls_abort_ignores_reset_timeout [of hls_example_core] by (simp add: hls_example_core_def)

end
