(* ===== verification/Kds_Config.thy ===== *)
theory Kds_Config
  imports Kds_Submit Cu_Hls
begin

text \<open>
  The configuration of the scheduler (\<open>common/drv/kds_core.c\<close>): the ERT, the command memory of the CUs
  with fast adapter, the threads and interrupts of the CUs, the polling thread, and the clients that
  have contexts.

  \<open>run_ok\<close> and \<open>poll_ok\<close> say whether \<open>kthread_run\<close> succeeds for a CU and for the polling thread.
\<close>

section \<open>ERT and reset\<close>

text \<open>The dummy functions that replace missing ones of the ERT only print.\<close>

definition kds_init_ert :: "'c kds_sched \<Rightarrow> int \<times> 'c kds_sched" where
  "kds_init_ert kds = (0, kds\<lparr>k_ert := True, k_ert_disable := False\<rparr>)"

definition kds_fini_ert :: "'c kds_sched \<Rightarrow> int \<times> 'c kds_sched" where
  "kds_fini_ert kds = (0, kds\<lparr>k_ert_disable := True, k_ert := False\<rparr>)"

definition kds_reset :: "'c kds_sched \<Rightarrow> 'c kds_sched" where
  "kds_reset kds =
     (let k1 = kds\<lparr>k_bad_state := False, k_ini_disable := False, k_timestamp_set := False\<rparr>;
          k2 = (if \<not> k_ert k1 then k1\<lparr>k_ert_disable := True\<rparr> else k1)
      in if k_polling_thread k2 then k2\<lparr>k_polling_stop := True, k_polling_thread := False\<rparr> else k2)"

definition is_bad_state :: "'c kds_sched \<Rightarrow> bool" where
  "is_bad_state kds = k_bad_state kds"

section \<open>Command memory of the fast adapters\<close>

text \<open>The core of a CU is the structure of its model.\<close>

datatype 'h cu_core = Hls_Core "'h xrt_cu_hls" | Fa_Core "'h xrt_cu_fa"

text \<open>The pointers to the CUs of a table, in the order of their slots.\<close>

definition table_cus :: "kds_cu_mgmt \<Rightarrow> nat list" where
  "table_cus m = List.map_filter (m_xcus m) [0..<MAX_CUS]"

text \<open>\<open>xrt_fa_cfg_update\<close> takes the core of a CU for that of a fast adapter, whatever it is.\<close>

definition fa_update ::
  "'h cu_core xrt_cu \<Rightarrow> u64 \<Rightarrow> u64 \<Rightarrow> (nat \<Rightarrow> u32) \<Rightarrow> u32 \<Rightarrow> 'h cu_core xrt_cu option" where
  "fa_update xcu bar dev vaddr slots =
     (case x_core xcu of
        Hls_Core _ \<Rightarrow> None
      | Fa_Core c \<Rightarrow>
          Some (xcu\<lparr>x_core := Fa_Core (x_core (xrt_fa_cfg_update (xrt_cu_zalloc (x_info xcu) c) bar dev vaddr slots))\<rparr>))"

fun fa_release :: "nat list \<Rightarrow> u32 \<Rightarrow> 'h cu_core kds_sched \<Rightarrow> (u32 \<times> 'h cu_core kds_sched) option" where
  "fa_release [] total_sz kds = Some (total_sz, kds)"
| "fa_release (p # ps) total_sz kds =
     (case xrt_is_fa (k_cus kds p) of
        (False, _) \<Rightarrow> fa_release ps total_sz kds
      | (True, sz) \<Rightarrow>
          do { x \<leftarrow> fa_update (k_cus kds p) 0 0 (\<lambda>_. 0) 0; fa_release ps (total_sz + sz) (upd_cu kds p x) })"

text \<open>Sizes are multiples of four, so the address \<open>vaddr\<close> moves by whole words.\<close>

fun fa_assign ::
  "nat list \<Rightarrow> u64 \<Rightarrow> u64 \<Rightarrow> (nat \<Rightarrow> u32) \<Rightarrow> u32 \<Rightarrow> 'h cu_core kds_sched \<Rightarrow> 'h cu_core kds_sched option" where
  "fa_assign [] bar dev vaddr slots kds = Some kds"
| "fa_assign (p # ps) bar dev vaddr slots kds =
     (case xrt_is_fa (k_cus kds p) of
        (False, _) \<Rightarrow> fa_assign ps bar dev vaddr slots kds
      | (True, sz) \<Rightarrow>
          do { x \<leftarrow> fa_update (k_cus kds p) bar dev vaddr slots;
               let len = (ucast sz :: u64) * ucast slots in
               fa_assign ps (bar + len) (dev + len) (\<lambda>i. vaddr (unat len div 4 + i)) slots (upd_cu kds p x) })"

text \<open>\<open>None\<close> is the division by 0 when no CU has a fast adapter.\<close>

definition kds_fa_assign_cmdmem :: "'h cu_core kds_sched \<Rightarrow> (int \<times> 'h cu_core kds_sched) option" where
  "kds_fa_assign_cmdmem kds =
     (let ps = table_cus (k_cu_mgmt kds); mm = k_cmdmem kds in
      do { (need, k1) \<leftarrow> fa_release ps 0 kds;
           let total_sz = round_up_to_next_power2 need in
           if cm_size mm < total_sz then Some (- 22, k1)
           else if total_sz = 0 then None
           else do { k2 \<leftarrow> fa_assign ps (cm_bar_paddr mm) (cm_dev_paddr mm) (cm_vaddr mm) (cm_size mm div total_sz) k1;
                     Some (0, k2) } })"

section \<open>Interrupts and threads\<close>

abbreviation (input) KDS_SETTING :: "u32 \<Rightarrow> u32" where "KDS_SETTING v \<equiv> v AND 0x7FFFFFFF"

definition set_cu_intr :: "'c kds_sched \<Rightarrow> u32 \<Rightarrow> nat \<Rightarrow> u32 \<Rightarrow> 'c kds_sched" where
  "set_cu_intr kds d i v =
     (let m = cu_mgmt_of kds d in set_cu_mgmt kds d (m\<lparr>m_cu_intr := (m_cu_intr m)(i := v)\<rparr>))"

text \<open>The end of both updates: the polling thread is started unless it runs.\<close>

definition run_polling :: "bool \<Rightarrow> int \<Rightarrow> 'c kds_sched \<Rightarrow> int \<times> 'c kds_sched" where
  "run_polling poll_ok ret kds =
     (if poll_ok then (ret, kds\<lparr>k_polling_stop := False, k_polling_thread := True\<rparr>)
      else (1, kds\<lparr>k_polling_stop := False, k_polling_thread := False\<rparr>))"

fun update_intrs :: "(nat \<Rightarrow> bool) \<Rightarrow> nat list \<Rightarrow> int \<Rightarrow> 'c kds_sched \<Rightarrow> int \<times> 'c kds_sched" where
  "update_intrs run_ok [] ret kds = (ret, kds)"
| "update_intrs run_ok (i # is) ret kds =
     (let v = KDS_SETTING (k_cu_intr kds) in
      case m_xcus (k_cu_mgmt kds) i of
        None \<Rightarrow> update_intrs run_ok is ret kds
      | Some p \<Rightarrow>
          if m_cu_intr (k_cu_mgmt kds) i = v then update_intrs run_ok is ret kds
          else let (r, x) = xrt_cu_cfg_update (k_cus kds p) (v \<noteq> 0) (run_ok p); k1 = upd_cu kds p x in
            if r = 0 then update_intrs run_ok is 0 (set_cu_intr k1 DOMAIN_PL i v)
            else if r = - 38 then update_intrs run_ok is 0 (set_cu_intr k1 DOMAIN_PL i 0)
            else update_intrs run_ok is r k1)"

definition legacy_intrs :: "(nat \<Rightarrow> bool) \<Rightarrow> 'c kds_sched \<Rightarrow> int \<times> 'c kds_sched" where
  "legacy_intrs run_ok kds =
     (if k_cu_intr_cap kds = 0 then (0, kds)
      else if list_ex (\<lambda>p. \<not> ci_intr_enable (x_info (k_cus kds p))) (table_cus (k_cu_mgmt kds))
      then (0, kds\<lparr>k_cu_intr := 0\<rparr>)
      else update_intrs run_ok [0..<MAX_CUS] 0 kds)"

definition kds_cfg_legacy_update ::
  "(nat \<Rightarrow> bool) \<Rightarrow> bool \<Rightarrow> 'h cu_core kds_sched \<Rightarrow> (int \<times> 'h cu_core kds_sched) option" where
  "kds_cfg_legacy_update run_ok poll_ok kds =
     do { (r, k1) \<leftarrow> (if cm_bo (k_cmdmem kds)
                      then do { (r, k) \<leftarrow> kds_fa_assign_cmdmem kds;
                                Some (if r \<noteq> 0 then (- 22, k) else (0, k\<lparr>k_ert_disable := True\<rparr>)) }
                      else Some (0, kds));
          if r \<noteq> 0 then Some (r, k1)
          else let (ret, k2) = legacy_intrs run_ok k1 in
            Some (if k_polling_thread k2 then (ret, k2)
                  else if KDS_SETTING (k_cu_intr k2) = 0 \<or> m_num_cus (k_scu_mgmt k2) \<noteq> 0 then run_polling poll_ok ret k2
                  else (ret, k2)) }"

definition kds_stop_all_cu_threads :: "u32 \<Rightarrow> 'c kds_sched \<Rightarrow> 'c kds_sched" where
  "kds_stop_all_cu_threads d kds =
     fold (\<lambda>i k. case m_xcus (cu_mgmt_of k d) i of
                   None \<Rightarrow> k
                 | Some p \<Rightarrow> set_cu_intr (upd_cu k p (xrt_cu_stop_thread (k_cus k p))) d i 0) [0..<MAX_CUS] kds"

fun start_threads :: "(nat \<Rightarrow> bool) \<Rightarrow> u32 \<Rightarrow> nat list \<Rightarrow> 'c kds_sched \<Rightarrow> int \<times> 'c kds_sched" where
  "start_threads run_ok d [] kds = (0, kds)"
| "start_threads run_ok d (i # is) kds =
     (case m_xcus (cu_mgmt_of kds d) i of
        None \<Rightarrow> start_threads run_ok d is kds
      | Some p \<Rightarrow>
          if m_cu_intr (cu_mgmt_of kds d) i = 1 then start_threads run_ok d is kds
          else let (err, x) = xrt_cu_start_thread (k_cus kds p) (run_ok p); k1 = upd_cu kds p x in
            if err \<noteq> 0 then (err, k1) else start_threads run_ok d is (set_cu_intr k1 d i 1))"

definition kds_start_all_cu_threads :: "(nat \<Rightarrow> bool) \<Rightarrow> u32 \<Rightarrow> 'c kds_sched \<Rightarrow> int \<times> 'c kds_sched" where
  "kds_start_all_cu_threads run_ok d kds =
     (let (err, k1) = start_threads run_ok d [0..<MAX_CUS] kds
      in if err \<noteq> 0 then (- 22, kds_stop_all_cu_threads d k1) else (0, k1))"

definition kds_cfg_xgq_update :: "(nat \<Rightarrow> bool) \<Rightarrow> bool \<Rightarrow> 'c kds_sched \<Rightarrow> int \<times> 'c kds_sched" where
  "kds_cfg_xgq_update run_ok poll_ok kds =
     (let poll = (\<lambda>ret k. if k_polling_thread k then (ret, k) else run_polling poll_ok ret k) in
      if k_force_polling kds then poll 0 kds
      else if list_ex (\<lambda>p. \<not> xrt_cu_intr_supported (k_cus kds p)) (table_cus (k_cu_mgmt kds)) then (- 38, kds)
      else let (r1, k1) = kds_start_all_cu_threads run_ok DOMAIN_PL kds in
        if r1 \<noteq> 0 then poll r1 k1
        else let (r2, k2) = kds_start_all_cu_threads run_ok DOMAIN_PS k1 in
          if r2 \<noteq> 0 then poll r2 (kds_stop_all_cu_threads DOMAIN_PL k2) else (0, k2))"

definition kds_cfg_update :: "(nat \<Rightarrow> bool) \<Rightarrow> bool \<Rightarrow> 'h cu_core kds_sched \<Rightarrow> (int \<times> 'h cu_core kds_sched) option" where
  "kds_cfg_update run_ok poll_ok kds =
     (if k_xgq_enable kds then Some (kds_cfg_xgq_update run_ok poll_ok kds) else kds_cfg_legacy_update run_ok poll_ok kds)"

text \<open>The CU's own function \<open>configure_irq\<close>, which its driver sets, is the first argument.\<close>

definition kds_cus_irq_enable :: "('c xrt_cu \<Rightarrow> bool \<Rightarrow> 'c xrt_cu) \<Rightarrow> 'c kds_sched \<Rightarrow> bool \<Rightarrow> 'c kds_sched" where
  "kds_cus_irq_enable configure_irq kds enable =
     fold (\<lambda>p k. if ci_intr_enable (x_info (k_cus k p)) then upd_cu k p (configure_irq (k_cus k p) enable) else k)
       (table_cus (k_cu_mgmt kds)) kds"

section \<open>The polling thread\<close>

definition kds_wake_up_poll :: "'c kds_sched \<Rightarrow> bool \<times> 'c kds_sched" where
  "kds_wake_up_poll kds =
     (if k_polling_start kds then (True, kds\<lparr>k_polling_start := False\<rparr>) else (k_polling_stop kds, kds))"

text \<open>One round over the live CUs; \<open>Fs\<close> are their tables of functions. The number is that of the busy CUs.\<close>

fun poll_cus ::
  "(nat \<Rightarrow> 'c xcu_funcs) \<Rightarrow> nat list \<Rightarrow> nat \<Rightarrow> 'c kds_sched \<Rightarrow> kenv \<Rightarrow> (nat \<times> 'c kds_sched \<times> kenv) option" where
  "poll_cus Fs [] busy kds e = Some (busy, kds, e)"
| "poll_cus Fs (p # ps) busy kds e =
     (if x_thread (k_cus kds p) then poll_cus Fs ps busy kds e
      else do { (r, x, e1) \<leftarrow> xrt_cu_process_queues (Fs p) (k_cus kds p) e;
                poll_cus Fs ps (if r = XCU_BUSY then Suc busy else busy) (upd_cu kds p x) e1 })"

text \<open>\<open>env n\<close> is what the other threads do in the \<open>n\<close>th pause. The wait ends when the condition holds.\<close>

partial_function (option) poll_wait ::
  "(nat \<Rightarrow> 'c kds_sched \<times> kenv \<Rightarrow> 'c kds_sched \<times> kenv) \<Rightarrow> nat \<Rightarrow> 'c kds_sched \<times> kenv \<Rightarrow>
   (nat \<times> 'c kds_sched \<times> kenv) option" where
  "poll_wait env n s =
     (let w = kds_wake_up_poll (fst s) in
      if fst w then Some (n, snd w, snd s) else poll_wait env (Suc n) (env n (snd w, snd s)))"

partial_function (option) kds_polling_thread ::
  "(nat \<Rightarrow> 'c kds_sched \<times> kenv \<Rightarrow> 'c kds_sched \<times> kenv) \<Rightarrow> (nat \<Rightarrow> 'c xcu_funcs) \<Rightarrow> nat \<Rightarrow> 'c kds_sched \<times> kenv \<Rightarrow>
   ('c kds_sched \<times> kenv) option" where
  "kds_polling_thread env Fs n s =
     (if k_polling_stop (fst s) then Some s
      else Option.bind (poll_cus Fs (k_alive_cus (fst s)) 0 (fst s) (snd s)) (\<lambda>r.
        if fst r \<noteq> 0 then kds_polling_thread env Fs (Suc n) (env n (snd r))
        else Option.bind (poll_wait env n (snd r)) (\<lambda>w. kds_polling_thread env Fs (Suc (fst w)) (env (fst w) (snd w)))))"

declare poll_wait.simps [code] kds_polling_thread.simps [code]

section \<open>Live clients\<close>

text \<open>The clients with open contexts, one for each context with CUs.\<close>

definition live_ctxs :: "(nat \<Rightarrow> kds_client) \<Rightarrow> 'c kds_sched \<Rightarrow> nat list" where
  "live_ctxs cls kds =
     concat (map (\<lambda>c. (case cl_ctx (cls c) of None \<Rightarrow> [] | Some l \<Rightarrow> if l = [] then [] else [c]) @
                      map (\<lambda>_. c) (filter (\<lambda>h. hw_cu_ctx_list h \<noteq> []) (hw_ctx_list (cls c)))) (k_clients kds))"

text \<open>\<open>plist\<close> says whether a list of processes is asked for, \<open>ok\<close> whether it can be allocated.\<close>

definition kds_live_clients_nolock ::
  "bool \<Rightarrow> (nat \<Rightarrow> int) \<Rightarrow> (nat \<Rightarrow> kds_client) \<Rightarrow> 'c kds_sched \<Rightarrow> bool \<Rightarrow> u32 \<times> int list option" where
  "kds_live_clients_nolock ok pid cls kds plist =
     (let cs = live_ctxs cls kds; count = (of_nat (length cs) :: u32)
      in (count, if count = 0 \<or> \<not> plist \<or> \<not> ok then None else Some (map pid cs)))"

definition kds_live_clients ::
  "bool \<Rightarrow> (nat \<Rightarrow> int) \<Rightarrow> (nat \<Rightarrow> kds_client) \<Rightarrow> 'c kds_sched \<Rightarrow> bool \<Rightarrow> u32 \<times> int list option" where
  "kds_live_clients ok pid cls kds plist = kds_live_clients_nolock ok pid cls kds plist"

section \<open>Rounding up to a power of two\<close>

text \<open>Doubling the reach: if a bit of \<open>w\<close> says whether one of \<open>n\<close> bits of \<open>v\<close> is set, then \<open>2 * n\<close> bits with one more step.\<close>

lemma smear_step:
  assumes "\<And>i. bit (w :: u32) i \<longleftrightarrow> (\<exists>d<n. bit (v :: u32) (i + d))"
  shows "bit (w OR drop_bit n w) i \<longleftrightarrow> (\<exists>d<2 * n. bit v (i + d))"
proof -
  have "bit (w OR drop_bit n w) i \<longleftrightarrow> (\<exists>d<n. bit v (i + d)) \<or> (\<exists>d<n. bit v (i + (n + d)))"
    using assms [of i] assms [of "n + i"] by (simp add: bit_or_iff bit_drop_bit_eq ac_simps)
  also have "\<dots> \<longleftrightarrow> (\<exists>d<2 * n. bit v (i + d))"
  proof
    assume "(\<exists>d<n. bit v (i + d)) \<or> (\<exists>d<n. bit v (i + (n + d)))"
    then show "\<exists>d<2 * n. bit v (i + d)" by (metis add_less_cancel_left mult_2 trans_less_add1)
  next
    assume "\<exists>d<2 * n. bit v (i + d)"
    then obtain d where "d < 2 * n" "bit v (i + d)" by blast
    then show "(\<exists>d<n. bit v (i + d)) \<or> (\<exists>d<n. bit v (i + (n + d)))"
      by (cases "d < n") (auto intro: exI [of _ "d - n"])
  qed
  finally show ?thesis .
qed

lemma round_up_mask:
  assumes "2 ^ k \<le> unat (sz - 1)" and "unat (sz - 1) < 2 ^ Suc k"
  shows "round_up_to_next_power2 sz = 2 ^ Suc k"
proof -
  define v where "v = sz - 1"
  define v1 where "v1 = v OR drop_bit 1 v"
  define v2 where "v2 = v1 OR drop_bit 2 v1"
  define v3 where "v3 = v2 OR drop_bit 4 v2"
  define v4 where "v4 = v3 OR drop_bit 8 v3"
  define v5 where "v5 = v4 OR drop_bit 16 v4"
  have b0: "bit v i \<longleftrightarrow> (\<exists>d<1. bit v (i + d))" for i by simp
  have b1: "bit v1 i \<longleftrightarrow> (\<exists>d<2. bit v (i + d))" for i using smear_step [OF b0] by (simp add: v1_def)
  have b2: "bit v2 i \<longleftrightarrow> (\<exists>d<4. bit v (i + d))" for i using smear_step [OF b1] by (simp add: v2_def)
  have b3: "bit v3 i \<longleftrightarrow> (\<exists>d<8. bit v (i + d))" for i using smear_step [OF b2] by (simp add: v3_def)
  have b4: "bit v4 i \<longleftrightarrow> (\<exists>d<16. bit v (i + d))" for i using smear_step [OF b3] by (simp add: v4_def)
  have b5: "bit v5 i \<longleftrightarrow> (\<exists>d<32. bit v (i + d))" for i using smear_step [OF b4] by (simp add: v5_def)
  have bit_v: "bit v j \<longleftrightarrow> bit (unat v) j" for j by (auto simp: bit_unsigned_iff dest: bit_imp_le_length)
  have "unat v div 2 ^ k = 1" using assms unfolding v_def by (intro div_nat_eqI) simp_all
  then have "bit (unat v) k" by (simp add: bit_iff_odd)
  then have top: "bit v k" unfolding bit_v .
  then have k: "k < 32" using bit_imp_le_length [of v k] by simp
  have high: "\<not> bit v j" if "k < j" for j
  proof -
    have "2 ^ Suc k \<le> (2 :: nat) ^ j" using that by (intro power_increasing) simp_all
    then have "unat v div 2 ^ j = 0" using assms(2) unfolding v_def by (intro div_less) linarith
    then have "\<not> bit (unat v) j" by (simp add: bit_iff_odd)
    then show ?thesis unfolding bit_v .
  qed
  have "v5 = mask (Suc k)"
  proof (rule bit_word_eqI)
    fix i assume "i < LENGTH(32)"
    have "bit v5 i \<longleftrightarrow> i \<le> k"
      unfolding b5 using top high k
      by (metis add_diff_inverse_nat le_add1 le_trans less_imp_diff_less not_le)
    then show "bit v5 i = bit (mask (Suc k) :: u32) i" using \<open>i < LENGTH(32)\<close> by (simp add: bit_mask_iff less_Suc_eq_le)
  qed
  moreover have "round_up_to_next_power2 sz = v5 + 1"
    by (simp add: round_up_to_next_power2_def Let_def v_def v1_def v2_def v3_def v4_def v5_def)
  ultimately show ?thesis by (simp add: mask_eq_exp_minus_1)
qed

text \<open>
  The bit tricks of \<open>round_up_to_next_power2\<close> compute the least power of two that is not less than
  its argument, up to \<open>2 ^ 31\<close>; 0 and larger arguments give 0.
\<close>

lemma round_up_least:
  "if 1 \<le> unat sz \<and> unat sz \<le> 2 ^ 31
   then \<exists>k. unat (round_up_to_next_power2 sz) = 2 ^ k \<and> unat sz \<le> 2 ^ k \<and> (k = 0 \<or> 2 ^ (k - 1) < unat sz)
   else round_up_to_next_power2 sz = 0"
proof (cases "unat (sz - 1) = 0")
  case True
  then have "sz = 1" by (metis diff_add_cancel add_0 unat_eq_zero)
  then show ?thesis by (simp add: round_up_to_next_power2_def)
next
  case False
  then obtain k where k: "2 ^ k \<le> unat (sz - 1)" "unat (sz - 1) < 2 ^ (k + 1)"
    using ex_power_ivl1 [of 2 "unat (sz - 1)"] by auto
  have "unat (sz - 1) < 2 ^ LENGTH(32)" by (rule unsigned_less)
  then have "(2 :: nat) ^ k < 2 ^ 32" using k(1) by simp
  then have "k < 32" by (simp only: power_strict_increasing_iff)
  show ?thesis
  proof (cases "1 \<le> unat sz \<and> unat sz \<le> 2 ^ 31")
    case True
    then have u: "unat (sz - 1) = unat sz - 1" by (intro unat_minus_one) auto
    then have "(2 :: nat) ^ k < 2 ^ 31" using k(1) True by linarith
    then have "Suc k < 32" by (simp only: power_strict_increasing_iff)
    then have "(2 :: nat) ^ Suc k < 2 ^ 32" by (intro power_strict_increasing) simp_all
    then have "unat (of_nat (2 ^ Suc k) :: u32) = 2 ^ Suc k" by (intro unat_of_nat_small) simp
    then have "unat (2 ^ Suc k :: u32) = 2 ^ Suc k" by simp
    then show ?thesis using True k u round_up_mask [of k sz] by (intro iffD2 [OF if_P] exI [of _ "Suc k"]) auto
  next
    case False
    have "2 ^ 31 \<le> unat (sz - 1)"
    proof (cases "sz = 0")
      case False
      then have "unat (sz - 1) = unat sz - 1" "1 \<le> unat sz" by (simp_all add: unat_minus_one unat_gt_0 Suc_le_eq)
      then show ?thesis using \<open>\<not> (1 \<le> unat sz \<and> unat sz \<le> 2 ^ 31)\<close> by linarith
    qed (simp add: unsigned_minus_1_eq_mask mask_eq_exp_minus_1)
    then have "(2 :: nat) ^ 31 < 2 ^ (k + 1)" using k(2) by linarith
    then have "31 < k + 1" by (simp only: power_strict_increasing_iff)
    then have "k = 31" using \<open>k < 32\<close> by simp
    then show ?thesis using False k round_up_mask [of k sz] by simp
  qed
qed

section \<open>Windows in the command memory\<close>

definition is_fa_cu :: "'c kds_sched \<Rightarrow> nat \<Rightarrow> bool" where
  "is_fa_cu kds p \<longleftrightarrow> ci_model (x_info (k_cus kds p)) = XCU_FA"

definition desc_size :: "'c kds_sched \<Rightarrow> nat \<Rightarrow> u32" where
  "desc_size kds p = cu_fa_get_desc_size (x_info (k_cus kds p))"

text \<open>What the fast adapters of a list of CUs need for one slot each.\<close>

definition desc_sum :: "'c kds_sched \<Rightarrow> nat list \<Rightarrow> nat" where
  "desc_sum kds ps = sum_list (map (\<lambda>p. unat (desc_size kds p)) (filter (is_fa_cu kds) ps))"

lemma desc_sum_simps [simp]:
  "desc_sum kds [] = 0"
  "desc_sum kds (p # ps) = (if is_fa_cu kds p then unat (desc_size kds p) else 0) + desc_sum kds ps"
  "desc_sum kds (ps @ qs) = desc_sum kds ps + desc_sum kds qs"
  by (simp_all add: desc_sum_def)

lemma xrt_is_fa_cu: "xrt_is_fa (k_cus kds p) = (is_fa_cu kds p, if is_fa_cu kds p then desc_size kds p else 0)"
  by (simp add: xrt_is_fa_def is_fa_cu_def desc_size_def)

lemma fa_update_upd:
  assumes "fa_update (k_cus kds p) bar dev vaddr slots = Some x"
  shows "is_fa_cu (upd_cu kds p x) = is_fa_cu kds" "desc_size (upd_cu kds p x) = desc_size kds"
    "desc_sum (upd_cu kds p x) = desc_sum kds"
proof -
  have "x_info x = x_info (k_cus kds p)" using assms by (auto simp: fa_update_def split: cu_core.splits)
  then show i: "is_fa_cu (upd_cu kds p x) = is_fa_cu kds" and d: "desc_size (upd_cu kds p x) = desc_size kds"
    by (auto simp: fun_eq_iff is_fa_cu_def desc_size_def upd_cu_def)
  show "desc_sum (upd_cu kds p x) = desc_sum kds" by (rule ext) (simp add: desc_sum_def i d)
qed

lemma fa_update_core:
  assumes "fa_update x bar dev vaddr slots = Some x'"
  shows "\<exists>c. x_core x' = Fa_Core c \<and>
    (bar \<noteq> 0 \<longrightarrow> f_paddr c = dev \<and> f_num_slots c = slots \<and> f_slot_sz c = cu_fa_get_desc_size (x_info x))"
proof -
  obtain c0 where c0: "x_core x = Fa_Core c0" using assms by (cases "x_core x") (simp_all add: fa_update_def)
  have z: "x_core (xrt_cu_zalloc i c0) = c0" "x_info (xrt_cu_zalloc i c0) = i" for i by (simp_all add: xrt_cu_zalloc_def)
  have "x_core x' = Fa_Core (x_core (xrt_fa_cfg_update (xrt_cu_zalloc (x_info x) c0) bar dev vaddr slots))"
    using assms by (auto simp: fa_update_def c0)
  then show ?thesis by (simp add: xrt_fa_cfg_update_def z Let_def)
qed

lemma fa_release_spec:
  "fa_release ps t kds = Some (t', kds') \<Longrightarrow>
     t' = t + of_nat (desc_sum kds ps) \<and> is_fa_cu kds' = is_fa_cu kds \<and> desc_size kds' = desc_size kds"
proof (induction ps arbitrary: t kds)
  case (Cons p ps)
  show ?case
  proof (cases "is_fa_cu kds p")
    case True
    then obtain x where "fa_update (k_cus kds p) 0 0 (\<lambda>_. 0) 0 = Some x"
      and "fa_release ps (t + desc_size kds p) (upd_cu kds p x) = Some (t', kds')"
      using Cons.prems by (auto simp: xrt_is_fa_cu bind_eq_Some_conv)
    then show ?thesis using Cons.IH [of "t + desc_size kds p" "upd_cu kds p x"] True by (simp add: fa_update_upd ac_simps)
  next
    case False
    then show ?thesis using Cons by (simp add: xrt_is_fa_cu)
  qed
qed simp

lemma fa_assign_other:
  "fa_assign ps bar dev vaddr n kds = Some kds' \<Longrightarrow> q \<notin> set ps \<Longrightarrow> k_cus kds' q = k_cus kds q"
proof (induction ps arbitrary: bar dev vaddr kds)
  case (Cons p ps)
  then show ?case
    by (cases "is_fa_cu kds p") (auto simp: xrt_is_fa_cu bind_eq_Some_conv Let_def upd_cu_def)
qed simp

lemma fa_assign_spec:
  assumes "fa_assign (as @ p # bs) bar dev vaddr n kds = Some kds'" and "p \<notin> set bs" and "is_fa_cu kds p"
  shows "\<exists>c. x_core (k_cus kds' p) = Fa_Core c \<and>
    (bar + of_nat (unat n * desc_sum kds as) \<noteq> 0 \<longrightarrow>
       f_paddr c = dev + of_nat (unat n * desc_sum kds as) \<and> f_num_slots c = n \<and> f_slot_sz c = desc_size kds p)"
  using assms
proof (induction as arbitrary: bar dev vaddr kds)
  case Nil
  then obtain x where u: "fa_update (k_cus kds p) bar dev vaddr n = Some x"
    and "\<exists>b d v. fa_assign bs b d v n (upd_cu kds p x) = Some kds'"
    by (auto simp: xrt_is_fa_cu bind_eq_Some_conv Let_def)
  then obtain b d v where r: "fa_assign bs b d v n (upd_cu kds p x) = Some kds'" by blast
  have "k_cus kds' p = x" using fa_assign_other [OF r Nil(2)] by (simp add: upd_cu_def)
  then show ?case using fa_update_core [OF u] by (simp add: desc_size_def)
next
  case (Cons a as)
  show ?case
  proof (cases "is_fa_cu kds a")
    case True
    let ?len = "(ucast (desc_size kds a) :: u64) * ucast n"
    from True Cons.prems(1) obtain x where u: "fa_update (k_cus kds a) bar dev vaddr n = Some x"
      and r: "fa_assign (as @ p # bs) (bar + ?len) (dev + ?len) (\<lambda>i. vaddr (unat ?len div 4 + i)) n (upd_cu kds a x) = Some kds'"
      by (auto simp: xrt_is_fa_cu bind_eq_Some_conv Let_def)
    have len: "?len = of_nat (unat n * unat (desc_size kds a))" by (simp add: mult.commute)
    show ?thesis
      using Cons.IH [OF r Cons.prems(2)] Cons.prems(3) True
      unfolding fa_update_upd [OF u] len by (simp add: distrib_left ac_simps)
  next
    case False
    then show ?thesis using Cons by (simp add: xrt_is_fa_cu)
  qed
qed

definition fa_window :: "'h cu_core kds_sched \<Rightarrow> nat \<Rightarrow> (nat \<times> nat) option" where
  "fa_window kds p =
     (case x_core (k_cus kds p) of
        Hls_Core _ \<Rightarrow> None
      | Fa_Core c \<Rightarrow> Some (unat (f_paddr c), unat (f_paddr c) + unat (f_num_slots c) * unat (f_slot_sz c)))"

lemma unat_add_of_nat: "unat w + k < 2 ^ 64 \<Longrightarrow> unat (w + of_nat k :: u64) = unat w + k"
  by (simp add: unat_word_ariths unat_of_nat)

lemma fa_window_of:
  assumes "fa_assign (as @ p # bs) bar dev vaddr n kds = Some kds'" and "p \<notin> set bs" and "is_fa_cu kds p"
    and "bar \<noteq> 0" and "unat n * desc_sum kds (as @ p # bs) \<le> sz" and "unat bar + sz < 2 ^ 64" and "unat dev + sz < 2 ^ 64"
  shows "fa_window kds' p = Some (unat dev + unat n * desc_sum kds as, unat dev + unat n * desc_sum kds (as @ [p]))"
proof -
  let ?o = "unat n * desc_sum kds as"
  have le: "?o \<le> sz" using assms(5) by (simp add: distrib_left)
  have "unat (bar + of_nat ?o) = unat bar + ?o"
    by (rule unat_add_of_nat) (use le assms(6) in linarith)
  moreover have "unat (dev + of_nat ?o) = unat dev + ?o"
    by (rule unat_add_of_nat) (use le assms(7) in linarith)
  moreover have "0 < unat bar" using assms(4) by (simp add: unat_gt_0)
  ultimately have "bar + of_nat ?o \<noteq> 0" "unat (dev + of_nat ?o) = unat dev + ?o" by auto
  with fa_assign_spec [OF assms(1-3)] assms(3) show ?thesis
    by (auto simp: fa_window_def distrib_left)
qed


definition demo_two :: "unit cu_core kds_sched" where
  "demo_two = (demo_sched (xrt_cu_zalloc ((x_info (demo_cu CTRL_FA))\<lparr>ci_model := XCU_FA\<rparr>) (Fa_Core fa_example_core)))
     \<lparr>k_cu_mgmt := (demo_mgmt None)\<lparr>m_xcus := (\<lambda>i. if i < 2 then Some i else None)\<rparr>,
      k_cmdmem := \<lparr>cm_bo = True, cm_bar_paddr = 0x1000, cm_dev_paddr = 0x2000, cm_vaddr = (\<lambda>_. 0), cm_size = 256\<rparr>\<rparr>"

lemma demo_two_cus: "table_cus (k_cu_mgmt demo_two) = [0, 1]"
proof -
  have upt: "[0..<MAX_CUS] = 0 # 1 # [2..<MAX_CUS]" by (simp add: upt_rec)
  have none: "List.map_filter f [2..<MAX_CUS] = []" if "\<forall>i\<ge>2. f i = None" for f :: "nat \<Rightarrow> nat option"
    using that by (simp add: List.map_filter_def filter_empty_conv)
  show ?thesis unfolding table_cus_def upt by (simp add: demo_two_def none map_filter_simps)
qed

lemma demo_two_fa: "is_fa_cu demo_two p" "desc_size demo_two p = 32" "\<exists>c. x_core (k_cus demo_two p) = Fa_Core c"
  by (simp_all add: is_fa_cu_def desc_size_def demo_two_def demo_sched_def xrt_cu_zalloc_def demo_cu_def
      cu_fa_get_desc_size_def round_up_to_next_power2_def)

lemma fa_release_returns:
  "\<forall>p. is_fa_cu kds p \<longrightarrow> (\<exists>c. x_core (k_cus kds p) = Fa_Core c) \<Longrightarrow>
     \<exists>t' kds'. fa_release ps t kds = Some (t', kds') \<and> (\<forall>p. is_fa_cu kds' p \<longrightarrow> (\<exists>c. x_core (k_cus kds' p) = Fa_Core c))"
proof (induction ps arbitrary: t kds)
  case (Cons p ps)
  show ?case
  proof (cases "is_fa_cu kds p")
    case True
    then obtain x where u: "fa_update (k_cus kds p) 0 0 (\<lambda>_. 0) 0 = Some x"
      using Cons.prems by (auto simp: fa_update_def)
    have "\<forall>q. is_fa_cu (upd_cu kds p x) q \<longrightarrow> (\<exists>c. x_core (k_cus (upd_cu kds p x) q) = Fa_Core c)"
      using Cons.prems fa_update_core [OF u] unfolding fa_update_upd(1) [OF u] by (auto simp: upd_cu_def)
    from Cons.IH [OF this] True u show ?thesis by (simp add: xrt_is_fa_cu)
  next
    case False
    then show ?thesis using Cons by (simp add: xrt_is_fa_cu)
  qed
qed simp

lemma fa_assign_returns:
  "\<forall>p. is_fa_cu kds p \<longrightarrow> (\<exists>c. x_core (k_cus kds p) = Fa_Core c) \<Longrightarrow> \<exists>kds'. fa_assign ps bar dev vaddr n kds = Some kds'"
proof (induction ps arbitrary: bar dev vaddr kds)
  case (Cons p ps)
  show ?case
  proof (cases "is_fa_cu kds p")
    case True
    then obtain x where u: "fa_update (k_cus kds p) bar dev vaddr n = Some x"
      using Cons.prems by (auto simp: fa_update_def)
    have "\<forall>q. is_fa_cu (upd_cu kds p x) q \<longrightarrow> (\<exists>c. x_core (k_cus (upd_cu kds p x) q) = Fa_Core c)"
      using Cons.prems fa_update_core [OF u] unfolding fa_update_upd(1) [OF u] by (auto simp: upd_cu_def)
    from Cons.IH [OF this] True u show ?thesis by (simp add: xrt_is_fa_cu Let_def)
  next
    case False
    then show ?thesis using Cons by (simp add: xrt_is_fa_cu)
  qed
qed simp

lemma demo_two_assign: "\<exists>kds'. kds_fa_assign_cmdmem demo_two = Some (0, kds')"
proof -
  have "\<forall>p. is_fa_cu demo_two p \<longrightarrow> (\<exists>c. x_core (k_cus demo_two p) = Fa_Core c)" using demo_two_fa(3) by blast
  from fa_release_returns [OF this, of "[0, 1]" 0] obtain t k1 where r: "fa_release [0, 1] 0 demo_two = Some (t, k1)"
    and ok: "\<forall>p. is_fa_cu k1 p \<longrightarrow> (\<exists>c. x_core (k_cus k1 p) = Fa_Core c)" by blast
  have t: "t = 64" using fa_release_spec [OF r] by (simp add: demo_two_fa)
  have "round_up_to_next_power2 64 = 64" by (simp add: round_up_to_next_power2_def)
  moreover have "cm_size (k_cmdmem demo_two) = 256" by (simp add: demo_two_def)
  ultimately show ?thesis
    unfolding kds_fa_assign_cmdmem_def Let_def demo_two_cus r t
    using fa_assign_returns [OF ok] by (simp del: fa_assign.simps) (metis bind.bind_lunit)
qed


section \<open>Every CU is served\<close>

text \<open>A CU that is recorded as driven by interrupts has a thread.\<close>

definition intr_threads :: "'c kds_sched \<Rightarrow> bool" where
  "intr_threads kds \<longleftrightarrow>
     (\<forall>d i p. m_xcus (cu_mgmt_of kds d) i = Some p \<and> m_cu_intr (cu_mgmt_of kds d) i = 1 \<longrightarrow> x_thread (k_cus kds p))"

lemma cu_mgmt_of_upd: "cu_mgmt_of (upd_cu kds p x) d = cu_mgmt_of kds d"
  by (simp add: cu_mgmt_of_def upd_cu_def)

lemma upd_cu_at: "k_cus (upd_cu kds p x) q = (if q = p then x else k_cus kds q)"
  by (simp add: upd_cu_def)

lemma set_cu_intr_fields:
  "m_xcus (cu_mgmt_of (set_cu_intr kds d i v) d') = m_xcus (cu_mgmt_of kds d')"
  "m_cu_intr (cu_mgmt_of (set_cu_intr kds d i v) d) = (m_cu_intr (cu_mgmt_of kds d))(i := v)"
  "(d = DOMAIN_PL) \<noteq> (d' = DOMAIN_PL) \<Longrightarrow> m_cu_intr (cu_mgmt_of (set_cu_intr kds d i v) d') = m_cu_intr (cu_mgmt_of kds d')"
  "k_cus (set_cu_intr kds d i v) = k_cus kds"
  by (auto simp: set_cu_intr_def cu_mgmt_of_def set_cu_mgmt_def Let_def)

lemma start_thread_runs:
  assumes "xrt_cu_start_thread x ok = (err, x')"
  shows "err = 0 \<longrightarrow> x_thread x'" "x_thread x \<longrightarrow> x_thread x'"
  using assms by (auto simp: xrt_cu_start_thread_def Let_def split: if_splits)

lemma start_intr_threads:
  assumes "intr_threads kds" and "m_xcus (cu_mgmt_of kds d) i = Some p"
    and "xrt_cu_start_thread (k_cus kds p) ok = (0, x)"
  shows "intr_threads (set_cu_intr (upd_cu kds p x) d i 1)"
proof -
  have t: "x_thread x" using start_thread_runs(1) [OF assms(3)] by simp
  have "x_thread (if q = p then x else k_cus kds q)"
    if "m_xcus (cu_mgmt_of kds d') j = Some q" "m_cu_intr (cu_mgmt_of (set_cu_intr (upd_cu kds p x) d i 1) d') j = 1" for d' j q
  proof (cases "(d = DOMAIN_PL) = (d' = DOMAIN_PL)")
    case True
    then have "cu_mgmt_of k d' = cu_mgmt_of k d" for k :: "'a kds_sched" by (auto simp: cu_mgmt_of_def)
    then show ?thesis using that t assms(1,2)
      by (auto simp: set_cu_intr_fields(2) cu_mgmt_of_upd intr_threads_def split: if_splits)
  next
    case False
    then show ?thesis using that t assms(1) by (auto simp: set_cu_intr_fields(3) cu_mgmt_of_upd intr_threads_def)
  qed
  then show ?thesis unfolding intr_threads_def set_cu_intr_fields(1,4) cu_mgmt_of_upd upd_cu_at by blast
qed

lemma start_threads_spec:
  assumes "start_threads run_ok d is kds = (0, kds')" and "intr_threads kds"
  shows "intr_threads kds' \<and> (\<forall>d'. m_xcus (cu_mgmt_of kds' d') = m_xcus (cu_mgmt_of kds d')) \<and>
    (\<forall>j p. x_thread (k_cus kds p) \<longrightarrow> x_thread (k_cus kds' p)) \<and>
    (\<forall>i\<in>set is. \<forall>p. m_xcus (cu_mgmt_of kds d) i = Some p \<longrightarrow> x_thread (k_cus kds' p))"
  using assms
proof (induction "is" arbitrary: kds)
  case (Cons i "is")
  show ?case
  proof (cases "m_xcus (cu_mgmt_of kds d) i")
    case None
    then show ?thesis using Cons by auto
  next
    case (Some p)
    show ?thesis
    proof (cases "m_cu_intr (cu_mgmt_of kds d) i = 1")
      case True
      then have "x_thread (k_cus kds p)" using Some Cons.prems(2) by (auto simp: intr_threads_def)
      then show ?thesis using Cons Some True by auto
    next
      case False
      obtain err x where s: "xrt_cu_start_thread (k_cus kds p) (run_ok p) = (err, x)" by (metis prod.exhaust)
      let ?k = "set_cu_intr (upd_cu kds p x) d i 1"
      from Cons.prems(1) Some False s have err: "err = 0" and r: "start_threads run_ok d is ?k = (0, kds')"
        by (auto simp: Let_def split: if_splits)
      note IH = Cons.IH [OF r start_intr_threads [OF Cons.prems(2) Some s [unfolded err]]]
      have keep: "x_thread (k_cus kds q) \<longrightarrow> x_thread (k_cus ?k q)" for q
        using start_thread_runs(2) [OF s] by (simp add: set_cu_intr_fields(4) upd_cu_def)
      have "x_thread (k_cus ?k p)"
        using start_thread_runs(1) [OF s] err by (simp add: set_cu_intr_fields(4) upd_cu_def)
      then have "x_thread (k_cus kds' p)" using IH by blast
      then show ?thesis using IH keep Some by (auto simp: set_cu_intr_fields(1) cu_mgmt_of_upd)
    qed
  qed
qed simp

text \<open>
  C35. When \<open>kds_cfg_xgq_update\<close> succeeds, every CU of both tables is served: the polling thread runs, or
  each CU has a thread of its own.
\<close>

theorem xgq_update_serves:
  assumes "kds_cfg_xgq_update run_ok poll_ok kds = (0, kds')" and "intr_threads kds"
  shows "k_polling_thread kds' \<or>
    (\<forall>d i p. i < MAX_CUS \<and> m_xcus (cu_mgmt_of kds' d) i = Some p \<longrightarrow> x_thread (k_cus kds' p))"
proof (cases "k_polling_thread kds'")
  case False
  let ?r = "kds_start_all_cu_threads run_ok"
  obtain k1 where k1: "?r DOMAIN_PL kds = (0, k1)" and k2: "?r DOMAIN_PS k1 = (0, kds')"
    using assms(1) False
    by (auto simp: kds_cfg_xgq_update_def run_polling_def Let_def split: if_splits prod.splits)
  have s1: "start_threads run_ok DOMAIN_PL [0..<MAX_CUS] kds = (0, k1)"
    and s2: "start_threads run_ok DOMAIN_PS [0..<MAX_CUS] k1 = (0, kds')"
    using k1 k2 by (auto simp: kds_start_all_cu_threads_def split: if_splits prod.splits)
  note a = start_threads_spec [OF s1 assms(2)]
  note b = start_threads_spec [OF s2 a [THEN conjunct1]]
  have "x_thread (k_cus kds' p)" if "i < MAX_CUS" "m_xcus (cu_mgmt_of kds' d) i = Some p" for d i p
  proof (cases "d = DOMAIN_PL")
    case True
    then show ?thesis using that a b by auto
  next
    case False
    then have "cu_mgmt_of k d = cu_mgmt_of k DOMAIN_PS" for k :: "'a kds_sched" by (auto simp: cu_mgmt_of_def)
    then show ?thesis using that b by auto
  qed
  then show ?thesis by blast
qed simp

lemma start_threads_none:
  "\<forall>i\<in>set is. m_xcus (cu_mgmt_of kds d) i = None \<Longrightarrow> start_threads run_ok d is kds = (0, kds)"
  by (induction "is") simp_all

definition demo_intr :: "unit kds_sched" where
  "demo_intr = demo_sched ((demo_cu CTRL_HS)\<lparr>x_info := (x_info (demo_cu CTRL_HS))\<lparr>ci_intr_enable := True\<rparr>\<rparr>)"

lemma demo_table_cus: "table_cus (demo_mgmt (Some p)) = [p]" "table_cus (demo_mgmt None) = []"
proof -
  have upt: "[0..<MAX_CUS] = 0 # [Suc 0..<MAX_CUS]" by (simp add: upt_rec)
  have none: "List.map_filter f [Suc 0..<MAX_CUS] = []" if "\<forall>i\<ge>Suc 0. f i = None" for f :: "nat \<Rightarrow> nat option"
    using that by (simp add: List.map_filter_def filter_empty_conv)
  show "table_cus (demo_mgmt (Some p)) = [p]" "table_cus (demo_mgmt None) = []"
    unfolding table_cus_def upt by (simp_all add: demo_mgmt_def none map_filter_simps)
qed

lemma demo_intr_update: "\<exists>kds'. kds_cfg_xgq_update (\<lambda>_. True) True demo_intr = (0, kds')"
proof -
  have upt: "[0..<MAX_CUS] = 0 # [1..<MAX_CUS]" by (simp add: upt_rec)
  let ?x = "(k_cus demo_intr 0)\<lparr>x_stop := False, x_sem := 0, x_sem_cu := 0, x_tick := 0, x_thread := True\<rparr>"
  let ?k = "set_cu_intr (upd_cu demo_intr 0 ?x) DOMAIN_PL 0 1"
  have x: "m_xcus (cu_mgmt_of demo_intr d) i = (if i = 0 \<and> d = DOMAIN_PL then Some 0 else None)" for d i
    by (simp add: demo_intr_def demo_sched_def demo_mgmt_def cu_mgmt_of_def)
  have "xrt_cu_start_thread (k_cus demo_intr 0) True = (0, ?x)" "m_cu_intr (cu_mgmt_of demo_intr DOMAIN_PL) 0 = 0"
    by (simp_all add: xrt_cu_start_thread_def demo_intr_def demo_sched_def demo_mgmt_def demo_cu_def xrt_cu_zalloc_def cu_mgmt_of_def)
  then have "start_threads (\<lambda>_. True) DOMAIN_PL [0..<MAX_CUS] demo_intr = (0, ?k)"
    "start_threads (\<lambda>_. True) DOMAIN_PS [0..<MAX_CUS] ?k = (0, ?k)"
    unfolding upt by (simp_all add: x start_threads_none set_cu_intr_fields(1) cu_mgmt_of_upd)
  moreover have "table_cus (k_cu_mgmt demo_intr) = [0]" by (simp add: demo_intr_def demo_sched_def demo_table_cus)
  moreover have "xrt_cu_intr_supported (k_cus demo_intr 0)" "\<not> k_force_polling demo_intr"
    by (simp_all add: demo_intr_def demo_sched_def demo_cu_def xrt_cu_zalloc_def xrt_cu_intr_supported_def xrt_cu_get_protocol_def)
  ultimately show ?thesis by (simp add: kds_cfg_xgq_update_def kds_start_all_cu_threads_def)
qed

text \<open>Witness of C35.\<close>

theorem xgq_update_serves_witness:
  "\<exists>kds'. kds_cfg_xgq_update (\<lambda>_. True) True demo_intr = (0, kds') \<and>
     (k_polling_thread kds' \<or> (\<forall>d i p. i < MAX_CUS \<and> m_xcus (cu_mgmt_of kds' d) i = Some p \<longrightarrow> x_thread (k_cus kds' p)))"
proof -
  have "intr_threads demo_intr"
    by (simp add: intr_threads_def demo_intr_def demo_sched_def demo_mgmt_def cu_mgmt_of_def)
  with demo_intr_update show ?thesis using xgq_update_serves by blast
qed

end
