(* ===== verification/Kds_Release.thy ===== *)
theory Kds_Release
  imports Kds_Core
begin

text \<open>
  User-managed CUs and the end of a client (\<open>common/drv/kds_core.c\<close>, \<open>common/drv/kds_hwctx.c\<close>).

  The functions \<open>user_manage_irq\<close> and \<open>configure_irq\<close>, which the driver of a CU sets, are arguments; \<open>None\<close>
  is a null pointer.
\<close>

section \<open>User-managed CUs\<close>

definition kds_ucu_release :: "('c xrt_cu \<Rightarrow> bool \<Rightarrow> int \<times> 'c xrt_cu) \<Rightarrow> 'c xrt_cu \<Rightarrow> int \<times> 'c xrt_cu" where
  "kds_ucu_release user_manage_irq xcu = (0, (snd (user_manage_irq xcu False))\<lparr>is_ucu := False\<rparr>)"

definition kds_ucu_poll :: "'c xrt_cu \<Rightarrow> bool" where
  "kds_ucu_poll xcu \<longleftrightarrow> ucu_event xcu > 0"

text \<open>
  \<open>xcu\<close> is the CU at the end of the wait; the wait goes on, \<open>None\<close>, while there is no event. The second
  component are the events that are copied to the user.
\<close>

definition kds_ucu_read :: "bool \<Rightarrow> bool \<Rightarrow> u64 \<Rightarrow> 'c xrt_cu \<Rightarrow> (int \<times> int option \<times> 'c xrt_cu) option" where
  "kds_ucu_read interrupted copy_ok cnt xcu =
     (if cnt \<noteq> 4 then Some (- 22, None, xcu)
      else if ucu_event xcu > 0
      then let x1 = xcu\<lparr>ucu_event := 0\<rparr>
           in Some (if copy_ok then (4, Some (ucu_event xcu), x1) else (- 14, None, x1))
      else if interrupted then Some (- 512, None, xcu) else None)"

definition kds_ucu_write ::
  "bool \<Rightarrow> ('c xrt_cu \<Rightarrow> bool \<Rightarrow> 'c xrt_cu) option \<Rightarrow> int \<Rightarrow> u64 \<Rightarrow> 'c xrt_cu \<Rightarrow> int \<times> 'c xrt_cu" where
  "kds_ucu_write copy_ok configure_irq enable cnt xcu =
     (if cnt \<noteq> 4 then (- 22, xcu)
      else if \<not> copy_ok then (- 14, xcu)
      else case configure_irq of None \<Rightarrow> (- 95, xcu) | Some f \<Rightarrow> (4, f xcu (enable \<noteq> 0)))"

text \<open>
  \<open>raced\<close> says whether another thread submits a command between the two looks at the statistics, \<open>fd\<close> is
  the result of \<open>anon_inode_getfd\<close>.
\<close>

definition kds_open_ucu ::
  "bool \<Rightarrow> bool \<Rightarrow> bool \<Rightarrow> ('c xrt_cu \<Rightarrow> bool \<Rightarrow> int \<times> 'c xrt_cu) option \<Rightarrow> int \<Rightarrow> 'c kds_sched \<Rightarrow> kds_client \<Rightarrow> u32 \<Rightarrow>
   int \<times> 'c kds_sched \<times> kds_client" where
  "kds_open_ucu ok1 ok2 raced user_manage_irq fd kds client cu_idx =
     (let m = k_cu_mgmt kds; i = unat cu_idx in
      if i \<ge> MAX_CUS then (- 22, kds, client)
      else case m_xcus m i of
        None \<Rightarrow> (- 22, kds, client)
      | Some p \<Rightarrow>
          if kds_test_refcnt client DOMAIN_PL i \<le> 0 then (- 22, kds, client)
          else if m_cu_refs m i AND CU_EXCLU_MASK = 0 then (- 22, kds, client)
          else (case kds_alloc_hw_ctx ok1 ok2 (client\<lparr>next_hw_ctx_id := 0\<rparr>) 0 of
            (None, cl1) \<Rightarrow> (- 22, kds, cl1)
          | (Some hw, cl1) \<Rightarrow>
              (let none = (client_stat_read cl1 (hw_ctx_idx hw) (\<lambda>st. s_cnt st i) = 0);
                   k1 = (if none then upd_cu kds p ((k_cus kds p)\<lparr>is_ucu := \<not> raced\<rparr>) else kds)
               in if none \<and> raced then (- 16, k1, cl1)
                  else case user_manage_irq of
                    None \<Rightarrow> (- 95, k1, cl1)
                  | Some f \<Rightarrow>
                      (let (r, x) = f (k_cus k1 p) True; k2 = upd_cu k1 p x
                       in if r \<noteq> 0 then (- 22, k2, cl1) else (fd, upd_cu k2 p (x\<lparr>ucu_event := 0\<rparr>), cl1)))))"

section \<open>The end of a client\<close>

text \<open>
  The loop that closes a context until its count is 0; each round decrements the count, so the first
  argument is the number of rounds. The others are those of \<open>kds_del_context\<close>.
\<close>

fun drop_ctx ::
  "nat \<Rightarrow> ((nat \<Rightarrow> 'c xrt_cu) \<Rightarrow> nat \<Rightarrow> 'c xrt_cu) \<Rightarrow> (nat \<Rightarrow> u64 \<times> u64) \<Rightarrow> bool \<Rightarrow> bool \<Rightarrow> 'c kds_sched \<Rightarrow> nat \<Rightarrow>
   kds_client \<Rightarrow> kds_client_cu_ctx \<Rightarrow> ('c kds_sched \<times> kds_client \<times> kds_client_cu_ctx) option" where
  "drop_ctx 0 env obs sync bad kds cid client ctx = Some (kds, client, ctx)"
| "drop_ctx (Suc n) env obs sync bad kds cid client ctx =
     do { (_, k1, cl1, ctx1) \<leftarrow> kds_del_context env obs sync bad kds cid client ctx;
          drop_ctx n env obs sync bad k1 cid cl1 ctx1 }"

text \<open>The loop over the contexts of a list. The last component of the result is the list that remains.\<close>

fun drop_ctxs ::
  "((nat \<Rightarrow> 'c xrt_cu) \<Rightarrow> nat \<Rightarrow> 'c xrt_cu) \<Rightarrow> (nat \<Rightarrow> u64 \<times> u64) \<Rightarrow> bool \<Rightarrow> bool \<Rightarrow> 'c kds_sched \<Rightarrow> nat \<Rightarrow>
   kds_client \<Rightarrow> kds_client_cu_ctx list \<Rightarrow> ('c kds_sched \<times> kds_client \<times> kds_client_cu_ctx list) option" where
  "drop_ctxs env obs sync bad kds cid client [] = Some (kds, client, [])"
| "drop_ctxs env obs sync bad kds cid client (ctx # rest) =
     do { (k1, cl1, ctx1) \<leftarrow> drop_ctx (unat (cc_ref_cnt ctx)) env obs sync bad kds cid client ctx;
          case kds_free_cu_ctx (ctx1 # rest) 0 of
            Inl _ \<Rightarrow> Some (k1, cl1, ctx1 # rest)
          | Inr _ \<Rightarrow> drop_ctxs env obs sync bad k1 cid cl1 rest }"

definition fini_ctx ::
  "((nat \<Rightarrow> 'c xrt_cu) \<Rightarrow> nat \<Rightarrow> 'c xrt_cu) \<Rightarrow> (nat \<Rightarrow> u64 \<times> u64) \<Rightarrow> bool \<Rightarrow> bool \<Rightarrow> 'c kds_sched \<Rightarrow> nat \<Rightarrow>
   kds_client \<Rightarrow> kds_client_cu_ctx list option \<Rightarrow> ('c kds_sched \<times> kds_client \<times> kds_client_cu_ctx list option) option" where
  "fini_ctx env obs sync bad kds cid client cctx =
     (case cctx of
        None \<Rightarrow> Some (kds, client, None)
      | Some l \<Rightarrow> do { (k1, cl1, l1) \<leftarrow> drop_ctxs env obs sync bad kds cid client l; Some (k1, cl1, Some l1) })"

definition kds_fini_hw_ctx_client ::
  "((nat \<Rightarrow> 'c xrt_cu) \<Rightarrow> nat \<Rightarrow> 'c xrt_cu) \<Rightarrow> (nat \<Rightarrow> u64 \<times> u64) \<Rightarrow> bool \<Rightarrow> bool \<Rightarrow> 'c kds_sched \<Rightarrow> nat \<Rightarrow>
   kds_client \<Rightarrow> nat \<Rightarrow> ('c kds_sched \<times> kds_client) option" where
  "kds_fini_hw_ctx_client env obs sync bad kds cid client j =
     do { (k1, cl1, l1) \<leftarrow> drop_ctxs env obs sync bad kds cid client (hw_cu_ctx_list (hw_ctx_list client ! j));
          Some (k1, cl1\<lparr>hw_ctx_list := (hw_ctx_list cl1)[j := (hw_ctx_list cl1 ! j)\<lparr>hw_cu_ctx_list := l1\<rparr>]\<rparr>) }"

text \<open>The loops over the legacy contexts and over the hardware contexts, which are given by their positions.\<close>

fun fini_legacy ::
  "((nat \<Rightarrow> 'c xrt_cu) \<Rightarrow> nat \<Rightarrow> 'c xrt_cu) \<Rightarrow> (nat \<Rightarrow> u64 \<times> u64) \<Rightarrow> bool \<Rightarrow> bool \<Rightarrow> nat list \<Rightarrow> 'c kds_sched \<Rightarrow> nat \<Rightarrow>
   kds_client \<Rightarrow> ('c kds_sched \<times> kds_client) option" where
  "fini_legacy env obs sync bad [] kds cid client = Some (kds, client)"
| "fini_legacy env obs sync bad (j # js) kds cid client =
     do { (k1, cl1, l1) \<leftarrow> fini_ctx env obs sync bad kds cid client (Some (cl_ctx_list client ! j));
          fini_legacy env obs sync bad js k1 cid (cl1\<lparr>cl_ctx_list := (cl_ctx_list cl1)[j := the l1]\<rparr>) }"

fun fini_hw_ctxs ::
  "((nat \<Rightarrow> 'c xrt_cu) \<Rightarrow> nat \<Rightarrow> 'c xrt_cu) \<Rightarrow> (nat \<Rightarrow> u64 \<times> u64) \<Rightarrow> bool \<Rightarrow> bool \<Rightarrow> nat list \<Rightarrow> 'c kds_sched \<Rightarrow> nat \<Rightarrow>
   kds_client \<Rightarrow> ('c kds_sched \<times> kds_client) option" where
  "fini_hw_ctxs env obs sync bad [] kds cid client = Some (kds, client)"
| "fini_hw_ctxs env obs sync bad (j # js) kds cid client =
     do { (k1, cl1) \<leftarrow> kds_fini_hw_ctx_client env obs sync bad kds cid client j;
          fini_hw_ctxs env obs sync bad js k1 cid cl1 }"

text \<open>The default context is freed when it is the first with its index and has no CUs.\<close>

definition free_default :: "kds_client \<Rightarrow> kds_client" where
  "free_default client =
     (case find (\<lambda>j. hw_ctx_idx (hw_ctx_list client ! j) = DEFAULT_HW_CTX_ID) [0..<length (hw_ctx_list client)] of
        None \<Rightarrow> client
      | Some j \<Rightarrow> (case kds_free_hw_ctx client j of Inl _ \<Rightarrow> client | Inr cl \<Rightarrow> cl))"

definition kds_fini_client ::
  "((nat \<Rightarrow> 'c xrt_cu) \<Rightarrow> nat \<Rightarrow> 'c xrt_cu) \<Rightarrow> (nat \<Rightarrow> u64 \<times> u64) \<Rightarrow> bool \<Rightarrow> bool \<Rightarrow> 'c kds_sched \<Rightarrow> nat \<Rightarrow>
   kds_client \<Rightarrow> ('c kds_sched \<times> kds_client) option" where
  "kds_fini_client env obs sync bad kds cid client =
     do { (k1, cl1) \<leftarrow> (if cl_ctx client \<noteq> None \<or> cl_ctx_list client \<noteq> []
                       then do { (k, cl, l) \<leftarrow> fini_ctx env obs sync bad kds cid client (cl_ctx client);
                                 (k', cl') \<leftarrow> fini_legacy env obs sync bad [0..<length (cl_ctx_list client)] k cid (cl\<lparr>cl_ctx := l\<rparr>);
                                 Some (k', free_default cl') }
                       else Some (kds, client));
          (k2, cl2) \<leftarrow> fini_hw_ctxs env obs sync bad [0..<length (hw_ctx_list cl1)] k1 cid cl1;
          let cl3 = snd (kds_client_set_cu_refs_zero cl2 DOMAIN_PS); cl4 = snd (kds_client_set_cu_refs_zero cl3 DOMAIN_PL) in
          Some (k2\<lparr>k_clients := remove1 cid (k_clients k2), k_num_client := k_num_client k2 - 1\<rparr>, cl4\<lparr>cl_refcnt := None\<rparr>) }"

section \<open>Properties\<close>

lemma del_context_ref:
  "kds_del_context env obs sync bad kds cid client ctx = Some (r, k1, cl1, ctx1) \<Longrightarrow>
     cc_ref_cnt ctx \<noteq> 0 \<Longrightarrow> cc_ref_cnt ctx1 = cc_ref_cnt ctx - 1"
  by (auto simp: kds_del_context_def Let_def bind_eq_Some_conv case_prod_beta split: if_splits)

text \<open>The number of rounds is right: after them the count is 0.\<close>

lemma drop_ctx_zero:
  "drop_ctx n env obs sync bad kds cid client ctx = Some (k1, cl1, ctx1) \<Longrightarrow> n = unat (cc_ref_cnt ctx) \<Longrightarrow> cc_ref_cnt ctx1 = 0"
proof (induction n arbitrary: kds client ctx)
  case 0
  then show ?case by (simp add: unat_eq_zero)
next
  case (Suc n)
  from Suc.prems(1) obtain r k2 cl2 ctx2 where d: "kds_del_context env obs sync bad kds cid client ctx = Some (r, k2, cl2, ctx2)"
    and rest: "drop_ctx n env obs sync bad k2 cid cl2 ctx2 = Some (k1, cl1, ctx1)"
    by (auto simp: bind_eq_Some_conv)
  have nz: "cc_ref_cnt ctx \<noteq> 0" using Suc.prems(2) by auto
  with del_context_ref [OF d] have "n = unat (cc_ref_cnt ctx2)" using Suc.prems(2) by (simp add: unat_minus_one)
  then show ?case by (rule Suc.IH [OF rest])
qed

text \<open>So every context of the list is freed.\<close>

lemma drop_ctxs_all:
  "drop_ctxs env obs sync bad kds cid client l = Some (k1, cl1, l1) \<Longrightarrow> l1 = []"
proof (induction l arbitrary: kds client)
  case (Cons ctx l)
  then show ?case
    by (auto simp: bind_eq_Some_conv kds_free_cu_ctx_def split: if_splits dest: drop_ctx_zero)
qed simp

lemma drop_ctx_2:
  "drop_ctx 2 env obs sync bad kds cid client ctx =
     do { (_, k1, cl1, ctx1) \<leftarrow> kds_del_context env obs sync bad kds cid client ctx;
          (_, k2, cl2, ctx2) \<leftarrow> kds_del_context env obs sync bad k1 cid cl1 ctx1;
          Some (k2, cl2, ctx2) }"
  by (simp add: numeral_2_eq_2 split: Option.bind_split prod.split)

text \<open>
  C32. A client that opens a CU twice through one context and exits leaves the CU reserved: both calls
  and the exit succeed, the client's counts are gone, and the CU still counts it.
\<close>

theorem client_exit_leaks:
  assumes "m_xcus (k_cu_mgmt kds) (unat (cc_cu_idx ctx)) = Some p" and "unat (cc_cu_idx ctx) < MAX_CUS"
    and "cc_cu_domain ctx = DOMAIN_PL" and "cc_flags ctx = 0" and "cc_ref_cnt ctx = 0" and "cc_hw_ctx ctx = Some h"
    and "client = \<lparr>cl_ctx = None, cl_ctx_list = [], hw_ctx_list = [hw], next_hw_ctx_id = nx,
           cl_refcnt = Some \<lparr>cl_cu_refs = (\<lambda>_. 0), cl_scu_refs = (\<lambda>_. 0)\<rparr>\<rparr>"
    and "m_cu_refs (k_cu_mgmt kds) (unat (cc_cu_idx ctx)) = 0"
    and "s_cnt (hw_stats hw) (unat (cc_cu_idx ctx)) = c_cnt (hw_stats hw) (unat (cc_cu_idx ctx))"
  shows "\<exists>k1 c1 x1 k2 c2 x2 k3 c3. kds_add_context kds client ctx = Some (0, k1, c1, x1) \<and>
    kds_add_context k1 c1 x1 = Some (0, k2, c2, x2) \<and>
    kds_fini_client env obs sync bad k2 cid (c2\<lparr>hw_ctx_list := [hw\<lparr>hw_cu_ctx_list := [x2]\<rparr>]\<rparr>) = Some (k3, c3) \<and>
    cl_refcnt c3 = None \<and> m_cu_refs (k_cu_mgmt k3) (unat (cc_cu_idx ctx)) = 1"
proof -
  define i where "i = unat (cc_cu_idx ctx)"
  define cl where "cl n l = \<lparr>cl_ctx = None, cl_ctx_list = [], hw_ctx_list = [hw\<lparr>hw_cu_ctx_list := l\<rparr>], next_hw_ctx_id = nx,
     cl_refcnt = Some \<lparr>cl_cu_refs = (\<lambda>_. 0)(i := n), cl_scu_refs = (\<lambda>_. 0)\<rparr>\<rparr>" for n l
  define k1 where "k1 = kds\<lparr>k_cu_mgmt := (k_cu_mgmt kds)\<lparr>m_cu_refs := (m_cu_refs (k_cu_mgmt kds))(i := 1)\<rparr>\<rparr>"
  have i: "m_xcus (k_cu_mgmt kds) i = Some p" "i < MAX_CUS" "m_cu_refs (k_cu_mgmt kds) i = 0"
    "s_cnt (hw_stats hw) i = c_cnt (hw_stats hw) i" using assms by (simp_all add: i_def)
  have a1: "kds_add_context kds client ctx = Some (0, k1, cl 1 (hw_cu_ctx_list hw), ctx\<lparr>cc_ref_cnt := 1\<rparr>)"
    using assms(3-7) i by (simp add: ctx_defs i_def [symmetric] Let_def k1_def cl_def fun_eq_iff)
  have a2: "kds_add_context k1 (cl 1 l) (ctx\<lparr>cc_ref_cnt := 1\<rparr>) = Some (0, k1, cl 2 l, ctx\<lparr>cc_ref_cnt := 2\<rparr>)" for l
    using assms(3-6) i by (simp add: ctx_defs i_def [symmetric] Let_def k1_def cl_def)
  let ?x = "ctx\<lparr>cc_ref_cnt := 2\<rparr>"
  have d: "drop_ctxs env obs sync bad k1 cid (cl 2 l) [?x] = Some (k1, cl 1 l, [])" for l
    using assms(3-6) i
    by (simp add: drop_ctx_2 kds_del_context_def kds_del_cu_context_def ctx_defs i_def [symmetric] Let_def k1_def cl_def
        client_stat_read_def submitted_on_def completed_on_def kds_free_cu_ctx_def)
  have c: "cl_ctx (cl n l) = None" "cl_ctx_list (cl n l) = []" "hw_ctx_list (cl n l) = [hw\<lparr>hw_cu_ctx_list := l\<rparr>]" for n l
    by (simp_all add: cl_def)
  have "\<exists>k3 c3. kds_fini_client env obs sync bad k1 cid (cl 2 [?x]) = Some (k3, c3) \<and> cl_refcnt c3 = None \<and>
      m_cu_refs (k_cu_mgmt k3) i = 1"
    by (simp add: kds_fini_client_def kds_fini_hw_ctx_client_def Let_def d c k1_def [THEN arg_cong, of "\<lambda>k. m_cu_refs (k_cu_mgmt k) i"]
        del: drop_ctxs.simps)
  then show ?thesis
    using a1 a2 [of "hw_cu_ctx_list hw"] by (simp add: i_def [symmetric] cl_def)
qed

text \<open>Witness of C32.\<close>

theorem client_exit_leaks_witness:
  "\<exists>k1 c1 x1 k2 c2 x2 k3 c3. kds_add_context (demo_sched (demo_cu CTRL_HS)) demo_client (demo_ctx 0) = Some (0, k1, c1, x1) \<and>
    kds_add_context k1 c1 x1 = Some (0, k2, c2, x2) \<and>
    kds_fini_client id (\<lambda>_. (0, 0)) False False k2 0
      (c2\<lparr>hw_ctx_list := [(hd (hw_ctx_list demo_client))\<lparr>hw_cu_ctx_list := [x2]\<rparr>]\<rparr>) = Some (k3, c3) \<and>
    cl_refcnt c3 = None \<and> m_cu_refs (k_cu_mgmt k3) 0 = 1"
  using client_exit_leaks [of "demo_sched (demo_cu CTRL_HS)" "demo_ctx 0" 0 0 demo_client "hd (hw_ctx_list demo_client)" 1
      id "\<lambda>_. (0, 0)" False False 0]
  by (simp add: demo_defs zero_stats_def)

text \<open>
  When the driver of a CU refuses to hand over its interrupt, \<open>kds_open_ucu\<close> fails but leaves the CU
  marked as user-managed, so that commands for it are refused from then on.
\<close>

theorem open_ucu_leaves_mark:
  assumes "m_xcus (k_cu_mgmt kds) (unat cu_idx) = Some p" and "unat cu_idx < MAX_CUS"
    and "kds_test_refcnt client DOMAIN_PL (unat cu_idx) > 0" and "m_cu_refs (k_cu_mgmt kds) (unat cu_idx) AND CU_EXCLU_MASK \<noteq> 0"
    and "\<forall>x. f x True = (- 22, x)"
  shows "\<exists>kds' client'. kds_open_ucu True True False (Some f) fd kds client cu_idx = (- 22, kds', client') \<and> is_ucu (k_cus kds' p)"
proof -
  have zero: "client_stat_read (c\<lparr>hw_ctx_list := l @ [\<lparr>hw_ctx_idx = n, hw_slot_idx = s, hw_cu_ctx_list = a, hw_graph_ctx_list = b,
      hw_stats = zero_stats\<rparr>], next_hw_ctx_id := m\<rparr>) n (\<lambda>st. s_cnt st i) = 0" for c l n s a b m i
    by (simp add: client_stat_read_def zero_stats_def)
  show ?thesis
    using assms by (simp add: kds_open_ucu_def kds_alloc_hw_ctx_def Let_def zero upd_cu_def)
qed

end
