(* ===== verification/Cu_Subdev.thy ===== *)
theory Cu_Subdev
  imports Kds_Release
begin

text \<open>
  The interrupts of a user-managed CU in \<open>pcie/driver/linux/xocl/subdev/cu.c\<close>, with the file operations of
  \<open>Kds_Release\<close>. The calls of the interrupt controller, which is another subdevice, are recorded.
\<close>

section \<open>Interrupts\<close>

datatype cu_handler = Cu_Isr | Ucu_Isr

datatype intc_call = Intc_Config bool | Intc_Request "cu_handler option" | Ert_User_Enable

text \<open>\<open>uc_irq_disabled\<close> is the bit \<open>IRQ_DISABLED\<close> of \<open>flag\<close>; \<open>uc_intc\<close> are the calls, oldest first.\<close>

record 'c xocl_cu =
  uc_base :: "'c xrt_cu"
  uc_irq_disabled :: bool
  uc_intc :: "intc_call list"

definition intc_calls :: "'c xocl_cu \<Rightarrow> intc_call list \<Rightarrow> 'c xocl_cu" where
  "intc_calls xcu l = xcu\<lparr>uc_intc := uc_intc xcu @ l\<rparr>"

definition ucu_isr :: "'c xocl_cu \<Rightarrow> 'c xocl_cu" where
  "ucu_isr xcu =
     (let b = uc_base xcu; x1 = xcu\<lparr>uc_base := b\<lparr>ucu_event := ucu_event b + 1\<rparr>\<rparr>
      in if uc_irq_disabled x1 then x1 else intc_calls (x1\<lparr>uc_irq_disabled := True\<rparr>) [Intc_Config False])"

text \<open>\<open>ret\<close> is the result of the request for the handler.\<close>

definition user_manage_irq :: "int \<Rightarrow> 'c xocl_cu \<Rightarrow> bool \<Rightarrow> int \<times> 'c xocl_cu" where
  "user_manage_irq ret xcu user_manage =
     (if \<not> ci_intr_enable (x_info (uc_base xcu)) then (- 22, xcu)
      else let x1 = intc_calls xcu [Intc_Config False, Intc_Request None,
                                    Intc_Request (Some (if user_manage then Ucu_Isr else Cu_Isr))]
           in if ret \<noteq> 0 then (ret, x1)
              else if user_manage then (0, intc_calls (x1\<lparr>uc_irq_disabled := True\<rparr>) [Intc_Config False])
              else (0, intc_calls x1 [Ert_User_Enable, Intc_Config True]))"

definition configure_irq :: "'c xocl_cu \<Rightarrow> bool \<Rightarrow> 'c xocl_cu" where
  "configure_irq xcu enable =
     (if \<not> is_ucu (uc_base xcu)
      then intc_calls xcu (if enable then [Intc_Request (Some Cu_Isr), Intc_Config True]
                           else [Intc_Config False, Intc_Request None])
      else if enable
      then (if uc_irq_disabled xcu then intc_calls (xcu\<lparr>uc_irq_disabled := False\<rparr>) [Intc_Config True] else xcu)
      else (if uc_irq_disabled xcu then xcu else intc_calls (xcu\<lparr>uc_irq_disabled := True\<rparr>) [Intc_Config False]))"

section \<open>Runs of a user-managed CU\<close>

text \<open>What the calls leave at the controller: whether the interrupt is enabled, and its handler.\<close>

definition intc_enabled :: "intc_call list \<Rightarrow> bool" where
  "intc_enabled l = foldl (\<lambda>b c. case c of Intc_Config e \<Rightarrow> e | _ \<Rightarrow> b) False l"

definition intc_handler :: "intc_call list \<Rightarrow> cu_handler option" where
  "intc_handler l = foldl (\<lambda>f c. case c of Intc_Request g \<Rightarrow> g | _ \<Rightarrow> f) None l"

text \<open>
  From a successful opening on: interrupts, which come only while they are enabled, writes that enable or
  disable them, and reads of the number of events. The state has the number of interrupts and the
  numbers that were read.
\<close>

inductive ucu_reach :: "'c xocl_cu \<Rightarrow> 'c xocl_cu \<times> nat \<times> int list \<Rightarrow> bool" for x where
  opened: "user_manage_irq 0 (x\<lparr>uc_base := (uc_base x)\<lparr>is_ucu := True\<rparr>\<rparr>) True = (0, x1) \<Longrightarrow>
    ucu_reach x (x1\<lparr>uc_base := (uc_base x1)\<lparr>ucu_event := 0\<rparr>\<rparr>, 0, [])"
| interrupt: "ucu_reach x (y, n, rs) \<Longrightarrow> intc_enabled (uc_intc y) \<Longrightarrow> ucu_reach x (ucu_isr y, Suc n, rs)"
| wrote: "ucu_reach x (y, n, rs) \<Longrightarrow> ucu_reach x (configure_irq y enable, n, rs)"
| got: "ucu_reach x (y, n, rs) \<Longrightarrow> kds_ucu_read interrupted True 4 (uc_base y) = Some (4, Some ev, b) \<Longrightarrow>
    ucu_reach x (y\<lparr>uc_base := b\<rparr>, n, rs @ [ev])"

lemma intc_append:
  "intc_enabled (l @ [Intc_Config e]) = e" "intc_enabled (l @ [Intc_Request g]) = intc_enabled l"
  "intc_handler (l @ [Intc_Config e]) = intc_handler l" "intc_handler (l @ [Intc_Request g]) = g"
  by (simp_all add: intc_enabled_def intc_handler_def)


definition demo_xocl_cu :: "unit xocl_cu" where
  "demo_xocl_cu = \<lparr>uc_base = (demo_cu CTRL_HS)\<lparr>x_info := (x_info (demo_cu CTRL_HS))\<lparr>ci_intr_enable := True\<rparr>\<rparr>,
     uc_irq_disabled = False, uc_intc = []\<rparr>"


end
