(* ===== verification/Xocl_Xgq.thy ===== *)
theory Xocl_Xgq
  imports Xgq Xrt_Cu
begin

text \<open>
  The driver's side of a queue pair that several CUs share (\<open>pcie/driver/linux/xocl/xocl_xgq.c\<close>), and the
  CU that is reached through it (\<open>subdev/cu_xgq.c\<close>). Each CU is a client of the queue. The memory of the
  device is that of \<open>Xgq\<close>, commands are addresses into the heap of \<open>Xrt_Cu\<close>.
\<close>

section \<open>State\<close>

abbreviation (input) MAX_CLIENTS :: nat where "MAX_CLIENTS \<equiv> 128"
abbreviation (input) XGQ_PROT_NEED_RESP :: u32 where "XGQ_PROT_NEED_RESP \<equiv> 1"

text \<open>\<open>xxc_client\<close> and \<open>xxc_notify_sem\<close> name the CU and its semaphore.\<close>

record xocl_xgq_client =
  xxc_client :: nat
  xxc_submitted :: "nat list"
  xxc_num_submit :: int
  xxc_completed :: "nat list"
  xxc_num_complete :: int
  xxc_prot :: u32
  xxc_notify_sem :: nat
  xxc_is_used :: bool

record xocl_xgq =
  xx_xgq :: xgq
  xx_id :: nat
  xx_ref_cnt :: int
  xx_addr :: u64
  xx_clients :: "nat \<Rightarrow> xocl_xgq_client"
  xx_num_client :: nat
  xx_sq_prod_int :: u64

definition upd_client :: "xocl_xgq \<Rightarrow> nat \<Rightarrow> xocl_xgq_client \<Rightarrow> xocl_xgq" where
  "upd_client xgq i c = xgq\<lparr>xx_clients := (xx_clients xgq)(i := c)\<rparr>"

section \<open>Submission\<close>

definition xocl_xgq_write_queue :: "mem \<Rightarrow> u64 \<Rightarrow> u32 list \<Rightarrow> mem" where
  "xocl_xgq_write_queue m dst src = xgq_copy_to_ring m 0 src dst"

definition xocl_xgq_read_queue :: "mem \<Rightarrow> u64 \<Rightarrow> nat \<Rightarrow> u32 list" where
  "xocl_xgq_read_queue m src n = xgq_copy_from_ring m 0 src n"

definition xocl_xgq_trigger_sq_intr :: "mem \<Rightarrow> xocl_xgq \<Rightarrow> mem" where
  "xocl_xgq_trigger_sq_intr m xgq =
     (if xx_sq_prod_int xgq = 0 then m else m(xx_sq_prod_int xgq := push_bit (xx_id xgq) 1))"

text \<open>The identity of a command: the low seven bits are the client.\<close>

definition xgq_cmd_cid :: "u16 \<Rightarrow> nat \<Rightarrow> u16" where
  "xgq_cmd_cid counter client_id = push_bit 7 counter + of_nat client_id"

text \<open>
  The identity is the low half of the second word of the command. The counter \<open>cid\<close> is global. A command
  shorter than its header, or than its size says, is a fault.
\<close>

definition xocl_xgq_set_command ::
  "u16 \<Rightarrow> mem \<Rightarrow> cmd_heap \<Rightarrow> xocl_xgq \<Rightarrow> nat \<Rightarrow> nat \<Rightarrow> (unit res \<times> u16 \<times> mem \<times> cmd_heap \<times> xocl_xgq) option" where
  "xocl_xgq_set_command cid m h xgq client_id xcmd =
     (let k = h xcmd; info = kc_info k in
      if length info < 2 then None
      else let k1 = k\<lparr>kc_info := info[1 := set_field 0 16 (ucast (xgq_cmd_cid cid client_id)) (info ! 1)]\<rparr>;
               h1 = h(xcmd := k1); (r, q1) = xgq_produce False m (xx_xgq xgq); x1 = xgq\<lparr>xx_xgq := q1\<rparr>
           in case r of
                Inl err \<Rightarrow> Some (Inl err, cid + 1, m, h1, x1)
              | Inr addr \<Rightarrow>
                  let n = unat (kc_isize k1) div 4; c = xx_clients x1 client_id in
                  if n > length info then None
                  else Some (Inr (), cid + 1, xocl_xgq_write_queue m addr (take n (kc_info k1)), h1,
                             upd_client x1 client_id (c\<lparr>xxc_submitted := xxc_submitted c @ [xcmd],
                                                        xxc_num_submit := xxc_num_submit c + 1\<rparr>)))"

definition xocl_xgq_notify :: "mem \<Rightarrow> xocl_xgq \<Rightarrow> mem" where
  "xocl_xgq_notify m xgq = xocl_xgq_trigger_sq_intr (xgq_notify_peer_produced False m (xx_xgq xgq)) xgq"

section \<open>Responses\<close>

text \<open>The value of a status word; \<open>None\<close> is a value outside the enumeration.\<close>

definition word_status :: "u32 \<Rightarrow> kds_status option" where
  "word_status w =
     (let l = [KDS_NEW, KDS_QUEUED, KDS_RUNNING, KDS_COMPLETED, KDS_ERROR, KDS_ABORT, KDS_TIMEOUT, KDS_SKCRASHED, KDS_STAT_MAX]
      in if unat w < length l then Some (l ! unat w) else None)"

text \<open>The result \<open>Inr\<close> is the status that is written for the caller.\<close>

definition xocl_xgq_handle_resp ::
  "mem \<Rightarrow> cmd_heap \<Rightarrow> xocl_xgq \<Rightarrow> nat \<Rightarrow> u64 \<Rightarrow> (kds_status res \<times> cmd_heap \<times> xocl_xgq) option" where
  "xocl_xgq_handle_resp m h xgq client_id resp_addr =
     (let c = xx_clients xgq client_id in
      case xxc_submitted c of
        [] \<Rightarrow> Some (Inl EINVAL, h, xgq)
      | xcmd # rest \<Rightarrow>
          do { k \<leftarrow> (if xxc_prot c AND XGQ_PROT_NEED_RESP \<noteq> 0
                      then do { st \<leftarrow> word_status (m (resp_addr + 4));
                                Some ((h xcmd)\<lparr>kc_rcode := m (resp_addr + 12), kc_status := st\<rparr>) }
                      else Some ((h xcmd)\<lparr>kc_status := KDS_COMPLETED\<rparr>));
               Some (Inr (kc_status k), h(xcmd := k),
                     upd_client xgq client_id
                       (c\<lparr>xxc_submitted := rest, xxc_completed := xxc_completed c @ [xcmd],
                          xxc_num_submit := xxc_num_submit c - 1, xxc_num_complete := xxc_num_complete c + 1\<rparr>)) })"

text \<open>The client of a response: the header of the response has the identity of the command.\<close>

definition resp_client :: "mem \<Rightarrow> xocl_xgq \<Rightarrow> nat \<Rightarrow> u64 \<Rightarrow> nat" where
  "resp_client m xgq client_id addr = (if xx_num_client xgq > 1 then unat (m addr AND 127) else client_id)"

text \<open>The second component is the status that is written, if any.\<close>

definition xocl_xgq_check_response ::
  "mem \<Rightarrow> cmd_heap \<Rightarrow> xocl_xgq \<Rightarrow> nat \<Rightarrow>
   (unit res \<times> kds_status option \<times> mem \<times> cmd_heap \<times> xocl_xgq) option" where
  "xocl_xgq_check_response m h xgq client_id =
     (let (r, q1) = xgq_consume False m (xx_xgq xgq); x1 = xgq\<lparr>xx_xgq := q1\<rparr> in
      case r of
        Inl err \<Rightarrow> Some (Inl err, None, m, h, x1)
      | Inr addr \<Rightarrow>
          let target_id = resp_client m x1 client_id addr in
          do { (r2, h1, x2) \<leftarrow> xocl_xgq_handle_resp m h x1 target_id addr;
               case r2 of
                 Inl err \<Rightarrow> Some (Inl err, None, m, h1, x2)
               | Inr st \<Rightarrow> Some (if client_id \<noteq> target_id then Inl ENOENT else Inr (), Some st,
                                xgq_notify_peer_consumed False m (xx_xgq x2), h1, x2) })"

definition xocl_xgq_get_command :: "xocl_xgq \<Rightarrow> nat \<Rightarrow> nat option \<times> xocl_xgq" where
  "xocl_xgq_get_command xgq client_id =
     (let c = xx_clients xgq client_id in
      case xxc_completed c of
        [] \<Rightarrow> (None, xgq)
      | xcmd # rest \<Rightarrow>
          (Some xcmd, upd_client xgq client_id (c\<lparr>xxc_completed := rest, xxc_num_complete := xxc_num_complete c - 1\<rparr>)))"

definition xocl_xgq_abort ::
  "(kds_command \<Rightarrow> bool) \<Rightarrow> cmd_heap \<Rightarrow> xocl_xgq \<Rightarrow> nat \<Rightarrow> unit res \<times> cmd_heap \<times> xocl_xgq" where
  "xocl_xgq_abort match h xgq client_id =
     (let c = xx_clients xgq client_id; moved = filter (\<lambda>t. match (h t)) (xxc_submitted c)
      in (if moved = [] then Inr () else Inl EBUSY,
          fold (\<lambda>t h. set_cmd_status h t KDS_TIMEOUT) moved h,
          upd_client xgq client_id
            (c\<lparr>xxc_submitted := filter (\<lambda>t. \<not> match (h t)) (xxc_submitted c), xxc_completed := xxc_completed c @ moved,
               xxc_num_submit := xxc_num_submit c - int (length moved),
               xxc_num_complete := xxc_num_complete c + int (length moved)\<rparr>)))"

section \<open>Clients of the queue\<close>

text \<open>The result is \<open>None\<close> when the queue is freed.\<close>

definition xocl_xgq_detach :: "xocl_xgq \<Rightarrow> nat \<Rightarrow> xocl_xgq option" where
  "xocl_xgq_detach xgq client_id =
     (let x1 = upd_client xgq client_id ((xx_clients xgq client_id)\<lparr>xxc_is_used := False\<rparr>)
      in if list_ex (\<lambda>i. xxc_is_used (xx_clients x1 i)) [0..<xx_num_client x1] then Some x1 else None)"

definition xgq_get_next_available_entry :: "xocl_xgq \<Rightarrow> nat res \<times> xocl_xgq" where
  "xgq_get_next_available_entry xgq =
     (let (c_id, x1) = (case find (\<lambda>i. \<not> xxc_is_used (xx_clients xgq i)) [0..<xx_num_client xgq] of
                          Some i \<Rightarrow> (i, xgq)
                        | None \<Rightarrow> (xx_num_client xgq, xgq\<lparr>xx_num_client := xx_num_client xgq + 1\<rparr>))
      in (if xx_num_client x1 \<ge> MAX_CLIENTS then Inl EINVAL else Inr c_id, x1))"

definition xocl_xgq_attach :: "xocl_xgq \<Rightarrow> nat \<Rightarrow> nat \<Rightarrow> u32 \<Rightarrow> nat res \<times> xocl_xgq" where
  "xocl_xgq_attach xgq client sem prot =
     (if xx_num_client xgq \<ge> MAX_CLIENTS then (Inl ENOMEM, xgq)
      else case xgq_get_next_available_entry xgq of
        (Inl err, x1) \<Rightarrow> (Inl err, x1)
      | (Inr i, x1) \<Rightarrow>
          (Inr i, upd_client x1 i \<lparr>xxc_client = client, xxc_submitted = [], xxc_num_submit = 0, xxc_completed = [],
             xxc_num_complete = 0, xxc_prot = prot, xxc_notify_sem = sem, xxc_is_used = True\<rparr>))"

text \<open>The semaphores that the interrupt handler raises.\<close>

definition xgq_isr :: "xocl_xgq \<Rightarrow> nat list" where
  "xgq_isr xgq =
     map (\<lambda>i. xxc_notify_sem (xx_clients xgq i))
       (filter (\<lambda>i. xxc_is_used (xx_clients xgq i)) [0..<xx_num_client xgq])"

definition xocl_incr_xgq_ref_cnt :: "xocl_xgq \<Rightarrow> int \<times> xocl_xgq" where
  "xocl_incr_xgq_ref_cnt xgq = (xx_ref_cnt xgq + 1, xgq\<lparr>xx_ref_cnt := xx_ref_cnt xgq + 1\<rparr>)"

definition xocl_decr_xgq_ref_cnt :: "xocl_xgq \<Rightarrow> int \<times> xocl_xgq" where
  "xocl_decr_xgq_ref_cnt xgq = (xx_ref_cnt xgq - 1, xgq\<lparr>xx_ref_cnt := xx_ref_cnt xgq - 1\<rparr>)"

text \<open>\<open>zero\<close> is the zeroed structure of the allocation, which \<open>ok\<close> says succeeds.\<close>

definition xocl_xgq_init ::
  "bool \<Rightarrow> mem \<Rightarrow> xocl_xgq \<Rightarrow> u64 \<Rightarrow> nat \<Rightarrow> u64 \<Rightarrow> u64 \<Rightarrow> u64 \<Rightarrow> int + (xocl_xgq \<times> mem)" where
  "xocl_xgq_init ok m zero addr xid sq_prod cq_prod sq_prod_int =
     (if \<not> ok then Inl (- 12)
      else case xgq_attach m (xx_xgq zero) 0 0 addr sq_prod cq_prod of
        Inl _ \<Rightarrow> Inl (- 19)
      | Inr (q, m1) \<Rightarrow>
          Inr (zero\<lparr>xx_xgq := q, xx_addr := addr, xx_id := xid, xx_sq_prod_int := sq_prod_int, xx_ref_cnt := 0\<rparr>, m1))"

section \<open>A CU behind the queue\<close>

text \<open>Credits, configuration, interrupts and reset have nothing to do.\<close>

record xrt_cu_xgq =
  cx_client_id :: nat
  cx_cu_idx :: u32
  cx_cu_domain :: u32

definition cu_xgq_alloc_credit :: int where "cu_xgq_alloc_credit = 1"

definition cu_xgq_peek_credit :: int where "cu_xgq_peek_credit = 1"

definition cu_xgq_configure :: int where "cu_xgq_configure = 0"

definition cu_xgq_start :: "mem \<Rightarrow> xocl_xgq \<Rightarrow> mem" where
  "cu_xgq_start m xgq = xocl_xgq_notify m xgq"

text \<open>
  The loop of \<open>cu_xgq_check\<close>. \<open>dev n\<close> is what the device does to the memory between two rounds, \<open>st\<close> the last
  status that was written.
\<close>

partial_function (option) check_loop ::
  "(nat \<Rightarrow> mem \<Rightarrow> mem) \<Rightarrow> nat \<Rightarrow> nat \<Rightarrow> kds_status option \<Rightarrow> mem \<Rightarrow> cmd_heap \<Rightarrow> xocl_xgq \<Rightarrow>
   (kds_status option \<times> mem \<times> cmd_heap \<times> xocl_xgq) option" where
  "check_loop dev n client_id st m h xgq =
     Option.bind (xocl_xgq_check_response m h xgq client_id) (\<lambda>r.
       let st1 = (case fst (snd r) of None \<Rightarrow> st | Some s \<Rightarrow> Some s) in
       if isl (fst r) then Some (st1, snd (snd r))
       else check_loop dev (Suc n) client_id st1 (dev n (fst (snd (snd r)))) (fst (snd (snd (snd r)))) (snd (snd (snd (snd r)))))"

declare check_loop.simps [code]

text \<open>The result is the new status of the CU; one command more can be submitted in any case.\<close>

definition cu_xgq_check ::
  "(nat \<Rightarrow> mem \<Rightarrow> mem) \<Rightarrow> mem \<Rightarrow> cmd_heap \<Rightarrow> xocl_xgq \<Rightarrow> xrt_cu_xgq \<Rightarrow> (u32 \<times> mem \<times> cmd_heap \<times> xocl_xgq) option" where
  "cu_xgq_check dev m h xgq cu =
     do { (st, r) \<leftarrow> check_loop dev 0 (cx_client_id cu) None m h xgq;
          Some (if st = Some KDS_SKCRASHED then CU_AP_CRASHED else CU_AP_IDLE, r) }"

definition cu_xgq_submit_config ::
  "u16 \<Rightarrow> mem \<Rightarrow> cmd_heap \<Rightarrow> xocl_xgq \<Rightarrow> xrt_cu_xgq \<Rightarrow> nat \<Rightarrow> (unit res \<times> u16 \<times> mem \<times> cmd_heap \<times> xocl_xgq) option" where
  "cu_xgq_submit_config cid m h xgq cu xcmd =
     (let k = h xcmd; info = kc_info k in
      if length info < 2 then None
      else let w = set_field 28 4 (cx_cu_domain cu) (set_field 16 12 (cx_cu_idx cu) (info ! 1))
           in xocl_xgq_set_command cid m (h(xcmd := k\<lparr>kc_info := info[1 := w]\<rparr>)) xgq (cx_client_id cu) xcmd)"

definition cu_xgq_get_complete :: "xocl_xgq \<Rightarrow> xrt_cu_xgq \<Rightarrow> nat option \<times> xocl_xgq" where
  "cu_xgq_get_complete xgq cu = xocl_xgq_get_command xgq (cx_client_id cu)"

definition cu_xgq_abort :: "(kds_command \<Rightarrow> bool) \<Rightarrow> cmd_heap \<Rightarrow> xocl_xgq \<Rightarrow> xrt_cu_xgq \<Rightarrow> unit res \<times> cmd_heap \<times> xocl_xgq" where
  "cu_xgq_abort match h xgq cu = xocl_xgq_abort match h xgq (cx_client_id cu)"

text \<open>\<open>init\<close> is the result of \<open>xrt_cu_init\<close>.\<close>

definition xrt_cu_xgq_init :: "bool \<Rightarrow> unit res \<Rightarrow> xocl_xgq \<Rightarrow> nat \<Rightarrow> nat \<Rightarrow> u32 \<Rightarrow> u32 \<Rightarrow> bool \<Rightarrow> xrt_cu_xgq res \<times> xocl_xgq" where
  "xrt_cu_xgq_init ok init xgq core sem idx domain slow_path =
     (if \<not> ok then (Inl ENOMEM, xgq)
      else case init of
        Inl err \<Rightarrow> (Inl err, xgq)
      | Inr _ \<Rightarrow>
          (case xocl_xgq_attach xgq core sem (if slow_path then XGQ_PROT_NEED_RESP else 0) of
             (Inl err, x1) \<Rightarrow> (Inl err, x1)
           | (Inr i, x1) \<Rightarrow> (Inr \<lparr>cx_client_id = i, cx_cu_idx = idx, cx_cu_domain = domain\<rparr>, x1)))"

section \<open>Identities\<close>

lemma cid_client:
  assumes "client_id < MAX_CLIENTS" and "get_field 0 16 w = ucast (xgq_cmd_cid counter client_id)"
  shows "unat (w AND 127) = client_id"
proof -
  have "w AND 127 = take_bit 7 w" by (simp add: take_bit_eq_mask mask_eq_exp_minus_1)
  also have "\<dots> = take_bit 7 (take_bit 16 w)" by (simp add: take_bit_take_bit)
  also have "\<dots> = take_bit 7 (ucast (xgq_cmd_cid counter client_id))" using assms(2) by (simp add: get_field_def)
  finally have a: "w AND 127 = take_bit 7 (ucast (xgq_cmd_cid counter client_id))" .
  have "unat (xgq_cmd_cid counter client_id) < 2 ^ LENGTH(16)" by (rule unsigned_less)
  then have "unat (ucast (xgq_cmd_cid counter client_id) :: u32) = unat (xgq_cmd_cid counter client_id)"
    by (simp add: unsigned_ucast_eq take_bit_nat_eq_self)
  then have "unat (w AND 127) = unat (take_bit 7 (xgq_cmd_cid counter client_id))"
    by (simp only: a unsigned_take_bit_eq)
  also have "\<dots> = take_bit 7 (unat (xgq_cmd_cid counter client_id))" by (rule unsigned_take_bit_eq)
  also have "\<dots> = unat (xgq_cmd_cid counter client_id) mod 128" by (simp add: take_bit_eq_mod)
  also have "unat (xgq_cmd_cid counter client_id) = (unat counter * 128 + client_id) mod 65536"
    by (simp add: xgq_cmd_cid_def push_bit_eq_mult unat_word_ariths unat_of_nat mod_simps)
  also have "\<dots> mod 128 = (unat counter * 128 + client_id) mod 128" by (rule mod_mod_cancel) simp
  also have "\<dots> = client_id" using assms(1) by simp
  finally show ?thesis .
qed

section \<open>Responses\<close>

text \<open>A client's commands in the order in which they complete, and that the counters are right.\<close>

definition client_order :: "xocl_xgq \<Rightarrow> nat \<Rightarrow> nat list" where
  "client_order xgq i = xxc_completed (xx_clients xgq i) @ xxc_submitted (xx_clients xgq i)"

definition client_counts :: "xocl_xgq \<Rightarrow> nat \<Rightarrow> bool" where
  "client_counts xgq i \<longleftrightarrow>
     xxc_num_submit (xx_clients xgq i) = int (length (xxc_submitted (xx_clients xgq i))) \<and>
     xxc_num_complete (xx_clients xgq i) = int (length (xxc_completed (xx_clients xgq i)))"

lemma handle_resp_keeps:
  assumes "xocl_xgq_handle_resp m h xgq i addr = Some (r, h', xgq')"
  shows "client_order xgq' j = client_order xgq j \<and> (client_counts xgq j \<longrightarrow> client_counts xgq' j)"
  using assms
  by (auto simp: xocl_xgq_handle_resp_def client_order_def client_counts_def upd_client_def Let_def bind_eq_Some_conv
      split: list.splits if_splits)

lemma check_response_keeps:
  assumes "xocl_xgq_check_response m h xgq i = Some (r, st, m', h', xgq')"
  shows "client_order xgq' j = client_order xgq j \<and> (client_counts xgq j \<longrightarrow> client_counts xgq' j)"
proof -
  obtain res q1 where c: "xgq_consume False m (xx_xgq xgq) = (res, q1)" by (metis prod.exhaust)
  let ?x = "xgq\<lparr>xx_xgq := q1\<rparr>"
  have same: "client_order ?x j = client_order xgq j" "client_counts ?x j = client_counts xgq j"
    by (simp_all add: client_order_def client_counts_def)
  show ?thesis
  proof (cases res)
    case (Inl err)
    then show ?thesis using assms same by (auto simp: xocl_xgq_check_response_def c)
  next
    case (Inr addr)
    define t where "t = resp_client m ?x i addr"
    have run: "xocl_xgq_check_response m h xgq i =
      do { (r2, h1, x2) \<leftarrow> xocl_xgq_handle_resp m h ?x t addr;
           case r2 of Inl err \<Rightarrow> Some (Inl err, None, m, h1, x2)
           | Inr st \<Rightarrow> Some (if i \<noteq> t then Inl ENOENT else Inr (), Some st, xgq_notify_peer_consumed False m (xx_xgq x2), h1, x2) }"
      by (simp add: xocl_xgq_check_response_def c Inr t_def Let_def)
    obtain r2 h2 x2 where hr: "xocl_xgq_handle_resp m h ?x t addr = Some (r2, h2, x2)"
      using assms unfolding run by (cases "xocl_xgq_handle_resp m h ?x t addr") auto
    have "x2 = xgq'" using assms unfolding run hr by (cases r2) auto
    then show ?thesis using handle_resp_keeps [OF hr, of j] same by simp
  qed
qed

lemma check_loop_keeps:
  assumes "check_loop dev n i st m h xgq = Some r"
  shows "client_order (snd (snd (snd r))) j = client_order xgq j \<and>
    (client_counts xgq j \<longrightarrow> client_counts (snd (snd (snd r))) j)"
proof (induction rule: check_loop.raw_induct [OF _ assms, rotated])
  case (1 f dev n i st m h xgq r)
  obtain a b m1 h1 x1 where q: "xocl_xgq_check_response m h xgq i = Some (a, b, m1, h1, x1)"
    using 1(2) by (auto simp: bind_eq_Some_conv)
  note k = check_response_keeps [OF q, of j]
  show ?case
  proof (cases "isl a")
    case True
    then show ?thesis using 1(2) k by (auto simp: q Let_def)
  next
    case False
    then have "f dev (Suc n) i (case b of None \<Rightarrow> st | Some s \<Rightarrow> Some s) (dev n m1) h1 x1 = Some r"
      using 1(2) by (simp add: q Let_def)
    from 1(1) [OF this] k show ?thesis by simp
  qed
qed

lemma check_response_returns:
  assumes "\<forall>j. xxc_prot (xx_clients xgq j) AND XGQ_PROT_NEED_RESP = 0"
  shows "\<exists>r st m' h' xgq'. xocl_xgq_check_response m h xgq i = Some (r, st, m', h', xgq') \<and>
    (\<forall>j. xxc_prot (xx_clients xgq' j) = xxc_prot (xx_clients xgq j)) \<and>
    (r = Inr () \<longrightarrow> xxc_submitted (xx_clients xgq i) \<noteq> [] \<and> xxc_submitted (xx_clients xgq' i) = tl (xxc_submitted (xx_clients xgq i)))"
proof -
  obtain res q1 where c: "xgq_consume False m (xx_xgq xgq) = (res, q1)" by (metis prod.exhaust)
  show ?thesis
  proof (cases res)
    case (Inl err)
    then show ?thesis by (simp add: xocl_xgq_check_response_def c)
  next
    case (Inr addr)
    define t where "t = resp_client m (xgq\<lparr>xx_xgq := q1\<rparr>) i addr"
    show ?thesis
      using assms
      by (cases "xxc_submitted (xx_clients xgq t)")
         (simp_all add: xocl_xgq_check_response_def c Inr t_def [symmetric] Let_def xocl_xgq_handle_resp_def upd_client_def)
  qed
qed

text \<open>The loop of a check ends, whatever the device does meanwhile.\<close>

lemma check_loop_returns:
  assumes "\<forall>j. xxc_prot (xx_clients xgq j) AND XGQ_PROT_NEED_RESP = 0"
  shows "\<exists>r. check_loop dev n i st m h xgq = Some r"
  using assms
proof (induction "length (xxc_submitted (xx_clients xgq i))" arbitrary: n st m h xgq rule: less_induct)
  case less
  obtain r st' m' h' xgq' where c: "xocl_xgq_check_response m h xgq i = Some (r, st', m', h', xgq')"
    and p: "\<forall>j. xxc_prot (xx_clients xgq' j) = xxc_prot (xx_clients xgq j)"
    and s: "r = Inr () \<longrightarrow> xxc_submitted (xx_clients xgq i) \<noteq> [] \<and> xxc_submitted (xx_clients xgq' i) = tl (xxc_submitted (xx_clients xgq i))"
    using check_response_returns [OF less.prems] by blast
  show ?case
  proof (cases r)
    case (Inl err)
    then show ?thesis by (subst check_loop.simps) (simp add: c Let_def)
  next
    case (Inr u)
    have "length (xxc_submitted (xx_clients xgq' i)) < length (xxc_submitted (xx_clients xgq i))" using s Inr by simp
    then have "\<exists>r. check_loop dev (Suc n) i (case st' of None \<Rightarrow> st | Some s \<Rightarrow> Some s) (dev n m') h' xgq' = Some r"
      by (rule less.hyps) (use less.prems p in simp)
    then show ?thesis by (subst check_loop.simps) (simp add: c Inr Let_def)
  qed
qed


definition demo_ring :: "u32 \<Rightarrow> xgq_ring" where
  "demo_ring n = \<lparr>xr_slot_num = 4, xr_slot_sz = 16, xr_produced = n, xr_consumed = 0, xr_produced_addr = 0x10,
     xr_consumed_addr = 0x20, xr_slot_addr = 0x100\<rparr>"

text \<open>A queue with one answer, and clients whose commands are given.\<close>

definition demo_xx :: "nat \<Rightarrow> (nat \<Rightarrow> nat list) \<Rightarrow> u32 \<Rightarrow> xocl_xgq" where
  "demo_xx n sub prot = \<lparr>xx_xgq = \<lparr>xq_io_hdl = 0, xq_header_addr = 0, xq_flags = 0, xq_sq = demo_ring 0, xq_cq = demo_ring 1\<rparr>,
     xx_id = 0, xx_ref_cnt = 1, xx_addr = 0,
     xx_clients = (\<lambda>i. \<lparr>xxc_client = i, xxc_submitted = sub i, xxc_num_submit = int (length (sub i)), xxc_completed = [],
       xxc_num_complete = 0, xxc_prot = prot, xxc_notify_sem = i, xxc_is_used = True\<rparr>),
     xx_num_client = n, xx_sq_prod_int = 0\<rparr>"

lemma demo_consume: "\<exists>q1. xgq_consume False m (xx_xgq (demo_xx n sub prot)) = (Inr 0x100, q1)"
  by (simp add: demo_xx_def demo_ring_def xgq_consume_def xgq_can_consume_def cons_ring_def xgq_ring_empty_def
      xgq_ring_slot_ptr_consumed_def)

definition demo_xcmd :: "u32 \<Rightarrow> kds_command" where
  "demo_xcmd handle = (the (kds_alloc_command True True 0 0 8))\<lparr>kc_exec_bo_handle := handle\<rparr>"


section \<open>What goes wrong\<close>

lemma check_response_Inr:
  assumes "xgq_consume False m (xx_xgq xgq) = (Inr addr, q1)" and "resp_client m (xgq\<lparr>xx_xgq := q1\<rparr>) i addr = t"
    and "xxc_submitted (xx_clients xgq t) = xcmd # rest"
    and "k = (if xxc_prot (xx_clients xgq t) AND XGQ_PROT_NEED_RESP \<noteq> 0
      then map_option (\<lambda>st. (h xcmd)\<lparr>kc_rcode := m (addr + 12), kc_status := st\<rparr>) (word_status (m (addr + 4)))
      else Some ((h xcmd)\<lparr>kc_status := KDS_COMPLETED\<rparr>))" and "k = Some k'"
  shows "\<exists>m' xgq'. xocl_xgq_check_response m h xgq i =
      Some (if i \<noteq> t then Inl ENOENT else Inr (), Some (kc_status k'), m', h(xcmd := k'), xgq') \<and>
    xxc_completed (xx_clients xgq' t) = xxc_completed (xx_clients xgq t) @ [xcmd] \<and>
    xxc_submitted (xx_clients xgq' t) = rest \<and> (\<forall>j. j \<noteq> t \<longrightarrow> xx_clients xgq' j = xx_clients xgq j)"
  using assms
  by (cases "word_status (m (addr + 4))")
     (auto simp: xocl_xgq_check_response_def xocl_xgq_handle_resp_def upd_client_def Let_def split: if_splits)

text \<open>
  C33. The device is not told of an abort. When it answers the aborted command later, the answer is taken
  for the next command of the CU, which is reported as completed though it still runs.
\<close>

theorem late_response_completes_next:
  assumes "xxc_submitted (xx_clients xgq i) = [a, b]" and "match (h a)" and "\<not> match (h b)" and "a \<noteq> b"
    and "xxc_prot (xx_clients xgq i) AND XGQ_PROT_NEED_RESP = 0"
    and "xocl_xgq_abort match h xgq i = (r, h1, x1)"
    and "xgq_consume False m (xx_xgq xgq) = (Inr addr, q1)" and "resp_client m (xgq\<lparr>xx_xgq := q1\<rparr>) i addr = i"
  shows "\<exists>m2 h2 x2. xocl_xgq_check_response m h1 x1 i = Some (Inr (), Some KDS_COMPLETED, m2, h2, x2) \<and>
    xxc_completed (xx_clients x2 i) = xxc_completed (xx_clients xgq i) @ [a, b] \<and> xxc_submitted (xx_clients x2 i) = [] \<and>
    kc_status (h2 a) = KDS_TIMEOUT \<and> kc_status (h2 b) = KDS_COMPLETED"
proof -
  have h1: "h1 = set_cmd_status h a KDS_TIMEOUT"
    and x1: "xxc_submitted (xx_clients x1 i) = [b]" "xxc_completed (xx_clients x1 i) = xxc_completed (xx_clients xgq i) @ [a]"
      "xxc_prot (xx_clients x1 i) = xxc_prot (xx_clients xgq i)" "xx_xgq x1 = xx_xgq xgq" "xx_num_client x1 = xx_num_client xgq"
    using assms(1-4,6) by (auto simp: xocl_xgq_abort_def upd_client_def Let_def)
  have "xgq_consume False m (xx_xgq x1) = (Inr addr, q1)" using assms(7) x1(4) by simp
  moreover have "resp_client m (x1\<lparr>xx_xgq := q1\<rparr>) i addr = i" using assms(8) x1(5) by (simp add: resp_client_def)
  ultimately show ?thesis
    using check_response_Inr [OF _ _ x1(1) _ refl, of m addr q1 i _ h1] assms(4,5) x1
    by (auto simp: h1 set_cmd_status_def)
qed

text \<open>Witness of C33.\<close>

theorem late_response_completes_next_witness:
  "\<exists>r h1 x1 m2 h2 x2. xocl_xgq_abort (\<lambda>k. kc_exec_bo_handle k = 9) ((\<lambda>_. demo_xcmd 0)(3 := demo_xcmd 9))
       (demo_xx 1 (\<lambda>_. [3, 4]) 0) 0 = (r, h1, x1) \<and>
     xocl_xgq_check_response (\<lambda>_. 0) h1 x1 0 = Some (Inr (), Some KDS_COMPLETED, m2, h2, x2) \<and>
     xxc_completed (xx_clients x2 0) = [3, 4] \<and> kc_status (h2 4) = KDS_COMPLETED"
proof -
  let ?x = "demo_xx 1 (\<lambda>_. [3, 4]) 0" and ?h = "(\<lambda>_. demo_xcmd 0)(3 := demo_xcmd 9) :: cmd_heap" and ?f = "\<lambda>k. kc_exec_bo_handle k = 9"
  obtain r h1 x1 where a: "xocl_xgq_abort ?f ?h ?x 0 = (r, h1, x1)" by (metis prod_cases3)
  obtain q1 where c: "xgq_consume False (\<lambda>_. 0) (xx_xgq ?x) = (Inr 0x100, q1)" using demo_consume by blast
  have x: "xxc_submitted (xx_clients ?x 0) = [3, 4]" "xxc_prot (xx_clients ?x 0) AND XGQ_PROT_NEED_RESP = 0"
    "xxc_completed (xx_clients ?x 0) = []" "?f (?h 3)" "\<not> ?f (?h 4)" "(3 :: nat) \<noteq> 4"
    "resp_client (\<lambda>_. 0) (?x\<lparr>xx_xgq := q1\<rparr>) 0 0x100 = 0"
    by (simp_all add: demo_xx_def demo_xcmd_def resp_client_def)
  from late_response_completes_next [OF x(1,4,5,6,2) a c x(7)] a x(3) show ?thesis by auto
qed

text \<open>
  The answer of a crashed soft kernel of one CU, found by the check of another CU, makes that other CU
  count as crashed, though none of its commands is touched.
\<close>

theorem crash_blames_other_cu:
  assumes "xgq_consume False m (xx_xgq xgq) = (Inr addr, q1)"
    and "resp_client m (xgq\<lparr>xx_xgq := q1\<rparr>) (cx_client_id cu) addr = j" and "j \<noteq> cx_client_id cu"
    and "xxc_submitted (xx_clients xgq j) = xcmd # rest" and "xxc_prot (xx_clients xgq j) AND XGQ_PROT_NEED_RESP \<noteq> 0"
    and "m (addr + 4) = 7"
  shows "\<exists>m' h' xgq'. cu_xgq_check dev m h xgq cu = Some (CU_AP_CRASHED, m', h', xgq') \<and>
    xx_clients xgq' (cx_client_id cu) = xx_clients xgq (cx_client_id cu)"
proof -
  have "word_status (m (addr + 4)) = Some KDS_SKCRASHED" using assms(6) by (simp add: word_status_def)
  with check_response_Inr [OF assms(1,2,4) refl, of h "(h xcmd)\<lparr>kc_rcode := m (addr + 12), kc_status := KDS_SKCRASHED\<rparr>"] assms(3,5)
  obtain m' h' xgq' where "xocl_xgq_check_response m h xgq (cx_client_id cu) = Some (Inl ENOENT, Some KDS_SKCRASHED, m', h', xgq')"
    and "xx_clients xgq' (cx_client_id cu) = xx_clients xgq (cx_client_id cu)" by auto
  then show ?thesis unfolding cu_xgq_check_def by (subst check_loop.simps) (simp add: Let_def)
qed

definition demo_crash :: mem where
  "demo_crash = (\<lambda>_. 0)(0x100 := 1, 0x104 := 7)"

text \<open>An instance.\<close>

theorem crash_blames_other_cu_witness:
  "\<exists>m' h' xgq'. cu_xgq_check (\<lambda>_. id) demo_crash (\<lambda>_. demo_xcmd 0) (demo_xx 2 (\<lambda>_. [4]) 1)
       \<lparr>cx_client_id = 0, cx_cu_idx = 0, cx_cu_domain = 0\<rparr> = Some (CU_AP_CRASHED, m', h', xgq') \<and>
     xxc_submitted (xx_clients xgq' 0) = [4]"
proof -
  let ?x = "demo_xx 2 (\<lambda>_. [4]) 1" and ?cu = "\<lparr>cx_client_id = 0, cx_cu_idx = 0, cx_cu_domain = 0\<rparr>"
  obtain q1 where c: "xgq_consume False demo_crash (xx_xgq ?x) = (Inr 0x100, q1)" using demo_consume by blast
  have x: "xxc_submitted (xx_clients ?x 1) = [4]" "xxc_prot (xx_clients ?x 1) AND XGQ_PROT_NEED_RESP \<noteq> 0"
    "resp_client demo_crash (?x\<lparr>xx_xgq := q1\<rparr>) (cx_client_id ?cu) 0x100 = 1" "1 \<noteq> cx_client_id ?cu" "demo_crash (0x100 + 4) = 7"
    "xxc_submitted (xx_clients ?x 0) = [4]"
    by (simp_all add: demo_xx_def resp_client_def demo_crash_def)
  from crash_blames_other_cu [OF c x(3,4,1,2,5), of "\<lambda>_. id" "\<lambda>_. demo_xcmd 0"] x(6) show ?thesis by auto
qed

text \<open>
  The last entry of the table of clients is never given out: the call that would do so fails, and after it
  every call fails, even when clients have left meanwhile.
\<close>

theorem attach_stuck:
  assumes "xx_num_client xgq = 127" and "\<forall>i<127. xxc_is_used (xx_clients xgq i)" and "i < 126"
  shows "\<exists>x1 x2. xocl_xgq_attach xgq c s p = (Inl EINVAL, x1) \<and> xocl_xgq_detach x1 i = Some x2 \<and>
    xocl_xgq_attach x2 c' s' p' = (Inl ENOMEM, x2)"
proof -
  have "find (\<lambda>i. \<not> xxc_is_used (xx_clients xgq i)) [0..<127] = None" using assms(2) by (simp add: find_None_iff)
  then have a: "xocl_xgq_attach xgq c s p = (Inl EINVAL, xgq\<lparr>xx_num_client := 128\<rparr>)"
    using assms(1) by (simp add: xocl_xgq_attach_def xgq_get_next_available_entry_def)
  let ?x = "upd_client (xgq\<lparr>xx_num_client := 128\<rparr>) i ((xx_clients xgq i)\<lparr>xxc_is_used := False\<rparr>)"
  have "list_ex (\<lambda>i. xxc_is_used (xx_clients ?x i)) [0..<128]"
    using assms(2,3) by (auto simp: list_ex_iff upd_client_def intro!: bexI [of _ 126])
  then have "xocl_xgq_detach (xgq\<lparr>xx_num_client := 128\<rparr>) i = Some ?x"
    by (simp add: xocl_xgq_detach_def upd_client_def)
  moreover have "xocl_xgq_attach ?x c' s' p' = (Inl ENOMEM, ?x)" by (simp add: xocl_xgq_attach_def upd_client_def)
  ultimately show ?thesis using a by blast
qed

end
