(* ===== verification/Xclbin.thy ===== *)
theory Xclbin
  imports Prelude "HOL-Library.Monad_Syntax"
begin

text \<open>
  \<open>common/drv/xrt_xclbin.c\<close>: the header of a bitstream and the sections of an xclbin image.

  A buffer is the list of its bytes. \<open>None\<close> is an access outside the buffer, or outside a block
  that was allocated too small or not at all. The first argument of the parser says which of its
  allocations succeed.
\<close>

section \<open>Bitstream headers\<close>

abbreviation (input) XHI_EVEN_MAGIC_BYTE :: u8 where "XHI_EVEN_MAGIC_BYTE \<equiv> 0x0f"
abbreviation (input) XHI_ODD_MAGIC_BYTE :: u8 where "XHI_ODD_MAGIC_BYTE \<equiv> 0xf0"
abbreviation (input) XHI_BIT_HEADER_FAILURE :: u32 where "XHI_BIT_HEADER_FAILURE \<equiv> - 1"

record XHwIcap_Bit_Header =
  HeaderLength :: u32
  BitstreamLength :: u32
  DesignName :: "u8 list option"
  PartName :: "u8 list option"
  Date :: "u8 list option"
  Time :: "u8 list option"
  MagicLength :: u32

text \<open>\<open>data[index++]\<close>\<close>

definition next_byte :: "u8 list \<Rightarrow> nat \<Rightarrow> (u8 \<times> nat) option" where
  "next_byte data index = (if index < length data then Some (data ! index, Suc index) else None)"

text \<open>A length of two bytes, the high one first.\<close>

definition next_len :: "u8 list \<Rightarrow> nat \<Rightarrow> (u32 \<times> nat) option" where
  "next_len data index =
     do { (b1, index) \<leftarrow> next_byte data index;
          (b0, index) \<leftarrow> next_byte data index;
          Some (push_bit 8 (ucast b1) OR ucast b0, index) }"

text \<open>
  The loop over the magic bytes. The limit \<open>MagicLength - 1\<close> is computed in 32 bits. The result is
  whether all bytes were right.
\<close>

function magic_loop :: "u8 list \<Rightarrow> nat \<Rightarrow> nat \<Rightarrow> nat \<Rightarrow> (bool \<times> nat) option" where
  "magic_loop data index i limit =
     (if i < limit
      then do { (tmp, index) \<leftarrow> next_byte data index;
                if i mod 2 = 0 \<and> tmp \<noteq> XHI_EVEN_MAGIC_BYTE then Some (False, index)
                else if i mod 2 = 1 \<and> tmp \<noteq> XHI_ODD_MAGIC_BYTE then Some (False, index)
                else magic_loop data index (Suc i) limit }
      else Some (True, index))"
  by pat_completeness auto
termination
  by (relation "measure (\<lambda>(data, index, i, limit). limit - i)") auto

declare magic_loop.simps [simp del]

text \<open>
  One of the four fields: its letter, its length, its bytes, which are copied into a new block, and
  the check that the last byte is 0. A block of length 0 has no last byte. The result is whether
  the field is right, and the block.
\<close>

definition parse_field :: "bool \<Rightarrow> u8 \<Rightarrow> u8 list \<Rightarrow> nat \<Rightarrow> (bool \<times> u8 list option \<times> nat) option" where
  "parse_field ok letter data index =
     do { (tmp, index) \<leftarrow> next_byte data index;
          if tmp \<noteq> letter then Some (False, None, index)
          else do { (len, index) \<leftarrow> next_len data index;
                    if \<not> ok \<or> len = 0 \<or> length data < index + unat len then None
                    else let name = take (unat len) (drop index data)
                         in Some (last name = 0, Some name, index + unat len) } }"

definition next_u32 :: "u8 list \<Rightarrow> nat \<Rightarrow> (u32 \<times> nat) option" where
  "next_u32 data index =
     do { (b3, index) \<leftarrow> next_byte data index;
          (b2, index) \<leftarrow> next_byte data index;
          (b1, index) \<leftarrow> next_byte data index;
          (b0, index) \<leftarrow> next_byte data index;
          Some (push_bit 8 (push_bit 8 (push_bit 8 (ucast b3) OR ucast b2) OR ucast b1) OR ucast b0, index) }"

text \<open>The header is changed only where the field has been read.\<close>

definition assigned :: "'a option \<Rightarrow> 'b \<Rightarrow> 'b \<Rightarrow> 'b" where
  "assigned name new old = (if name = None then old else new)"

text \<open>The size of the buffer is an argument that is not used.\<close>

definition xrt_xclbin_parse_header ::
  "(nat \<Rightarrow> bool) \<Rightarrow> u8 list \<Rightarrow> u32 \<Rightarrow> XHwIcap_Bit_Header \<Rightarrow> (int \<times> XHwIcap_Bit_Header) option" where
  "xrt_xclbin_parse_header ok data sz header =
     do { (mlen, index) \<leftarrow> next_len data 0;
          let header = header\<lparr>HeaderLength := XHI_BIT_HEADER_FAILURE, MagicLength := mlen\<rparr> in
          do { (good, index) \<leftarrow> magic_loop data index 0 (unat (mlen - 1));
          if \<not> good then Some (- 1, header) else
          do { (_, index) \<leftarrow> next_byte data index;
               (tmp, index) \<leftarrow> next_len data index;
          if tmp \<noteq> 1 then Some (- 1, header) else
          do { (good, name, index) \<leftarrow> parse_field (ok 0) 0x61 data index;
               let header = assigned name (header\<lparr>DesignName := name\<rparr>) header in
          if \<not> good then Some (- 1, header) else
          do { (good, name, index) \<leftarrow> parse_field (ok 1) 0x62 data index;
               let header = assigned name (header\<lparr>PartName := name\<rparr>) header in
          if \<not> good then Some (- 1, header) else
          do { (good, name, index) \<leftarrow> parse_field (ok 2) 0x63 data index;
               let header = assigned name (header\<lparr>Date := name\<rparr>) header in
          if \<not> good then Some (- 1, header) else
          do { (good, name, index) \<leftarrow> parse_field (ok 3) 0x64 data index;
               let header = assigned name (header\<lparr>Time := name\<rparr>) header in
          if \<not> good then Some (- 1, header) else
          do { (tmp, index) \<leftarrow> next_byte data index;
          if tmp \<noteq> 0x65 then Some (- 1, header) else
          do { (blen, index) \<leftarrow> next_u32 data index;
               Some (0, header\<lparr>BitstreamLength := blen, HeaderLength := of_nat index\<rparr>) } } } } } } } } }"

definition xrt_xclbin_free_header :: "XHwIcap_Bit_Header \<Rightarrow> u8 list option list" where
  "xrt_xclbin_free_header header = [DesignName header, PartName header, Date header, Time header]"

section \<open>Sections\<close>

abbreviation (input) XCLBIN_MAX_NUM_SECTION :: u32 where "XCLBIN_MAX_NUM_SECTION \<equiv> 0x10000"

record axlf_section_header =
  m_sectionKind :: u32
  m_sectionName :: string
  m_sectionOffset :: u64
  m_sectionSize :: u64

text \<open>
  The image by the parts of its header that the functions read, the section headers that follow it
  in memory, and all its bytes. A pointer to a section header is its index.
\<close>

record axlf =
  m_length :: u64
  m_numSections :: u32
  m_sections :: "axlf_section_header list"
  axlf_bytes :: "u8 list"

definition xrt_xclbin_kind_to_string :: "u32 \<Rightarrow> string" where
  "xrt_xclbin_kind_to_string kind =
     (case map_of
        [(0, ''BITSTREAM''), (1, ''CLEARING_BITSTREAM''), (2, ''EMBEDDED_METADATA''), (3, ''FIRMWARE''),
         (4, ''DEBUG_DATA''), (5, ''SCHED_FIRMWARE''), (6, ''MEM_TOPOLOGY''), (7, ''CONNECTIVITY''),
         (8, ''IP_LAYOUT''), (9, ''DEBUG_IP_LAYOUT''), (10, ''DESIGN_CHECK_POINT''),
         (11, ''CLOCK_FREQ_TOPOLOGY''), (12, ''MCS''), (13, ''BMC''), (14, ''BUILD_METADATA''),
         (15, ''KEYVALUE_METADATA''), (16, ''USER_METADATA''), (17, ''DNA_CERTIFICATE''), (18, ''PDI''),
         (19, ''BITSTREAM_PARTIAL_PDI''), (20, ''PARTITION_METADATA''), (21, ''EMULATION_DATA''),
         (22, ''SYSTEM_METADATA''), (23, ''SOFT_KERNEL''), (24, ''ASK_FLASH''), (25, ''AIE_METADATA''),
         (26, ''ASK_GROUP_TOPOLOGY''), (27, ''ASK_GROUP_CONNECTIVITY''), (28, ''SMARTNIC''),
         (29, ''AIE_RESOURCES''), (33, ''IP_METADATA''), (35, ''AIE_TRACE_METADATA'')] kind of
        None \<Rightarrow> ''UNKNOWN'' | Some s \<Rightarrow> s)"

definition xrt_xclbin_check_section_hdr :: "axlf_section_header \<Rightarrow> u64 \<Rightarrow> unit res" where
  "xrt_xclbin_check_section_hdr header xclbin_len =
     (if m_sectionOffset header + m_sectionSize header < m_sectionOffset header
         \<or> m_sectionOffset header + m_sectionSize header > xclbin_len
      then Inl EINVAL else Inr ())"

text \<open>The loops over the section headers, from index \<open>i\<close> on.\<close>

function find_section :: "axlf \<Rightarrow> u32 \<Rightarrow> nat \<Rightarrow> nat option option" where
  "find_section xclbin kind i =
     (if i < unat (m_numSections xclbin)
      then if i \<ge> length (m_sections xclbin) then None
           else if m_sectionKind (m_sections xclbin ! i) = kind
           then (case xrt_xclbin_check_section_hdr (m_sections xclbin ! i) (m_length xclbin) of
                   Inl _ \<Rightarrow> Some None | Inr _ \<Rightarrow> Some (Some i))
           else find_section xclbin kind (Suc i)
      else Some None)"
  by pat_completeness auto
termination
  by (relation "measure (\<lambda>(xclbin, kind, i). unat (m_numSections xclbin) - i)") auto

declare find_section.simps [simp del]

definition xrt_xclbin_get_section_hdr :: "axlf \<Rightarrow> u32 \<Rightarrow> nat option option" where
  "xrt_xclbin_get_section_hdr xclbin kind =
     (if m_numSections xclbin > XCLBIN_MAX_NUM_SECTION then Some None else find_section xclbin kind 0)"

definition xrt_xclbin_section_info :: "axlf \<Rightarrow> u32 \<Rightarrow> (u64 \<times> u64) res option" where
  "xrt_xclbin_section_info xclbin kind =
     do { hdr \<leftarrow> xrt_xclbin_get_section_hdr xclbin kind;
          Some (case hdr of
                  None \<Rightarrow> Inl EINVAL
                | Some i \<Rightarrow>
                    (let header = m_sections xclbin ! i
                     in case xrt_xclbin_check_section_hdr header (m_length xclbin) of
                          Inl err \<Rightarrow> Inl err
                        | Inr _ \<Rightarrow> Inr (m_sectionOffset header, m_sectionSize header))) }"

function next_section :: "axlf \<Rightarrow> u32 \<Rightarrow> nat option \<Rightarrow> nat option \<Rightarrow> bool \<Rightarrow> nat \<Rightarrow> nat option option" where
  "next_section xclbin kind cur found matched i =
     (if i < unat (m_numSections xclbin)
      then if i \<ge> length (m_sections xclbin) then None
           else if m_sectionKind (m_sections xclbin ! i) = kind
           then if matched then Some (Some i)
                else if cur = Some i then next_section xclbin kind cur None True (Suc i)
                else next_section xclbin kind cur (if found = None then Some i else found) matched (Suc i)
           else next_section xclbin kind cur found matched (Suc i)
      else Some found)"
  by pat_completeness auto
termination
  by (relation "measure (\<lambda>(xclbin, kind, cur, found, matched, i). unat (m_numSections xclbin) - i)") auto

declare next_section.simps [simp del]

definition xrt_xclbin_get_section_hdr_next :: "axlf \<Rightarrow> u32 \<Rightarrow> nat option \<Rightarrow> nat option option" where
  "xrt_xclbin_get_section_hdr_next xclbin kind cur = next_section xclbin kind cur None False 0"

function count_sections :: "axlf \<Rightarrow> u32 \<Rightarrow> int \<Rightarrow> nat \<Rightarrow> int option" where
  "count_sections xclbin kind cnt i =
     (if i < unat (m_numSections xclbin)
      then if i \<ge> length (m_sections xclbin) then None
           else count_sections xclbin kind (if m_sectionKind (m_sections xclbin ! i) = kind then cnt + 1 else cnt) (Suc i)
      else Some cnt)"
  by pat_completeness auto
termination
  by (relation "measure (\<lambda>(xclbin, kind, cnt, i). unat (m_numSections xclbin) - i)") auto

declare count_sections.simps [simp del]

definition xrt_xclbin_get_section_num :: "axlf \<Rightarrow> u32 \<Rightarrow> int option" where
  "xrt_xclbin_get_section_num xclbin kind = count_sections xclbin kind 0 0"

text \<open>\<open>ok\<close> says whether the allocation succeeds; an allocation of 0 bytes does not.\<close>

definition xrt_xclbin_get_section :: "bool \<Rightarrow> axlf \<Rightarrow> u32 \<Rightarrow> (u8 list \<times> u64) res option" where
  "xrt_xclbin_get_section ok xclbin kind =
     do { info \<leftarrow> xrt_xclbin_section_info xclbin kind;
          case info of
            Inl err \<Rightarrow> Some (Inl err)
          | Inr (offset, sz) \<Rightarrow>
              if \<not> ok \<or> sz = 0 then Some (Inl ENOMEM)
              else if length (axlf_bytes xclbin) < unat offset + unat sz then None
              else Some (Inr (take (unat sz) (drop (unat offset) (axlf_bytes xclbin)), sz)) }"

section \<open>The format of a header\<close>

text \<open>The bytes of a header: what the parser is to accept.\<close>

definition be16 :: "u32 \<Rightarrow> u8 list" where
  "be16 w = [ucast (drop_bit 8 w), ucast w]"

definition be32 :: "u32 \<Rightarrow> u8 list" where
  "be32 w = [ucast (drop_bit 24 w), ucast (drop_bit 16 w), ucast (drop_bit 8 w), ucast w]"

definition magic_byte :: "nat \<Rightarrow> u8" where
  "magic_byte i = (if i mod 2 = 0 then XHI_EVEN_MAGIC_BYTE else XHI_ODD_MAGIC_BYTE)"

definition field_bytes :: "u8 \<Rightarrow> u8 list \<Rightarrow> u8 list" where
  "field_bytes letter name = letter # be16 (of_nat (length name)) @ name"

definition header_bytes :: "u32 \<Rightarrow> u8 \<Rightarrow> u8 list \<Rightarrow> u8 list \<Rightarrow> u8 list \<Rightarrow> u8 list \<Rightarrow> u32 \<Rightarrow> u8 list" where
  "header_bytes mlen nul d p dt tm blen =
     be16 mlen @ map magic_byte [0..<unat (mlen - 1)] @ nul # be16 1
       @ field_bytes 0x61 d @ field_bytes 0x62 p @ field_bytes 0x63 dt @ field_bytes 0x64 tm @ 0x65 # be32 blen"

definition name_ok :: "u8 list \<Rightarrow> bool" where
  "name_ok name \<longleftrightarrow> name \<noteq> [] \<and> length name < 2 ^ 16 \<and> last name = 0"

lemma bit_u8_high: "8 \<le> n \<Longrightarrow> \<not> bit (b :: u8) n"
  using bit_imp_le_length [of b n] by auto

lemma join_bytes16:
  assumes "unat w < 2 ^ 16"
  shows "push_bit 8 (ucast (ucast (drop_bit 8 w) :: u8)) OR ucast (ucast w :: u8) = (w :: u32)" (is "?l = _")
proof (rule bit_word_eqI)
  fix n assume "n < LENGTH(32)"
  have "take_bit 16 (unat w) = unat w" using assms by (simp add: take_bit_nat_eq_self)
  then have "bit (unat w) n \<Longrightarrow> n < 16" by (metis bit_take_bit_iff)
  then have "bit w n \<Longrightarrow> n < 16" by (simp add: bit_unsigned_iff \<open>n < LENGTH(32)\<close>)
  then show "bit ?l n = bit w n"
    using \<open>n < LENGTH(32)\<close> by (auto simp: bit_simps)
qed

lemma split_bytes16:
  "be16 (push_bit 8 (ucast (b1 :: u8)) OR ucast (b0 :: u8)) = [b1, b0] \<and>
   unat (push_bit 8 (ucast (b1 :: u8)) OR ucast (b0 :: u8) :: u32) < 2 ^ 16"
proof
  show "be16 (push_bit 8 (ucast (b1 :: u8)) OR ucast (b0 :: u8)) = [b1, b0]"
    unfolding be16_def by (auto intro!: bit_word_eqI simp: bit_simps bit_u8_high)
  have "take_bit 16 (push_bit 8 (ucast b1) OR ucast b0 :: u32) = push_bit 8 (ucast b1) OR ucast b0" (is "?l = ?r")
  proof (rule bit_word_eqI)
    fix n assume "n < LENGTH(32)"
    then show "bit ?l n = bit ?r n" by (cases "n < 16") (auto simp: bit_simps bit_u8_high)
  qed
  then have "unat ?r = take_bit 16 (unat ?r)" by (simp only: flip: unsigned_take_bit_eq)
  then show "unat ?r < 2 ^ 16" using take_bit_nat_less_exp [of 16 "unat ?r"] by simp
qed

lemma join_bytes32:
  "push_bit 8 (push_bit 8 (push_bit 8 (ucast (ucast (drop_bit 24 w) :: u8)) OR ucast (ucast (drop_bit 16 w) :: u8))
     OR ucast (ucast (drop_bit 8 w) :: u8)) OR ucast (ucast w :: u8) = (w :: u32)" (is "?l = _")
proof (rule bit_word_eqI)
  fix n assume "n < LENGTH(32)"
  then consider "n < 8" | "8 \<le> n" "n < 16" | "16 \<le> n" "n < 24" | "24 \<le> n" "n < 32" by fastforce
  then show "bit ?l n = bit w n"
    by cases (auto simp: bit_simps)
qed

lemma split_bytes32:
  "be32 (push_bit 8 (push_bit 8 (push_bit 8 (ucast (b3 :: u8)) OR ucast (b2 :: u8)) OR ucast (b1 :: u8)) OR ucast (b0 :: u8))
     = [b3, b2, b1, b0]"
  unfolding be32_def by (auto intro!: bit_word_eqI simp: bit_simps bit_u8_high)

text \<open>\<open>bytes_at data i xs j\<close>: the bytes \<open>xs\<close> stand in the buffer from \<open>i\<close> to before \<open>j\<close>.\<close>

definition bytes_at :: "u8 list \<Rightarrow> nat \<Rightarrow> u8 list \<Rightarrow> nat \<Rightarrow> bool" where
  "bytes_at data i xs j \<longleftrightarrow> j = i + length xs \<and> drop i data = xs @ drop j data"

lemma bytes_at_Nil: "bytes_at data i [] j \<longleftrightarrow> j = i"
  by (auto simp: bytes_at_def)

lemma bytes_at_append: "bytes_at data i (xs @ ys) k \<longleftrightarrow> (\<exists>j. bytes_at data i xs j \<and> bytes_at data j ys k)"
proof -
  have "drop i data = xs @ ys @ drop k data \<longleftrightarrow>
      drop i data = xs @ drop (i + length xs) data \<and> drop (i + length xs) data = ys @ drop k data"
  proof
    assume "drop i data = xs @ ys @ drop k data"
    moreover from this have "drop (length xs) (drop i data) = ys @ drop k data" by simp
    then have "drop (i + length xs) data = ys @ drop k data" by (simp add: add.commute)
    ultimately show "drop i data = xs @ drop (i + length xs) data \<and> drop (i + length xs) data = ys @ drop k data"
      by simp
  qed simp
  then show ?thesis by (auto simp: bytes_at_def)
qed

lemma bytes_at_Cons: "bytes_at data i (x # xs) k \<longleftrightarrow> (\<exists>j. bytes_at data i [x] j \<and> bytes_at data j xs k)"
  using bytes_at_append [of data i "[x]" xs k] by simp

lemma bytes_at_front: "bytes_at (xs @ rest) 0 xs (length xs)"
  by (simp add: bytes_at_def)

lemma bytes_at_take: "xs \<noteq> [] \<Longrightarrow> bytes_at data i xs j \<longleftrightarrow> j = i + length xs \<and> j \<le> length data \<and> xs = take (length xs) (drop i data)"
proof (intro iffI conjI)
  assume "xs \<noteq> []" and a: "bytes_at data i xs j"
  then show "j = i + length xs" and "xs = take (length xs) (drop i data)" by (simp_all add: bytes_at_def)
  have "length data - i = length xs + (length data - j)" using a by (metis bytes_at_def length_append length_drop)
  then show "j \<le> length data" using \<open>xs \<noteq> []\<close> a by (cases xs) (auto simp: bytes_at_def)
next
  assume "j = i + length xs \<and> j \<le> length data \<and> xs = take (length xs) (drop i data)"
  then show "bytes_at data i xs j"
    by (metis bytes_at_def append_take_drop_id drop_drop add.commute)
qed

text \<open>Each reader takes exactly the bytes of what it returns.\<close>

lemma next_byte_at: "next_byte data i = Some (b, j) \<longleftrightarrow> bytes_at data i [b] j"
  by (auto simp: next_byte_def bytes_at_take take_Suc_conv_app_nth hd_drop_conv_nth take_Suc)

lemma next_len_at: "next_len data i = Some (w, j) \<longleftrightarrow> unat w < 2 ^ 16 \<and> bytes_at data i (be16 w) j"
proof
  assume "next_len data i = Some (w, j)"
  then obtain b1 b0 k where b: "bytes_at data i [b1] k" "bytes_at data k [b0] j" and w: "w = push_bit 8 (ucast b1) OR ucast b0"
    by (auto simp: next_len_def next_byte_at bind_eq_Some_conv)
  from b have "bytes_at data i [b1, b0] j" unfolding bytes_at_Cons [of _ _ b1 "[b0]"] by blast
  then show "unat w < 2 ^ 16 \<and> bytes_at data i (be16 w) j" using split_bytes16 [of b1 b0] w by simp
next
  assume "unat w < 2 ^ 16 \<and> bytes_at data i (be16 w) j"
  then obtain k where "unat w < 2 ^ 16" "next_byte data i = Some (ucast (drop_bit 8 w), k)" "next_byte data k = Some (ucast w, j)"
    unfolding be16_def bytes_at_Cons [of _ _ _ "[_]"] next_byte_at by blast
  then show "next_len data i = Some (w, j)" using join_bytes16 [of w] by (simp add: next_len_def)
qed

lemma next_u32_at: "next_u32 data i = Some (w, j) \<longleftrightarrow> bytes_at data i (be32 w) j"
proof
  assume "next_u32 data i = Some (w, j)"
  then obtain b3 b2 b1 b0 k2 k1 k0 where "bytes_at data i [b3] k2" "bytes_at data k2 [b2] k1" "bytes_at data k1 [b1] k0"
    "bytes_at data k0 [b0] j" and w: "w = push_bit 8 (push_bit 8 (push_bit 8 (ucast b3) OR ucast b2) OR ucast b1) OR ucast b0"
    by (auto simp: next_u32_def next_byte_at bind_eq_Some_conv)
  then have "bytes_at data i [b3, b2, b1, b0] j" unfolding bytes_at_Cons [of _ _ _ "_ # _"] by blast
  then show "bytes_at data i (be32 w) j" using split_bytes32 [of b3 b2 b1 b0] w by simp
next
  assume "bytes_at data i (be32 w) j"
  then obtain k2 k1 k0 where "next_byte data i = Some (ucast (drop_bit 24 w), k2)"
    "next_byte data k2 = Some (ucast (drop_bit 16 w), k1)" "next_byte data k1 = Some (ucast (drop_bit 8 w), k0)"
    "next_byte data k0 = Some (ucast w, j)"
    unfolding be32_def bytes_at_Cons [of _ _ _ "_ # _"] next_byte_at by blast
  then show "next_u32 data i = Some (w, j)" using join_bytes32 [of w] by (simp add: next_u32_def)
qed

lemma magic_loop_at:
  "magic_loop data i k limit = Some (True, j) \<longleftrightarrow> bytes_at data i (map magic_byte [k..<limit]) j"
proof (induction data i k limit arbitrary: j rule: magic_loop.induct)
  case (1 data i k limit)
  show ?case
  proof (cases "k < limit")
    case False
    then show ?thesis by (subst magic_loop.simps) (auto simp: bytes_at_Nil)
  next
    case True
    have par: "k mod 2 = 0 \<or> k mod 2 = 1" by auto
    have "magic_loop data i k limit = Some (True, j) \<longleftrightarrow>
        (\<exists>l. next_byte data i = Some (magic_byte k, l) \<and> magic_loop data l (Suc k) limit = Some (True, j))"
      using True par by (subst magic_loop.simps) (auto simp: bind_eq_Some_conv magic_byte_def split: if_splits)
    also have "\<dots> \<longleftrightarrow> (\<exists>l. bytes_at data i [magic_byte k] l \<and> bytes_at data l (map magic_byte [Suc k..<limit]) j)"
    proof -
      have "\<not> (k mod 2 = 0 \<and> magic_byte k \<noteq> XHI_EVEN_MAGIC_BYTE)" "\<not> (k mod 2 = 1 \<and> magic_byte k \<noteq> XHI_ODD_MAGIC_BYTE)"
        by (simp_all add: magic_byte_def)
      from 1 [OF True _ refl this] show ?thesis by (auto simp: next_byte_at)
    qed
    finally show ?thesis unfolding upt_conv_Cons [OF True] list.map bytes_at_Cons [of _ _ "magic_byte k" "map _ _"] .
  qed
qed

lemma field_bytes_at:
  "bytes_at data i (field_bytes letter name) j \<longleftrightarrow>
     (\<exists>i1 i2. bytes_at data i [letter] i1 \<and> bytes_at data i1 (be16 (of_nat (length name))) i2 \<and> bytes_at data i2 name j)"
  unfolding field_bytes_def bytes_at_Cons [of data i letter "be16 _ @ _"] bytes_at_append by blast

lemma parse_field_at:
  "parse_field ok letter data i = Some (True, r, j) \<longleftrightarrow>
     (\<exists>name. r = Some name \<and> ok \<and> name_ok name \<and> bytes_at data i (field_bytes letter name) j)"
  (is "?L \<longleftrightarrow> ?R")
proof
  assume ?L
  then obtain len i1 i2 where l: "bytes_at data i [letter] i1" "bytes_at data i1 (be16 len) i2" "unat len < 2 ^ 16"
    and ok: "ok" "len \<noteq> 0" "i2 + unat len \<le> length data"
    and r: "r = Some (take (unat len) (drop i2 data))" "j = i2 + unat len" "last (take (unat len) (drop i2 data)) = 0"
    by (auto simp: parse_field_def next_len_at next_byte_at bind_eq_Some_conv Let_def not_less split: if_splits)
  let ?name = "take (unat len) (drop i2 data)"
  have n: "length ?name = unat len" using ok(3) by simp
  then have "?name \<noteq> []" using ok(2) by (metis list.size(3) unat_eq_zero)
  have b: "bytes_at data i2 ?name j" using n ok(3) r(2) by (simp add: bytes_at_take [OF \<open>?name \<noteq> []\<close>])
  have len: "of_nat (length ?name) = len" using n by simp
  have "bytes_at data i (field_bytes letter ?name) j"
    unfolding field_bytes_at len using l(1,2) b by (intro exI conjI)
  moreover have "name_ok ?name" using \<open>?name \<noteq> []\<close> n l(3) r(3) by (simp add: name_ok_def)
  ultimately show ?R using ok(1) r(1) by (intro exI conjI)
next
  assume ?R
  then obtain name i1 i2 where n: "r = Some name" "ok" "name_ok name" and b: "bytes_at data i [letter] i1"
    "bytes_at data i1 (be16 (of_nat (length name))) i2" "bytes_at data i2 name j"
    unfolding field_bytes_at by blast
  have u: "unat (of_nat (length name) :: u32) = length name"
    using n(3) by (intro unat_of_nat_small) (simp add: name_ok_def)
  then have "(of_nat (length name) :: u32) \<noteq> 0" using n(3) by (auto simp: name_ok_def)
  moreover have "next_len data i1 = Some (of_nat (length name), i2)" using b u n(3) by (simp add: next_len_at name_ok_def)
  moreover have "next_byte data i = Some (letter, i1)" using b by (simp add: next_byte_at)
  moreover have "j = i2 + length name" "j \<le> length data" "take (length name) (drop i2 data) = name"
    using b(3) bytes_at_take [of name data i2 j] n(3) by (auto simp: name_ok_def)
  ultimately show ?L using n u by (auto simp: parse_field_def name_ok_def Let_def)
qed


text \<open>The parser accepts exactly the headers of this format, and returns their fields.\<close>

lemma header_bytes_at:
  "bytes_at data 0 (header_bytes mlen nul d p dt tm blen) n \<longleftrightarrow>
     (\<exists>i1 i2 i3 i4 i5 i6 i7 i8 i9. bytes_at data 0 (be16 mlen) i1 \<and>
        bytes_at data i1 (map magic_byte [0..<unat (mlen - 1)]) i2 \<and> bytes_at data i2 [nul] i3 \<and>
        bytes_at data i3 (be16 1) i4 \<and> bytes_at data i4 (field_bytes 0x61 d) i5 \<and>
        bytes_at data i5 (field_bytes 0x62 p) i6 \<and> bytes_at data i6 (field_bytes 0x63 dt) i7 \<and>
        bytes_at data i7 (field_bytes 0x64 tm) i8 \<and> bytes_at data i8 [0x65] i9 \<and> bytes_at data i9 (be32 blen) n)"
  unfolding header_bytes_def bytes_at_Cons [of _ _ nul "be16 1 @ _"] bytes_at_Cons [of _ _ "0x65" "be32 _"]
    bytes_at_append by blast

lemma parse_header_iff:
  "xrt_xclbin_parse_header ok data sz h = Some (0, h') \<longleftrightarrow>
     (\<exists>mlen nul d p dt tm blen n. unat mlen < 2 ^ 16 \<and> list_all ok [0, 1, 2, 3] \<and> list_all name_ok [d, p, dt, tm] \<and>
        bytes_at data 0 (header_bytes mlen nul d p dt tm blen) n \<and>
        h' = \<lparr>HeaderLength = of_nat n, BitstreamLength = blen, DesignName = Some d, PartName = Some p,
               Date = Some dt, Time = Some tm, MagicLength = mlen\<rparr>)"
  (is "?L \<longleftrightarrow> ?R")
proof
  assume ?L
  then obtain mlen i1 i2 nul i3 i4 d i5 p i6 dt i7 tm i8 i9 blen n h0 h1 h2 h3 h4 where
    r: "next_len data 0 = Some (mlen, i1)" "magic_loop data i1 0 (unat (mlen - 1)) = Some (True, i2)"
    "next_byte data i2 = Some (nul, i3)" "next_len data i3 = Some (1, i4)"
    "parse_field (ok 0) 0x61 data i4 = Some (True, d, i5)" "parse_field (ok 1) 0x62 data i5 = Some (True, p, i6)"
    "parse_field (ok 2) 0x63 data i6 = Some (True, dt, i7)" "parse_field (ok 3) 0x64 data i7 = Some (True, tm, i8)"
    "next_byte data i8 = Some (0x65, i9)" "next_u32 data i9 = Some (blen, n)"
    and h: "h0 = h\<lparr>HeaderLength := XHI_BIT_HEADER_FAILURE, MagicLength := mlen\<rparr>"
    "h1 = assigned d (h0\<lparr>DesignName := d\<rparr>) h0" "h2 = assigned p (h1\<lparr>PartName := p\<rparr>) h1"
    "h3 = assigned dt (h2\<lparr>Date := dt\<rparr>) h2" "h4 = assigned tm (h3\<lparr>Time := tm\<rparr>) h3"
    "h' = h4\<lparr>BitstreamLength := blen, HeaderLength := of_nat n\<rparr>"
    unfolding xrt_xclbin_parse_header_def Let_def
    by (auto simp: bind_eq_Some_conv split: if_splits)
  from r obtain d' p' dt' tm' where f: "d = Some d'" "p = Some p'" "dt = Some dt'" "tm = Some tm'"
    by (auto simp: parse_field_at)
  have "unat mlen < 2 ^ 16" "list_all ok [0, 1, 2, 3]" "list_all name_ok [d', p', dt', tm']"
    using r unfolding f next_len_at parse_field_at by auto
  moreover have "bytes_at data 0 (header_bytes mlen nul d' p' dt' tm' blen) n"
    unfolding header_bytes_at
    using r unfolding f next_len_at magic_loop_at next_byte_at next_u32_at parse_field_at by blast
  moreover have "h' = \<lparr>HeaderLength = of_nat n, BitstreamLength = blen, DesignName = Some d', PartName = Some p',
               Date = Some dt', Time = Some tm', MagicLength = mlen\<rparr>"
    unfolding h f assigned_def by (cases h) simp
  ultimately show ?R by blast
next
  assume ?R
  then obtain mlen nul d p dt tm blen n where *: "unat mlen < 2 ^ 16" "list_all ok [0, 1, 2, 3]"
    "list_all name_ok [d, p, dt, tm]" "bytes_at data 0 (header_bytes mlen nul d p dt tm blen) n"
    and h: "h' = \<lparr>HeaderLength = of_nat n, BitstreamLength = blen, DesignName = Some d, PartName = Some p,
               Date = Some dt, Time = Some tm, MagicLength = mlen\<rparr>" by blast
  then obtain i1 i2 i3 i4 i5 i6 i7 i8 i9 where
    "next_len data 0 = Some (mlen, i1)" "magic_loop data i1 0 (unat (mlen - 1)) = Some (True, i2)"
    "next_byte data i2 = Some (nul, i3)" "next_len data i3 = Some (1, i4)"
    "parse_field (ok 0) 0x61 data i4 = Some (True, Some d, i5)" "parse_field (ok 1) 0x62 data i5 = Some (True, Some p, i6)"
    "parse_field (ok 2) 0x63 data i6 = Some (True, Some dt, i7)" "parse_field (ok 3) 0x64 data i7 = Some (True, Some tm, i8)"
    "next_byte data i8 = Some (0x65, i9)" "next_u32 data i9 = Some (blen, n)"
    unfolding header_bytes_at next_len_at magic_loop_at next_byte_at next_u32_at parse_field_at by auto
  then show ?L unfolding h by (cases h) (simp add: xrt_xclbin_parse_header_def assigned_def)
qed


lemma parse_header_front:
  assumes "list_all name_ok [d, p, dt, tm]" and "unat mlen < 2 ^ 16" and "list_all ok [0, 1, 2, 3]"
  shows "xrt_xclbin_parse_header ok (header_bytes mlen nul d p dt tm blen @ rest) sz header =
    Some (0, \<lparr>HeaderLength = of_nat (length (header_bytes mlen nul d p dt tm blen)), BitstreamLength = blen,
      DesignName = Some d, PartName = Some p, Date = Some dt, Time = Some tm, MagicLength = mlen\<rparr>)"
  unfolding parse_header_iff using assms bytes_at_front by blast

definition zero_header :: XHwIcap_Bit_Header where
  "zero_header = \<lparr>HeaderLength = 0, BitstreamLength = 0, DesignName = None, PartName = None, Date = None, Time = None,
     MagicLength = 0\<rparr>"



text \<open>
  C37. Whatever the buffer holds, a header that the parser accepts is well-formed: the four names are
  not empty and end in 0, and the buffer starts with the bytes of just this header.
\<close>

theorem parse_header_well_formed:
  assumes "xrt_xclbin_parse_header ok data sz header = Some (0, h)"
  shows "\<exists>d p dt tm nul rest. DesignName h = Some d \<and> PartName h = Some p \<and> Date h = Some dt \<and> Time h = Some tm \<and>
    list_all name_ok [d, p, dt, tm] \<and>
    data = header_bytes (MagicLength h) nul d p dt tm (BitstreamLength h) @ rest \<and>
    HeaderLength h = of_nat (length data - length rest)"
proof -
  from assms obtain mlen nul d p dt tm blen n where "list_all name_ok [d, p, dt, tm]"
    and b: "bytes_at data 0 (header_bytes mlen nul d p dt tm blen) n"
    and h: "h = \<lparr>HeaderLength = of_nat n, BitstreamLength = blen, DesignName = Some d, PartName = Some p,
               Date = Some dt, Time = Some tm, MagicLength = mlen\<rparr>"
    unfolding parse_header_iff by blast
  moreover from b [unfolded bytes_at_def drop_0 add_0] have data: "data = header_bytes mlen nul d p dt tm blen @ drop n data"
    and n: "n = length (header_bytes mlen nul d p dt tm blen)" by blast+
  moreover have "n = length data - length (drop n data)"
    using arg_cong [OF data, of length] n by simp
  ultimately show ?thesis by (intro exI [of _ d] exI [of _ p] exI [of _ dt] exI [of _ tm] exI [of _ nul]
      exI [of _ "drop n data"]) (simp only: XHwIcap_Bit_Header.select_convs simp_thms)
qed

text \<open>Witness of C37.\<close>

theorem parse_header_well_formed_witness:
  "\<exists>h. xrt_xclbin_parse_header (\<lambda>_. True) (header_bytes 3 0 [0x78, 0] [0] [0] [0] 7) 0 zero_header = Some (0, h) \<and>
     (\<exists>d p dt tm nul rest. DesignName h = Some d \<and> list_all name_ok [d, p, dt, tm] \<and>
        header_bytes 3 0 [0x78, 0] [0] [0] [0] 7 = header_bytes (MagicLength h) nul d p dt tm (BitstreamLength h) @ rest)"
proof -
  have "\<exists>h. xrt_xclbin_parse_header (\<lambda>_. True) (header_bytes 3 0 [0x78, 0] [0] [0] [0] 7) 0 zero_header = Some (0, h)"
    using parse_header_front [of "[0x78, 0]" "[0]" "[0]" "[0]" 3 "\<lambda>_. True" 0 7 "[]" 0 zero_header]
    by (simp add: name_ok_def)
  then show ?thesis using parse_header_well_formed by blast
qed

text \<open>A result that the parser reaches does not depend on what follows.\<close>

lemma next_byte_more: "next_byte data i = Some r \<Longrightarrow> next_byte (data @ e) i = Some r"
  by (auto simp: next_byte_def nth_append split: if_splits)

lemma bind_more:
  "f \<bind> g = Some r \<Longrightarrow> (\<And>x. f = Some x \<Longrightarrow> f' = Some x) \<Longrightarrow>
     (\<And>x. f = Some x \<Longrightarrow> g x = Some r \<Longrightarrow> g' x = Some r) \<Longrightarrow> f' \<bind> g' = Some r"
  by (cases f) auto

lemma next_len_more: "next_len data i = Some r \<Longrightarrow> next_len (data @ e) i = Some r"
  unfolding next_len_def by (erule bind_more | erule next_byte_more | clarsimp)+

lemma next_u32_more: "next_u32 data i = Some r \<Longrightarrow> next_u32 (data @ e) i = Some r"
  unfolding next_u32_def by (erule bind_more | erule next_byte_more | clarsimp)+

lemma magic_loop_more: "magic_loop data i k limit = Some r \<Longrightarrow> magic_loop (data @ e) i k limit = Some r"
proof (induction data i k limit rule: magic_loop.induct)
  case (1 data i k limit)
  show ?case
  proof (cases "k < limit")
    case False
    then show ?thesis using 1(2) by (simp add: magic_loop.simps)
  next
    case True
    then obtain b l where b: "next_byte data i = Some (b, l)" using 1(2) by (auto simp: magic_loop.simps bind_eq_Some_conv)
    note 1(2) [unfolded magic_loop.simps [of data i k limit]]
    moreover note 1(1) [OF True b refl]
    ultimately show ?thesis
      unfolding magic_loop.simps [of "data @ e" i k limit] next_byte_more [OF b] using True b by (auto split: if_splits)
  qed
qed

lemma parse_field_more: "parse_field ok letter data i = Some r \<Longrightarrow> parse_field ok letter (data @ e) i = Some r"
  unfolding parse_field_def Let_def
  by (erule bind_more | erule next_byte_more | erule next_len_more | clarsimp split: if_splits)+

lemma parse_header_more:
  "xrt_xclbin_parse_header ok data sz h = Some r \<Longrightarrow> xrt_xclbin_parse_header ok (data @ e) sz h = Some r"
  unfolding xrt_xclbin_parse_header_def Let_def
  by (erule bind_more | erule next_byte_more next_len_more magic_loop_more parse_field_more next_u32_more
      | clarsimp split: if_splits)+

lemma header_bytes_small:
  assumes "list_all name_ok [d, p, dt, tm]" and "1 \<le> unat mlen" and "unat mlen < 2 ^ 16"
  shows "length (header_bytes mlen nul d p dt tm blen) < 2 ^ 32"
proof -
  have "unat (mlen - 1) < 2 ^ 16" using assms(2,3) unat_minus_one [of mlen] by (cases "mlen = 0") simp_all
  moreover have "length d < 2 ^ 16" "length p < 2 ^ 16" "length dt < 2 ^ 16" "length tm < 2 ^ 16"
    using assms(1) by (simp_all add: name_ok_def)
  ultimately show ?thesis by (simp add: header_bytes_def field_bytes_def be16_def be32_def)
qed

text \<open>
  C38. A buffer that is cut off inside a header makes the parser read beyond its end, whatever size the
  caller passes.
\<close>

theorem parse_header_overruns:
  assumes "list_all name_ok [d, p, dt, tm]" and "1 \<le> unat mlen" and "unat mlen < 2 ^ 16" and "list_all ok [0, 1, 2, 3]"
    and "header_bytes mlen nul d p dt tm blen = data @ rest" and "rest \<noteq> []"
  shows "xrt_xclbin_parse_header ok data sz header = None"
proof (rule ccontr)
  let ?f = "header_bytes mlen nul d p dt tm blen"
  assume "xrt_xclbin_parse_header ok data sz header \<noteq> None"
  then obtain r where r: "xrt_xclbin_parse_header ok data sz header = Some r" by blast
  from parse_header_more [OF this, of rest] assms(5) have "xrt_xclbin_parse_header ok ?f sz header = Some r" by simp
  then have r0: "r = (0, snd r)" and len: "HeaderLength (snd r) = of_nat (length ?f)"
    using parse_header_front [OF assms(1,3,4), of nul blen "[]" sz header] by auto
  from r r0 have "xrt_xclbin_parse_header ok data sz header = Some (0, snd r)" by metis
  then obtain xs n where n: "HeaderLength (snd r) = of_nat n" "bytes_at data 0 xs n" "xs \<noteq> []"
    unfolding parse_header_iff by (auto simp: header_bytes_def be16_def)
  then have "n \<le> length data" by (simp add: bytes_at_take)
  moreover have "length data < length ?f" using assms(5,6) by simp
  moreover have "(of_nat (length ?f) :: u32) = of_nat n" using n(1) len by simp
  moreover have "length ?f < 2 ^ 32" using header_bytes_small [OF assms(1,2,3)] .
  ultimately show False using of_nat_word_eq_iff [where 'a = 32, of "length ?f" n] by simp
qed

text \<open>Witness of C38: a buffer of two bytes.\<close>

theorem parse_header_overruns_witness:
  "xrt_xclbin_parse_header (\<lambda>_. True) (be16 3) 2 zero_header = None"
  by (rule parse_header_overruns [of "[0]" "[0]" "[0]" "[0]" 3 _ 0 7])
     (simp_all add: name_ok_def header_bytes_def, simp)


section \<open>Sections are inside the image\<close>

lemma find_section_Some:
  "find_section xclbin kind i = Some (Some k) \<Longrightarrow>
     i \<le> k \<and> k < unat (m_numSections xclbin) \<and> k < length (m_sections xclbin) \<and>
     m_sectionKind (m_sections xclbin ! k) = kind \<and>
     xrt_xclbin_check_section_hdr (m_sections xclbin ! k) (m_length xclbin) = Inr () \<and>
     (\<forall>j. i \<le> j \<and> j < k \<longrightarrow> m_sectionKind (m_sections xclbin ! j) \<noteq> kind)"
proof (induction xclbin kind i rule: find_section.induct)
  case (1 xclbin kind i)
  show ?case
  proof (cases "i < unat (m_numSections xclbin) \<and> i < length (m_sections xclbin) \<and> m_sectionKind (m_sections xclbin ! i) \<noteq> kind")
    case True
    then have "find_section xclbin kind (Suc i) = Some (Some k)" using 1(2) by (simp add: find_section.simps [of xclbin kind i])
    with 1(1) True have h: "Suc i \<le> k \<and> k < unat (m_numSections xclbin) \<and> k < length (m_sections xclbin) \<and>
        m_sectionKind (m_sections xclbin ! k) = kind \<and>
        xrt_xclbin_check_section_hdr (m_sections xclbin ! k) (m_length xclbin) = Inr () \<and>
        (\<forall>j. Suc i \<le> j \<and> j < k \<longrightarrow> m_sectionKind (m_sections xclbin ! j) \<noteq> kind)" by simp
    moreover have "m_sectionKind (m_sections xclbin ! j) \<noteq> kind" if "i \<le> j" "j < k" for j
      using that True h by (cases "j = i") auto
    ultimately show ?thesis by simp
  next
    case False
    then show ?thesis using 1(2)
      by (auto simp: find_section.simps [of xclbin kind i] split: if_splits sum.splits)
  qed
qed

lemma check_section_hdr_ok:
  "xrt_xclbin_check_section_hdr header len = Inr () \<Longrightarrow>
     unat (m_sectionOffset header) + unat (m_sectionSize header) \<le> unat len"
proof -
  let ?o = "m_sectionOffset header" and ?s = "m_sectionSize header"
  assume "xrt_xclbin_check_section_hdr header len = Inr ()"
  then have le: "?o \<le> ?o + ?s" "?o + ?s \<le> len"
    by (auto simp: xrt_xclbin_check_section_hdr_def not_less split: if_splits)
  from le(1) have "unat (?o + ?s) = unat ?o + unat ?s" by (simp only: unat_plus_simple)
  with le(2) show ?thesis by (simp add: word_le_nat_alt)
qed

lemma find_section_returns:
  "unat (m_numSections xclbin) \<le> length (m_sections xclbin) \<Longrightarrow> \<exists>r. find_section xclbin kind i = Some r"
proof (induction xclbin kind i rule: find_section.induct)
  case (1 xclbin kind i)
  then show ?case
    by (subst find_section.simps) (auto split: sum.splits)
qed

text \<open>
  A section that \<open>xrt_xclbin_get_section\<close> returns is the one of the first section header of its kind;
  it lies inside the length that the image states, the sum of its offset and size does not wrap, and the
  returned bytes are those of the image. An image that is as long as it states is never read beyond
  its end.
\<close>

theorem get_section_inside:
  assumes "unat (m_numSections xclbin) \<le> length (m_sections xclbin)" and "unat (m_length xclbin) \<le> length (axlf_bytes xclbin)"
  shows "\<exists>r. xrt_xclbin_get_section ok xclbin kind = Some r \<and>
    (\<forall>data len. r = Inr (data, len) \<longrightarrow>
      (\<exists>k hdr. k < unat (m_numSections xclbin) \<and> hdr = m_sections xclbin ! k \<and> m_sectionKind hdr = kind \<and>
        (\<forall>j<k. m_sectionKind (m_sections xclbin ! j) \<noteq> kind) \<and>
        unat (m_sectionOffset hdr) + unat (m_sectionSize hdr) \<le> unat (m_length xclbin) \<and> len = m_sectionSize hdr \<and>
        data = take (unat len) (drop (unat (m_sectionOffset hdr)) (axlf_bytes xclbin))))"
proof -
  obtain f where "find_section xclbin kind 0 = Some f" using find_section_returns [OF assms(1)] by blast
  then obtain g where g: "xrt_xclbin_get_section_hdr xclbin kind = Some g" and "g = None \<or> f = g"
    by (cases "m_numSections xclbin > XCLBIN_MAX_NUM_SECTION") (auto simp: xrt_xclbin_get_section_hdr_def)
  show ?thesis
  proof (cases g)
    case None
    then show ?thesis by (simp add: xrt_xclbin_get_section_def xrt_xclbin_section_info_def g)
  next
    case (Some k)
    then have "find_section xclbin kind 0 = Some (Some k)" using \<open>g = None \<or> f = g\<close> \<open>find_section xclbin kind 0 = Some f\<close> by simp
    note k = find_section_Some [OF this]
    note inside = check_section_hdr_ok [of "m_sections xclbin ! k" "m_length xclbin"]
    show ?thesis
      using k inside assms(2) by (auto simp: xrt_xclbin_get_section_def xrt_xclbin_section_info_def g Some Let_def)
  qed
qed

definition demo_axlf :: axlf where
  "demo_axlf = \<lparr>m_length = 4, m_numSections = 1,
     m_sections = [\<lparr>m_sectionKind = 8, m_sectionName = ''ip'', m_sectionOffset = 1, m_sectionSize = 2\<rparr>],
     axlf_bytes = [10, 11, 12, 13]\<rparr>"

text \<open>An instance.\<close>

theorem get_section_inside_witness:
  "xrt_xclbin_get_section True demo_axlf 8 = Some (Inr ([11, 12], 2))"
proof -
  obtain r where r: "xrt_xclbin_get_section True demo_axlf 8 = Some r"
    and s: "\<forall>data len. r = Inr (data, len) \<longrightarrow>
      (\<exists>k hdr. k < unat (m_numSections demo_axlf) \<and> hdr = m_sections demo_axlf ! k \<and> len = m_sectionSize hdr \<and>
        data = take (unat len) (drop (unat (m_sectionOffset hdr)) (axlf_bytes demo_axlf)))"
    using get_section_inside [of demo_axlf True 8] by (auto simp: demo_axlf_def)
  have "find_section demo_axlf 8 0 = Some (Some 0)"
    by (subst find_section.simps) (simp add: demo_axlf_def xrt_xclbin_check_section_hdr_def)
  then have "\<exists>data len. r = Inr (data, len)"
    using r by (auto simp: xrt_xclbin_get_section_def xrt_xclbin_section_info_def xrt_xclbin_get_section_hdr_def
        demo_axlf_def xrt_xclbin_check_section_hdr_def)
  with s have "r = Inr ([11, 12], 2)" by (auto simp: demo_axlf_def)
  with r show ?thesis by simp
qed

section \<open>Enumerating the sections of a kind\<close>

definition kind_sections :: "axlf \<Rightarrow> u32 \<Rightarrow> nat list" where
  "kind_sections xclbin kind = filter (\<lambda>i. m_sectionKind (m_sections xclbin ! i) = kind) [0..<unat (m_numSections xclbin)]"

lemma count_sections_eq:
  "unat (m_numSections xclbin) \<le> length (m_sections xclbin) \<Longrightarrow> i \<le> unat (m_numSections xclbin) \<Longrightarrow>
     count_sections xclbin kind cnt i =
       Some (cnt + int (length (filter (\<lambda>i. m_sectionKind (m_sections xclbin ! i) = kind) [i..<unat (m_numSections xclbin)])))"
proof (induction xclbin kind cnt i rule: count_sections.induct)
  case (1 xclbin kind cnt i)
  then show ?case by (subst count_sections.simps) (auto simp: upt_conv_Cons)
qed

lemma get_section_num_eq:
  "unat (m_numSections xclbin) \<le> length (m_sections xclbin) \<Longrightarrow>
     xrt_xclbin_get_section_num xclbin kind = Some (int (length (kind_sections xclbin kind)))"
  by (simp add: xrt_xclbin_get_section_num_def kind_sections_def count_sections_eq)

end
