(* ===== verification/Kds_Layout.thy ===== *)
theory Kds_Layout
  imports Prelude "HOL-Library.Monad_Syntax" "HOL-Library.Multiset"
begin

text \<open>
  The CUs of an image: \<open>kds_ip_layout2cu_info\<close> and \<open>kds_ip_layout2scu_info\<close> of \<open>common/drv/kds_core.c\<close>,
  which give the kernels of the IP layout section their indices.

  The array of the caller has a capacity that the functions do not check: a write beyond it is \<open>None\<close>, as
  is an access through a null pointer. A name is its 64 characters.
\<close>

section \<open>Data\<close>

abbreviation (input) IP_KERNEL :: u32 where "IP_KERNEL \<equiv> 1"
abbreviation (input) IP_PS_KERNEL :: u32 where "IP_PS_KERNEL \<equiv> 7"
abbreviation (input) IP_INT_ENABLE_MASK :: u32 where "IP_INT_ENABLE_MASK \<equiv> 1"
abbreviation (input) IP_INTERRUPT_ID_MASK :: u32 where "IP_INTERRUPT_ID_MASK \<equiv> 0xFE"
abbreviation (input) IP_CONTROL_MASK :: u32 where "IP_CONTROL_MASK \<equiv> 0xFF00"

record ip_data =
  m_type :: u32
  ip_properties :: u32
  m_base_address :: u64
  m_name :: string

record ip_layout =
  m_count :: int
  m_ip_data :: "ip_data list"

text \<open>The fields of \<open>xrt_cu_info\<close> that are filled in from the layout; the others are 0.\<close>

record layout_info =
  li_cu_idx :: nat
  li_addr :: u64
  li_intr_enable :: bool
  li_protocol :: u32
  li_intr_id :: u32
  li_kname :: string
  li_iname :: string

section \<open>Names\<close>

text \<open>A copy of at most 63 characters of a string that ends at the first 0 or at the end of its array.\<close>

definition str63 :: "string \<Rightarrow> string" where
  "str63 s = take 63 (takeWhile (\<lambda>c. c \<noteq> CHR 0x00) s)"

text \<open>\<open>strsep\<close>: the string before the colon, and what follows it, if there is one.\<close>

definition strsep_colon :: "string \<Rightarrow> string \<times> string option" where
  "strsep_colon s =
     (takeWhile (\<lambda>c. c \<noteq> CHR 0x3A) s, if CHR 0x3A \<in> set s then Some (tl (dropWhile (\<lambda>c. c \<noteq> CHR 0x3A) s)) else None)"

definition split_name :: "string \<Rightarrow> (string \<times> string) option" where
  "split_name name =
     (case strsep_colon (str63 name) of
        (_, None) \<Rightarrow> None
      | (kname, Some rest) \<Rightarrow> Some (kname, fst (strsep_colon rest)))"

section \<open>Hardware kernels\<close>

definition ip_cu_info :: "ip_data \<Rightarrow> layout_info option" where
  "ip_cu_info ip =
     do { (kname, iname) \<leftarrow> split_name (m_name ip);
          Some \<lparr>li_cu_idx = 0, li_addr = m_base_address ip,
                li_intr_enable = (ip_properties ip AND IP_INT_ENABLE_MASK \<noteq> 0),
                li_protocol = drop_bit 8 (ip_properties ip AND IP_CONTROL_MASK),
                li_intr_id = drop_bit 1 (ip_properties ip AND IP_INTERRUPT_ID_MASK),
                li_kname = kname, li_iname = iname\<rparr> }"

text \<open>A write to the array at an index.\<close>

definition put_info :: "nat \<Rightarrow> (nat \<Rightarrow> layout_info) \<Rightarrow> nat \<Rightarrow> layout_info \<Rightarrow> (nat \<Rightarrow> layout_info) option" where
  "put_info cap cu_info j info = (if j < cap then Some (cu_info(j := info\<lparr>li_cu_idx := j\<rparr>)) else None)"

text \<open>The insertion loop, from index \<open>j\<close> down; the result says whether the information was inserted.\<close>

fun insert_info :: "nat \<Rightarrow> layout_info \<Rightarrow> nat \<Rightarrow> (nat \<Rightarrow> layout_info) \<Rightarrow> (bool \<times> (nat \<Rightarrow> layout_info)) option" where
  "insert_info cap info 0 cu_info = do { a \<leftarrow> put_info cap cu_info 0 info; Some (True, a) }"
| "insert_info cap info (Suc j) cu_info =
     (let prev = cu_info j in
      if li_intr_id prev < li_intr_id info
      then do { a \<leftarrow> put_info cap cu_info (Suc j) info; Some (True, a) }
      else if li_intr_id prev > li_intr_id info
      then do { a \<leftarrow> put_info cap cu_info (Suc j) prev; insert_info cap info j a }
      else if li_addr prev < li_addr info
      then do { a \<leftarrow> put_info cap cu_info (Suc j) info; Some (True, a) }
      else if li_addr prev > li_addr info
      then do { a \<leftarrow> put_info cap cu_info (Suc j) prev; insert_info cap info j a }
      else Some (False, cu_info))"

definition cu_kernel :: "ip_data \<Rightarrow> bool" where
  "cu_kernel ip \<longleftrightarrow> m_type ip = IP_KERNEL \<and> NOT (m_base_address ip) \<noteq> 0"

fun layout_loop :: "nat \<Rightarrow> ip_data list \<Rightarrow> nat \<Rightarrow> (nat \<Rightarrow> layout_info) \<Rightarrow> (nat \<times> (nat \<Rightarrow> layout_info)) option" where
  "layout_loop cap [] num_cus cu_info = Some (num_cus, cu_info)"
| "layout_loop cap (ip # ips) num_cus cu_info =
     (if \<not> cu_kernel ip then layout_loop cap ips num_cus cu_info
      else do { info \<leftarrow> ip_cu_info ip;
                (inserted, a) \<leftarrow> insert_info cap info num_cus cu_info;
                layout_loop cap ips (if inserted then Suc num_cus else num_cus) a })"

definition kds_ip_layout2cu_info ::
  "ip_layout \<Rightarrow> nat \<Rightarrow> (nat \<Rightarrow> layout_info) \<Rightarrow> (nat \<times> (nat \<Rightarrow> layout_info)) option" where
  "kds_ip_layout2cu_info layout cap cu_info =
     (if nat (m_count layout) > length (m_ip_data layout) then None
      else layout_loop cap (take (nat (m_count layout)) (m_ip_data layout)) 0 cu_info)"

section \<open>Soft kernels\<close>

fun scu_loop :: "nat \<Rightarrow> ip_data list \<Rightarrow> nat \<Rightarrow> (nat \<Rightarrow> layout_info) \<Rightarrow> (nat \<times> (nat \<Rightarrow> layout_info)) option" where
  "scu_loop cap [] num_cus cu_info = Some (num_cus, cu_info)"
| "scu_loop cap (ip # ips) num_cus cu_info =
     (if m_type ip \<noteq> IP_PS_KERNEL then scu_loop cap ips num_cus cu_info
      else do { (kname, iname) \<leftarrow> split_name (m_name ip);
                a \<leftarrow> put_info cap cu_info num_cus
                       \<lparr>li_cu_idx = 0, li_addr = 0, li_intr_enable = False, li_protocol = 0, li_intr_id = 0,
                        li_kname = kname, li_iname = iname\<rparr>;
                scu_loop cap ips (Suc num_cus) a })"

definition kds_ip_layout2scu_info ::
  "ip_layout \<Rightarrow> nat \<Rightarrow> (nat \<Rightarrow> layout_info) \<Rightarrow> (nat \<times> (nat \<Rightarrow> layout_info)) option" where
  "kds_ip_layout2scu_info layout cap cu_info =
     (if nat (m_count layout) > length (m_ip_data layout) then None
      else scu_loop cap (take (nat (m_count layout)) (m_ip_data layout)) 0 cu_info)"

section \<open>The order of the CUs\<close>

definition cu_key :: "layout_info \<Rightarrow> nat" where
  "cu_key info = unat (li_intr_id info) * 2 ^ 64 + unat (li_addr info)"

text \<open>The infos with their positions as indices.\<close>

definition indexed :: "layout_info list \<Rightarrow> layout_info list" where
  "indexed infos = map (\<lambda>i. (infos ! i)\<lparr>li_cu_idx := i\<rparr>) [0..<length infos]"

lemma cu_key_less:
  "cu_key a < cu_key b \<longleftrightarrow> li_intr_id a < li_intr_id b \<or> li_intr_id a = li_intr_id b \<and> li_addr a < li_addr b"
proof -
  have a: "unat (li_addr a) < 2 ^ 64" and b: "unat (li_addr b) < 2 ^ 64"
    using unsigned_less [of "li_addr a"] unsigned_less [of "li_addr b"] by simp_all
  have lt: "x * 2 ^ 64 + p < y * 2 ^ 64 + q" if "x < y" "p < 2 ^ 64" for x y p q :: nat
  proof -
    have "(x + 1) * 2 ^ 64 \<le> y * 2 ^ 64" using that(1) by (intro mult_right_mono) simp_all
    then show ?thesis using that(2) by simp
  qed
  show ?thesis
  proof (cases "unat (li_intr_id a)" "unat (li_intr_id b)" rule: linorder_cases)
    case less
    then show ?thesis using lt [OF less a, of "unat (li_addr b)"] by (simp only: cu_key_def word_less_nat_alt simp_thms)
  next
    case equal
    then show ?thesis by (simp add: cu_key_def word_less_nat_alt word_unat_eq_iff)
  next
    case greater
    then show ?thesis using lt [OF greater b, of "unat (li_addr a)"]
      by (simp add: cu_key_def word_less_nat_alt word_unat_eq_iff)
  qed
qed

lemma cu_key_idx [simp]: "cu_key (a\<lparr>li_cu_idx := i\<rparr>) = cu_key a"
  by (simp add: cu_key_def)

text \<open>The loop with the comparisons as one of keys.\<close>

lemma insert_info_Suc:
  "insert_info cap info (Suc j) cu_info =
     (if cu_key (cu_info j) < cu_key info then do { a \<leftarrow> put_info cap cu_info (Suc j) info; Some (True, a) }
      else if cu_key info < cu_key (cu_info j) then do { a \<leftarrow> put_info cap cu_info (Suc j) (cu_info j); insert_info cap info j a }
      else Some (False, cu_info))"
proof -
  have "li_intr_id info < li_intr_id (cu_info j) \<longleftrightarrow> \<not> li_intr_id (cu_info j) < li_intr_id info \<and> li_intr_id (cu_info j) \<noteq> li_intr_id info"
    by auto
  then show ?thesis unfolding insert_info.simps Let_def cu_key_less
    by (cases "li_intr_id (cu_info j)" "li_intr_id info" rule: linorder_cases) simp_all
qed

declare insert_info.simps(2) [simp del]

lemma insort_key_last:
  "\<forall>y\<in>set xs. f y < f x \<Longrightarrow> insort_key f x xs = xs @ [x]"
  by (induction xs) auto

lemma insort_key_before_last:
  "f x \<le> f y \<Longrightarrow> insort_key f x (xs @ [y]) = insort_key f x xs @ [y]"
  by (induction xs) auto

lemma sort_key_snoc:
  assumes "distinct (map f (xs @ [x]))"
  shows "insort_key f x (sort_key f xs) = sort_key f (xs @ [x])"
proof (rule properties_for_sort_key [symmetric])
  show "mset (insort_key f x (sort_key f xs)) = mset (xs @ [x])" by simp
  show "sorted (map f (insort_key f x (sort_key f xs)))" by (simp add: sorted_insort_key)
  have one: "filter (\<lambda>y. f k = f y) zs = [k]" if "k \<in> set zs" "distinct (map f zs)" for k and zs
    using that by (induction zs) (auto simp: filter_empty_conv, metis image_eqI)
  have "distinct (map f (insort_key f x (sort_key f xs)))"
    using assms mset_eq_imp_distinct_iff [of "map f (insort_key f x (sort_key f xs))" "map f (xs @ [x])"] by simp
  moreover fix k assume "k \<in> set (insort_key f x (sort_key f xs))"
  ultimately show "filter (\<lambda>y. f k = f y) (insort_key f x (sort_key f xs)) = filter (\<lambda>y. f k = f y) (xs @ [x])"
    using one [of k "insort_key f x (sort_key f xs)"] one [of k "xs @ [x]"] assms by (simp add: set_insort_key)
qed

definition holds_infos :: "layout_info list \<Rightarrow> (nat \<Rightarrow> layout_info) \<Rightarrow> bool" where
  "holds_infos xs a \<longleftrightarrow> (\<forall>i<length xs. a i = (xs ! i)\<lparr>li_cu_idx := i\<rparr>)"

lemma holds_infos_snoc:
  "holds_infos (xs @ [x]) a \<longleftrightarrow> holds_infos xs a \<and> a (length xs) = x\<lparr>li_cu_idx := length xs\<rparr>"
  by (auto simp: holds_infos_def nth_append less_Suc_eq)

lemma holds_infos_upd: "length xs \<le> j \<Longrightarrow> holds_infos xs (a(j := v)) = holds_infos xs a"
  by (auto simp: holds_infos_def)

lemma insert_info_spec:
  assumes "sorted (map cu_key xs)" and "cu_key info \<notin> cu_key ` set xs" and "length xs < cap" and "holds_infos xs a"
  shows "\<exists>b. insert_info cap info (length xs) a = Some (True, b) \<and> holds_infos (insort_key cu_key info xs) b \<and>
    (\<forall>i>length xs. b i = a i)"
  using assms
proof (induction xs arbitrary: a rule: rev_induct)
  case Nil
  then show ?case by (auto simp: put_info_def holds_infos_def)
next
  case (snoc y ys)
  from snoc.prems(4) have ys: "holds_infos ys a" and y: "a (length ys) = y\<lparr>li_cu_idx := length ys\<rparr>"
    by (simp_all add: holds_infos_snoc)
  show ?case
  proof (cases "cu_key y < cu_key info")
    case True
    then have "insort_key cu_key info (ys @ [y]) = (ys @ [y]) @ [info]"
      using snoc.prems(1) by (intro insort_key_last) (auto simp: sorted_append)
    moreover have "holds_infos ((ys @ [y]) @ [info]) (a(Suc (length ys) := info\<lparr>li_cu_idx := Suc (length ys)\<rparr>))"
      unfolding holds_infos_snoc [of "ys @ [y]"] using snoc.prems(4) by (simp add: holds_infos_upd)
    ultimately show ?thesis using True y snoc.prems(3) by (simp add: insert_info_Suc put_info_def)
  next
    case False
    then have less: "cu_key info < cu_key y" using snoc.prems(2) by auto
    let ?a = "a(Suc (length ys) := y\<lparr>li_cu_idx := Suc (length ys)\<rparr>)"
    have s: "sorted (map cu_key ys)" "cu_key info \<notin> cu_key ` set ys" "length ys < cap"
      using snoc.prems(1-3) by (auto simp: sorted_append)
    have "holds_infos ys ?a" using ys by (subst holds_infos_upd) simp_all
    from snoc.IH [OF s this] obtain b where b: "insert_info cap info (length ys) ?a = Some (True, b)"
      "holds_infos (insort_key cu_key info ys) b" "\<forall>i>length ys. b i = ?a i" by blast
    have "insort_key cu_key info (ys @ [y]) = insort_key cu_key info ys @ [y]"
      using less by (intro insort_key_before_last) simp
    then show ?thesis
      using less False y snoc.prems(3) b by (simp add: insert_info_Suc put_info_def holds_infos_snoc)
  qed
qed

lemma layout_loop_spec:
  assumes "map ip_cu_info (filter cu_kernel ips) = map Some infos" and "distinct (map cu_key (xs @ infos))"
    and "length xs + length infos \<le> cap" and "holds_infos (sort_key cu_key xs) a"
  shows "\<exists>b. layout_loop cap ips (length xs) a = Some (length xs + length infos, b) \<and>
    holds_infos (sort_key cu_key (xs @ infos)) b"
  using assms
proof (induction ips arbitrary: infos xs a)
  case Nil
  then show ?case by simp
next
  case (Cons ip ips)
  show ?case
  proof (cases "cu_kernel ip")
    case False
    then show ?thesis using Cons.IH [OF _ Cons.prems(2-4)] Cons.prems(1) by simp
  next
    case True
    then obtain info infos' where i: "infos = info # infos'" "ip_cu_info ip = Some info"
      "map ip_cu_info (filter cu_kernel ips) = map Some infos'"
      using Cons.prems(1) by (cases infos) auto
    have d: "distinct (map cu_key (xs @ [info]))" using Cons.prems(2) i(1) by auto
    then obtain b where b: "insert_info cap info (length xs) a = Some (True, b)" "holds_infos (sort_key cu_key (xs @ [info])) b"
      using insert_info_spec [of "sort_key cu_key xs" info cap a] Cons.prems(3,4) i(1) sort_key_snoc [OF d] by auto
    then show ?thesis
      using Cons.IH [OF i(3), of "xs @ [info]" b] Cons.prems(2,3) True i(1,2) by simp
  qed
qed

text \<open>
  C39. The CUs of a layout in which no two kernels have the same interrupt and address are exactly its
  kernels, sorted by interrupt and then address, and each has its position as its index.
\<close>

theorem layout_is_sorted:
  assumes "nat (m_count layout) \<le> length (m_ip_data layout)"
    and "map ip_cu_info (filter cu_kernel (take (nat (m_count layout)) (m_ip_data layout))) = map Some infos"
    and "distinct (map cu_key infos)" and "length infos \<le> cap"
  shows "\<exists>cu_info'. kds_ip_layout2cu_info layout cap cu_info = Some (length infos, cu_info') \<and>
    map cu_info' [0..<length infos] = indexed (sort_key cu_key infos)"
  using layout_loop_spec [OF assms(2), of "[]" cap cu_info] assms(1,3,4)
  by (auto simp: kds_ip_layout2cu_info_def holds_infos_def indexed_def)

definition demo_ip :: "u64 \<Rightarrow> ip_data" where
  "demo_ip addr = \<lparr>m_type = IP_KERNEL, ip_properties = 0, m_base_address = addr, m_name = ''k:i''\<rparr>"

definition demo_info :: "u64 \<Rightarrow> layout_info" where
  "demo_info addr = \<lparr>li_cu_idx = 0, li_addr = addr, li_intr_enable = False, li_protocol = 0, li_intr_id = 0,
     li_kname = ''k'', li_iname = ''i''\<rparr>"

lemma demo_ip_info: "ip_cu_info (demo_ip addr) = Some (demo_info addr)"
  by (simp add: demo_ip_def demo_info_def ip_cu_info_def split_name_def strsep_colon_def str63_def)

lemma demo_kernel: "cu_kernel (demo_ip addr) \<longleftrightarrow> NOT addr \<noteq> 0"
  by (simp add: cu_kernel_def demo_ip_def)

text \<open>Witness of C39.\<close>

theorem layout_is_sorted_witness:
  "\<exists>a. kds_ip_layout2cu_info \<lparr>m_count = 2, m_ip_data = [demo_ip 0x20, demo_ip 0x10]\<rparr> 128 (\<lambda>_. demo_info 0) = Some (2, a) \<and>
     map a [0..<2] = indexed (sort_key cu_key [demo_info 0x20, demo_info 0x10])"
proof -
  let ?l = "\<lparr>m_count = 2, m_ip_data = [demo_ip 0x20, demo_ip 0x10]\<rparr>" and ?is = "[demo_info 0x20, demo_info 0x10]"
  have "nat (m_count ?l) \<le> length (m_ip_data ?l)"
    "map ip_cu_info (filter cu_kernel (take (nat (m_count ?l)) (m_ip_data ?l))) = map Some ?is" "length ?is \<le> 128"
    by (simp_all add: demo_kernel demo_ip_info)
  moreover have "distinct (map cu_key ?is)" by (simp add: cu_key_def demo_info_def)
  moreover have two: "length ?is = 2" by simp
  ultimately show ?thesis using layout_is_sorted [of ?l ?is 128 "\<lambda>_. demo_info 0"] unfolding two by blast
qed

text \<open>
  A layout with the same kernel twice: the second occurrence is not counted, but the kernels after the
  first one have been moved already, so the last of them is lost and another one stands twice.
\<close>

theorem layout_duplicate_corrupts:
  "\<exists>a. kds_ip_layout2cu_info \<lparr>m_count = 4, m_ip_data = [demo_ip 0x10, demo_ip 0x20, demo_ip 0x30, demo_ip 0x10]\<rparr> 128 (\<lambda>_. demo_info 0)
       = Some (3, a) \<and> li_addr (a 0) = 0x10 \<and> li_addr (a 1) = 0x20 \<and> li_addr (a 2) = 0x20"
proof -
  have less: "cu_key ((demo_info x)\<lparr>li_cu_idx := i\<rparr>) < cu_key (demo_info y) \<longleftrightarrow> x < y"
    "cu_key (demo_info y) < cu_key ((demo_info x)\<lparr>li_cu_idx := i\<rparr>) \<longleftrightarrow> y < x" for x y i
    by (simp_all add: cu_key_def demo_info_def word_less_nat_alt)
  have addr: "li_addr (demo_info x) = x" for x by (simp add: demo_info_def)
  show ?thesis
    unfolding numeral_3_eq_3 numeral_2_eq_2 One_nat_def
    by (simp add: kds_ip_layout2cu_info_def demo_kernel demo_ip_info insert_info_Suc put_info_def less addr del: cu_key_idx)
qed

text \<open>An IP without a colon in its name is an access through a null pointer.\<close>

lemma layout_name_faults: "CHR 0x3A \<notin> set (m_name ip) \<Longrightarrow> ip_cu_info ip = None"
  by (auto simp: ip_cu_info_def split_name_def strsep_colon_def str63_def dest: in_set_takeD set_takeWhileD)

end
