(* ===== verification/Ert_Cu.thy ===== *)
theory Ert_Cu
  imports Xgq_Spec Kds_Command
begin

text \<open>
  The compute-unit side of the embedded scheduler, the firmware that serves the XGQ queues on the
  card (\<open>ert/scheduler/sched_cmd.h\<close>, \<open>sched_cu.h\<close>, \<open>xgq_cu.c\<close>). The model is the build of
  \<open>sched.mk\<close>: \<open>ERT_HW_EMU\<close>, \<open>ERT_DEVELOPER\<close>, \<open>XGQ_CMD_DEBUG\<close>, \<open>SCHED_CU_DEBUG\<close> and
  \<open>SCHED_CMD_DOUBLE_READ_WORKAROUND\<close> are off. The platform is \<open>xgq_mb_plat.h\<close>: every register and
  memory word is at a 32-bit address of one address space, \<open>hw_mem\<close>, so \<open>reg_read\<close> and
  \<open>reg_write\<close> cut their address to 32 bits, and the firmware is the XGQ server. The host and the
  compute units write to the same space; what they do to it while the firmware waits is the
  argument \<open>env\<close>, indexed by the number \<open>hw_time\<close> of waits so far, and what they do between two
  calls of the handler is a step of its own in the runs below.
\<close>

section \<open>Commands (sched\_cmd.h)\<close>

type_synonym fw_env = "nat \<Rightarrow> mem \<Rightarrow> mem"

definition reg_addr :: "u64 \<Rightarrow> u64" where
  "reg_addr a = ucast (ucast a :: u32)"

definition reg_write :: "mem \<Rightarrow> u64 \<Rightarrow> u32 \<Rightarrow> mem" where
  "reg_write m addr val = m(reg_addr addr := val)"

definition reg_read :: "mem \<Rightarrow> u64 \<Rightarrow> u32" where
  "reg_read m addr = m (reg_addr addr)"

record sched_cmd =
  cc_addr :: u64
  cached :: u32
  cc_header0 :: u32
  cc_header1 :: u32

definition cmd_load_header :: "mem \<Rightarrow> sched_cmd \<Rightarrow> sched_cmd" where
  "cmd_load_header m cu_cmd = cu_cmd\<lparr>cc_header0 := reg_read m (cc_addr cu_cmd)\<rparr>"

definition cmd_clear_header :: "bool \<Rightarrow> mem \<Rightarrow> sched_cmd \<Rightarrow> sched_cmd \<times> mem" where
  "cmd_clear_header write_back m cu_cmd =
     (cu_cmd\<lparr>cc_header0 := 0\<rparr>, if write_back then reg_write m (cc_addr cu_cmd) 0 else m)"

definition cmd_payload_size :: "sched_cmd \<Rightarrow> u32" where
  "cmd_payload_size cu_cmd = get_field 16 15 (cc_header0 cu_cmd)"

definition cmd_op_code :: "sched_cmd \<Rightarrow> u32" where
  "cmd_op_code cu_cmd = get_field 0 16 (cc_header0 cu_cmd)"

definition cmd_set_addr :: "u64 \<Rightarrow> sched_cmd \<Rightarrow> sched_cmd" where
  "cmd_set_addr addr cu_cmd = cu_cmd\<lparr>cc_addr := addr\<rparr>"

definition cmd_is_valid :: "sched_cmd \<Rightarrow> bool" where
  "cmd_is_valid cu_cmd = (get_field 31 1 (cc_header0 cu_cmd) \<noteq> 0)"

text \<open>
  The arguments follow the 8-byte header. Both command structs have one word of data behind the
  header, so the sizes that are subtracted from the payload size come to 0.
\<close>

definition cmd_args :: "sched_cmd \<Rightarrow> u64 \<times> u32" where
  "cmd_args cu_cmd = (cc_addr cu_cmd + 8, cmd_payload_size cu_cmd - (12 - 8 - 4))"

definition cmd_kv_args :: "sched_cmd \<Rightarrow> u64 \<times> u32" where
  "cmd_kv_args cu_cmd = (cc_addr cu_cmd + 8, cmd_payload_size cu_cmd - (12 - 8 - 4))"

definition cmd_load_cu_index :: "mem \<Rightarrow> sched_cmd \<Rightarrow> u32 \<times> sched_cmd" where
  "cmd_load_cu_index m cu_cmd =
     (let cmd1 = (if cached cu_cmd = 0
                  then cu_cmd\<lparr>cc_header1 := reg_read m (cc_addr cu_cmd + 4), cached := 1\<rparr>
                  else cu_cmd)
      in (get_field 16 12 (cc_header1 cmd1), cmd1))"

section \<open>Compute units (sched\_cu.h)\<close>

record sched_cu =
  cu_addr :: u64
  cu_status :: u32

abbreviation (input) SCHED_AP_START :: u32 where "SCHED_AP_START \<equiv> 1"
abbreviation (input) SCHED_AP_DONE :: u32 where "SCHED_AP_DONE \<equiv> 2"
abbreviation (input) SCHED_AP_IDLE :: u32 where "SCHED_AP_IDLE \<equiv> 4"
abbreviation (input) SCHED_AP_READY :: u32 where "SCHED_AP_READY \<equiv> 8"
abbreviation (input) SCHED_AP_CONTINUE :: u32 where "SCHED_AP_CONTINUE \<equiv> 16"
abbreviation (input) SCHED_AP_WAIT_FOR_INPUT :: u32 where "SCHED_AP_WAIT_FOR_INPUT \<equiv> 12"
abbreviation (input) SCHED_CU_ARG_OFFSET :: u64 where "SCHED_CU_ARG_OFFSET \<equiv> 16"
abbreviation (input) XGQ_CMD_OP_INIT_CUIDX_KV :: u32 where "XGQ_CMD_OP_INIT_CUIDX_KV \<equiv> 0x106"

definition cu_set_status :: "u32 \<Rightarrow> sched_cu \<Rightarrow> sched_cu" where
  "cu_set_status flags cu = cu\<lparr>cu_status := cu_status cu OR flags\<rparr>"

definition cu_clear_status :: "u32 \<Rightarrow> sched_cu \<Rightarrow> sched_cu" where
  "cu_clear_status flags cu = cu\<lparr>cu_status := cu_status cu AND NOT flags\<rparr>"

definition cu_has_status :: "u32 \<Rightarrow> sched_cu \<Rightarrow> bool" where
  "cu_has_status flags cu = (cu_status cu AND flags \<noteq> 0)"

definition cu_set_addr :: "u64 \<Rightarrow> sched_cu \<Rightarrow> sched_cu" where
  "cu_set_addr addr cu = cu\<lparr>cu_addr := addr\<rparr>"

definition cu_load_status :: "mem \<Rightarrow> sched_cu \<Rightarrow> sched_cu" where
  "cu_load_status m cu =
     (let hw = reg_read m (cu_addr cu);
          hw' = (if cu_has_status SCHED_AP_START cu \<and> hw AND SCHED_AP_START = 0
                 then hw OR SCHED_AP_READY else hw)
      in cu_set_status hw' cu)"

definition sched_cu_init :: "mem \<Rightarrow> u64 \<Rightarrow> sched_cu \<Rightarrow> sched_cu" where
  "sched_cu_init m addr cu = cu_load_status m (cu\<lparr>cu_addr := addr, cu_status := 0\<rparr>)"

text \<open>The two copy loops, by the number of words or pairs left and the loop counter \<open>i\<close>.\<close>

primrec copy_args :: "nat \<Rightarrow> u64 \<Rightarrow> u64 \<Rightarrow> u32 \<Rightarrow> mem \<Rightarrow> mem" where
  "copy_args 0 dst src i m = m"
| "copy_args (Suc n) dst src i m =
     copy_args n dst src (i + 4) (reg_write m (dst + ucast i) (reg_read m (src + ucast i)))"

primrec copy_pairs :: "nat \<Rightarrow> u64 \<Rightarrow> u64 \<Rightarrow> u32 \<Rightarrow> mem \<Rightarrow> mem" where
  "copy_pairs 0 dst src i m = m"
| "copy_pairs (Suc n) dst src i m =
     copy_pairs n dst src (i + 8)
       (reg_write m (dst + ucast (reg_read m (src + ucast i))) (reg_read m (src + ucast i + 4)))"

definition fw_cu_start :: "mem \<Rightarrow> sched_cmd \<Rightarrow> sched_cu \<Rightarrow> unit res \<times> sched_cu \<times> mem" where
  "fw_cu_start m cu_cmd cu =
     (let dst = cu_addr cu + SCHED_CU_ARG_OFFSET; (src, arg_sz) = cmd_args cu_cmd in
      if arg_sz AND 3 \<noteq> 0 then (Inl EINVAL, cu, m)
      else let m1 = copy_args (unat arg_sz div 4) dst src 0 m;
               m2 = reg_write m1 (cu_addr cu) SCHED_AP_START
           in (Inr (), cu_clear_status SCHED_AP_WAIT_FOR_INPUT (cu_set_status SCHED_AP_START cu), m2))"

definition cu_init_kv :: "mem \<Rightarrow> sched_cmd \<Rightarrow> sched_cu \<Rightarrow> unit res \<times> mem" where
  "cu_init_kv m cu_cmd cu =
     (let (src, arg_sz) = cmd_kv_args cu_cmd in
      if arg_sz AND 7 \<noteq> 0 then (Inl EINVAL, m)
      else (Inr (), copy_pairs (unat arg_sz div 8) (cu_addr cu) src 0 m))"

definition cu_start_kv :: "mem \<Rightarrow> sched_cmd \<Rightarrow> sched_cu \<Rightarrow> unit res \<times> sched_cu \<times> mem" where
  "cu_start_kv m cu_cmd cu =
     (case cu_init_kv m cu_cmd cu of
        (Inl e, m1) \<Rightarrow> (Inl e, cu, m1)
      | (Inr _, m1) \<Rightarrow>
          (Inr (), cu_clear_status SCHED_AP_WAIT_FOR_INPUT (cu_set_status SCHED_AP_START cu),
           reg_write m1 (cu_addr cu) SCHED_AP_START))"

definition cu_done :: "mem \<Rightarrow> sched_cu \<Rightarrow> sched_cu \<times> mem" where
  "cu_done m cu =
     (cu_clear_status SCHED_AP_DONE cu, reg_write m (cu_addr cu) SCHED_AP_CONTINUE)"

section \<open>The queue of a compute unit (xgq\_cu.c)\<close>

text \<open>
  \<open>struct xgq_cu\<close> holds pointers to its queue and its CU, entries of two arrays of the scheduler
  (theory \<open>Ert_Sched\<close>): \<open>xc_q\<close> and \<open>xc_cu\<close> are the array indices, \<open>None\<close> the null pointer of
  the zeroed struct. \<open>cu_ctx\<close> is what the handler reaches: the address space, the struct and the
  two objects its pointers lead to.
\<close>

record xgq_cu =
  xc_q :: "nat option"
  xc_cu :: "nat option"
  xc_cmd :: sched_cmd
  xc_cmd_running :: u32
  xc_offset :: u32
  xc_xgq_id :: u32
  xc_csr_reg :: u32

record cu_ctx =
  hw_time :: nat
  hw_mem :: mem
  ctx_xc :: xgq_cu
  ctx_q :: xgq
  ctx_cu :: sched_cu

definition xgq_cu_init :: "nat \<Rightarrow> nat \<Rightarrow> xgq_cu \<Rightarrow> sched_cu \<Rightarrow> xgq_cu \<times> sched_cu" where
  "xgq_cu_init q cu xc c =
     (xc\<lparr>xc_q := Some q, xc_cu := Some cu, xc_cmd_running := 0,
         xc_cmd := (cmd_set_addr 0 (xc_cmd xc))\<lparr>cc_header0 := 0\<rparr>\<rparr>,
      cu_set_status SCHED_AP_IDLE c)"

definition xgq_cu_interrupt_trigger :: "xgq_cu \<Rightarrow> u32 \<Rightarrow> mem \<Rightarrow> mem" where
  "xgq_cu_interrupt_trigger xc xgq_id m =
     reg_write m (ucast (xc_csr_reg xc)) (push_bit (unat xgq_id) 1)"

text \<open>
  \<open>while (xgq_produce(q, &slot_addr)) continue\<close>, which both response paths run: \<open>None\<close> when the
  host never makes room.
\<close>

partial_function (option) xgq_produce_wait ::
  "fw_env \<Rightarrow> nat \<Rightarrow> mem \<Rightarrow> xgq \<Rightarrow> (u64 \<times> nat \<times> mem \<times> xgq) option" where
  "xgq_produce_wait env t m q =
     (case xgq_produce True m q of
        (Inr slot_addr, q') \<Rightarrow> Some (slot_addr, t, m, q')
      | (Inl e, q') \<Rightarrow> xgq_produce_wait env (Suc t) (env t m) q')"

declare xgq_produce_wait.simps [code]

text \<open>\<open>err\<close> is not used: the response carries no result.\<close>

definition xgq_cu_complete_cmd :: "fw_env \<Rightarrow> kerr option \<Rightarrow> cu_ctx \<Rightarrow> cu_ctx option" where
  "xgq_cu_complete_cmd env err c =
     (case xgq_produce_wait env (hw_time c) (hw_mem c) (ctx_q c) of
        None \<Rightarrow> None
      | Some (slot_addr, t, m, q) \<Rightarrow>
          let m1 = xgq_notify_peer_produced True m q;
              m2 = xgq_cu_interrupt_trigger (ctx_xc c) (xc_xgq_id (ctx_xc c)) m1
          in Some (c\<lparr>hw_time := t, hw_mem := m2, ctx_q := q,
                     ctx_xc := (ctx_xc c)\<lparr>xc_cmd_running := xc_cmd_running (ctx_xc c) - 1\<rparr>\<rparr>))"

text \<open>
  The three parts of \<open>xgq_cu_process\<close> in its order: fetching a command, looking after the running
  ones, and starting the fetched one.
\<close>

abbreviation ctx_cmd :: "cu_ctx \<Rightarrow> sched_cmd" where
  "ctx_cmd c \<equiv> xc_cmd (ctx_xc c)"

definition set_ctx_cmd :: "sched_cmd \<Rightarrow> cu_ctx \<Rightarrow> cu_ctx" where
  "set_ctx_cmd cmd c = c\<lparr>ctx_xc := (ctx_xc c)\<lparr>xc_cmd := cmd\<rparr>\<rparr>"

definition cu_fetch :: "cu_ctx \<Rightarrow> cu_ctx" where
  "cu_fetch c =
     (if cmd_is_valid (ctx_cmd c) then c
      else case xgq_consume True (hw_mem c) (ctx_q c) of
             (Inl e, q) \<Rightarrow> c\<lparr>ctx_q := q\<rparr>
           | (Inr addr, q) \<Rightarrow>
               set_ctx_cmd (cmd_load_header (hw_mem c) (cmd_set_addr addr (ctx_cmd c))) (c\<lparr>ctx_q := q\<rparr>))"

definition cu_watch :: "fw_env \<Rightarrow> cu_ctx \<Rightarrow> cu_ctx option" where
  "cu_watch env c =
     (if xc_cmd_running (ctx_xc c) \<noteq> 0
         \<or> (cmd_is_valid (ctx_cmd c) \<and> \<not> cu_has_status SCHED_AP_WAIT_FOR_INPUT (ctx_cu c))
      then let cu1 = cu_load_status (hw_mem c) (ctx_cu c) in
        if cu_has_status SCHED_AP_DONE cu1
        then let (cu2, m) = cu_done (hw_mem c) cu1
             in xgq_cu_complete_cmd env None (c\<lparr>hw_mem := m, ctx_cu := cu2\<rparr>)
        else Some (c\<lparr>ctx_cu := cu1\<rparr>)
      else Some c)"

definition cu_launch :: "cu_ctx \<Rightarrow> unit res \<times> cu_ctx" where
  "cu_launch c =
     (let cmd = ctx_cmd c; cu = ctx_cu c; m = hw_mem c; opc = cmd_op_code cmd in
      if opc = XGQ_CMD_OP_START_CUIDX
      then let (rc, cu', m') = fw_cu_start m cmd cu in (rc, c\<lparr>ctx_cu := cu', hw_mem := m'\<rparr>)
      else if opc = XGQ_CMD_OP_START_CUIDX_KV
      then let (rc, cu', m') = cu_start_kv m cmd cu in (rc, c\<lparr>ctx_cu := cu', hw_mem := m'\<rparr>)
      else if opc = XGQ_CMD_OP_INIT_CUIDX_KV
      then let (rc, m') = cu_init_kv m cmd cu in (rc, c\<lparr>hw_mem := m'\<rparr>)
      else (Inl ENOTTY, c))"

definition cu_release :: "cu_ctx \<Rightarrow> cu_ctx" where
  "cu_release c =
     set_ctx_cmd ((ctx_cmd c)\<lparr>cc_header0 := 0\<rparr>)
       (c\<lparr>hw_mem := xgq_notify_peer_consumed True (hw_mem c) (ctx_q c)\<rparr>)"

definition xgq_cu_process :: "fw_env \<Rightarrow> cu_ctx \<Rightarrow> (unit res \<times> cu_ctx) option" where
  "xgq_cu_process env c =
     (case cu_watch env (cu_fetch c) of
        None \<Rightarrow> None
      | Some c1 \<Rightarrow>
          if \<not> cmd_is_valid (ctx_cmd c1) \<or> \<not> cu_has_status SCHED_AP_WAIT_FOR_INPUT (ctx_cu c1)
          then Some (Inl EBUSY, c1)
          else let (rc, c2) = cu_launch c1; c3 = cu_release c2 in
            case rc of
              Inr _ \<Rightarrow>
                Some (Inr (), c3\<lparr>ctx_xc := (ctx_xc c3)\<lparr>xc_cmd_running := xc_cmd_running (ctx_xc c3) + 1\<rparr>\<rparr>)
            | Inl e \<Rightarrow>
                (case xgq_cu_complete_cmd env (Some e) c3 of
                   None \<Rightarrow> None
                 | Some c4 \<Rightarrow> Some (Inl e, c4)))"

section \<open>Runs of the handler\<close>

text \<open>
  A run from \<open>c0\<close>: calls of the handler, and in between anything the host and the CU write to the
  address space. The run counts the commands the handler rejected, and the entries it took from
  the queue whose header did not have the new-entry flag.
\<close>

definition cu_rejects :: "unit res \<Rightarrow> bool" where
  "cu_rejects ret = (case ret of Inl e \<Rightarrow> e \<noteq> EBUSY | Inr _ \<Rightarrow> False)"

definition fetches_blank :: "cu_ctx \<Rightarrow> bool" where
  "fetches_blank c =
     (\<not> cmd_is_valid (ctx_cmd c) \<and> \<not> cmd_is_valid (ctx_cmd (cu_fetch c))
      \<and> (case fst (xgq_consume True (hw_mem c) (ctx_q c)) of Inl e \<Rightarrow> False | Inr a \<Rightarrow> True))"

inductive cu_run :: "fw_env \<Rightarrow> cu_ctx \<Rightarrow> nat \<Rightarrow> nat \<Rightarrow> cu_ctx \<Rightarrow> bool" for env c0 where
  start: "cu_run env c0 0 0 c0"
| outside: "cu_run env c0 r d c \<Longrightarrow> cu_run env c0 r d (c\<lparr>hw_mem := m\<rparr>)"
| call: "cu_run env c0 r d c \<Longrightarrow> xgq_cu_process env c = Some (ret, c') \<Longrightarrow>
    cu_run env c0 (r + (if cu_rejects ret then 1 else 0)) (d + (if fetches_blank c then 1 else 0)) c'"

text \<open>
  The commands taken from the submission ring that the completion ring has not answered, the one
  waiting in \<open>xc_cmd\<close> apart. Both positions are counters that wrap.
\<close>

definition cu_unanswered :: "cu_ctx \<Rightarrow> u32" where
  "cu_unanswered c = xr_consumed (xq_sq (ctx_q c)) - xr_produced (xq_cq (ctx_q c))
     - (if cmd_is_valid (ctx_cmd c) then 1 else 0)"

definition cu_drift :: "cu_ctx \<Rightarrow> u32" where
  "cu_drift c = cu_unanswered c - xc_cmd_running (ctx_xc c)"

text \<open>One memory after the other is put before the handler, and the handler called on each.\<close>

primrec cu_polls :: "fw_env \<Rightarrow> mem list \<Rightarrow> cu_ctx \<Rightarrow> cu_ctx option" where
  "cu_polls env [] c = Some c"
| "cu_polls env (m # ms) c =
     (case xgq_cu_process env (c\<lparr>hw_mem := m\<rparr>) of
        None \<Rightarrow> None | Some (ret, c') \<Rightarrow> cu_polls env ms c')"

section \<open>Producing and consuming as the server\<close>

lemma srv_rings [simp]:
  "prod_ring True q = xq_cq q" "cons_ring True q = xq_sq q"
  "set_prod_ring True r q = q\<lparr>xq_cq := r\<rparr>" "set_cons_ring True r q = q\<lparr>xq_sq := r\<rparr>"
  by (simp_all add: prod_ring_def cons_ring_def set_prod_ring_def set_cons_ring_def)

lemma srv_consume_ok:
  "xgq_consume True m q = (Inr a, q') \<Longrightarrow>
    xr_consumed (xq_sq q') = xr_consumed (xq_sq q) + 1 \<and> xq_cq q' = xq_cq q"
  by (auto simp: xgq_consume_def xgq_can_consume_def Let_def xgq_io_defs split: if_splits prod.splits)

lemma srv_consume_none:
  "xgq_consume True m q = (Inl e, q') \<Longrightarrow>
    xr_consumed (xq_sq q') = xr_consumed (xq_sq q) \<and> xq_cq q' = xq_cq q"
  by (auto simp: xgq_consume_def xgq_can_consume_def Let_def xgq_io_defs split: if_splits prod.splits)

lemma srv_consume_empty:
  assumes "xr_produced (xq_sq q) = xr_consumed (xq_sq q)"
    and "m (xr_produced_addr (xq_sq q)) = xr_consumed (xq_sq q)"
  shows "xgq_consume True m q = (Inl ENOENT, q)"
proof -
  have "q\<lparr>xq_sq := (xq_sq q)\<lparr>xr_produced := xr_consumed (xq_sq q)\<rparr>\<rparr> = q"
    using assms(1) by (cases q, cases "xq_sq q") simp
  then show ?thesis using assms
    by (simp add: xgq_consume_def xgq_can_consume_def xgq_ring_empty_def xgq_io_defs Let_def)
qed

lemma srv_produce_ok:
  "xgq_produce True m q = (Inr a, q') \<Longrightarrow>
    xr_produced (xq_cq q') = xr_produced (xq_cq q) + 1 \<and> xq_sq q' = xq_sq q
    \<and> xr_produced_addr (xq_cq q') = xr_produced_addr (xq_cq q)"
  by (auto simp: xgq_produce_def xgq_can_produce_def Let_def xgq_io_defs split: if_splits prod.splits)

lemma srv_produce_full:
  "xgq_produce True m q = (Inl e, q') \<Longrightarrow>
    xr_produced (xq_cq q') = xr_produced (xq_cq q) \<and> xq_sq q' = xq_sq q
    \<and> xr_produced_addr (xq_cq q') = xr_produced_addr (xq_cq q)"
  by (auto simp: xgq_produce_def xgq_can_produce_def Let_def xgq_io_defs split: if_splits prod.splits)

definition answers_with :: "xgq \<Rightarrow> xgq \<Rightarrow> bool" where
  "answers_with q q' \<longleftrightarrow> xr_produced (xq_cq q') = xr_produced (xq_cq q) + 1 \<and> xq_sq q' = xq_sq q
     \<and> xr_produced_addr (xq_cq q') = xr_produced_addr (xq_cq q)"

lemma xgq_produce_wait_ok:
  assumes "xgq_produce_wait env t m q = Some y"
  shows "answers_with q (snd (snd (snd y)))"
proof (induction rule: xgq_produce_wait.raw_induct [OF _ assms, rotated])
  case (1 f env t m q y)
  obtain r q1 where p: "xgq_produce True m q = (r, q1)" by fastforce
  show ?case
  proof (cases r)
    case (Inr a)
    then show ?thesis using 1(2) p srv_produce_ok [of m q a q1] by (auto simp: answers_with_def)
  next
    case (Inl e)
    then have "f env (Suc t) (env t m) q1 = Some y" using 1(2) p by simp
    from 1(1) [OF this] show ?thesis
      using srv_produce_full [of m q e q1] p Inl by (simp add: answers_with_def)
  qed
qed

section \<open>What \<open>xc\_cmd\_running\<close> counts\<close>

lemma complete_cmd_eq:
  assumes "xgq_cu_complete_cmd env err c = Some c'"
  shows "answers_with (ctx_q c) (ctx_q c') \<and> ctx_cmd c' = ctx_cmd c \<and> ctx_cu c' = ctx_cu c
    \<and> xc_cmd_running (ctx_xc c') = xc_cmd_running (ctx_xc c) - 1"
proof -
  obtain a t m q where w: "xgq_produce_wait env (hw_time c) (hw_mem c) (ctx_q c) = Some (a, t, m, q)"
    using assms by (auto simp: xgq_cu_complete_cmd_def split: option.splits)
  from xgq_produce_wait_ok [OF w] assms w show ?thesis
    by (auto simp: xgq_cu_complete_cmd_def Let_def)
qed

lemma set_ctx_cmd_simps [simp]:
  "ctx_xc (set_ctx_cmd cmd c) = (ctx_xc c)\<lparr>xc_cmd := cmd\<rparr>" "ctx_q (set_ctx_cmd cmd c) = ctx_q c"
  "ctx_cu (set_ctx_cmd cmd c) = ctx_cu c" "hw_mem (set_ctx_cmd cmd c) = hw_mem c"
  by (simp_all add: set_ctx_cmd_def)

lemma cu_fetch_drift: "cu_drift (cu_fetch c) = cu_drift c + (if fetches_blank c then 1 else 0)"
proof (cases "cmd_is_valid (ctx_cmd c)")
  case True
  then show ?thesis by (simp add: cu_fetch_def fetches_blank_def)
next
  case False
  obtain r q where p: "xgq_consume True (hw_mem c) (ctx_q c) = (r, q)" by fastforce
  show ?thesis
  proof (cases r)
    case (Inl e)
    then show ?thesis using False p srv_consume_none [of "hw_mem c" "ctx_q c" e q]
      by (simp add: cu_fetch_def fetches_blank_def cu_drift_def cu_unanswered_def)
  next
    case (Inr a)
    then show ?thesis using False p srv_consume_ok [of "hw_mem c" "ctx_q c" a q]
      by (simp add: cu_fetch_def fetches_blank_def cu_drift_def cu_unanswered_def)
  qed
qed

lemma cu_watch_drift: "cu_watch env c = Some c' \<Longrightarrow> cu_drift c' = cu_drift c"
  by (auto simp: cu_watch_def Let_def cu_done_def cu_drift_def cu_unanswered_def answers_with_def
      split: if_splits dest!: complete_cmd_eq)

lemma cu_launch_keeps:
  "cu_launch c = (rc, c') \<Longrightarrow> ctx_q c' = ctx_q c \<and> ctx_xc c' = ctx_xc c \<and> rc \<noteq> Inl EBUSY"
  by (auto simp: cu_launch_def Let_def fw_cu_start_def cu_start_kv_def cu_init_kv_def
      split: if_splits prod.splits sum.splits)

lemma cmd_cleared [simp]: "\<not> cmd_is_valid (cmd\<lparr>cc_header0 := 0\<rparr>)"
  by (simp add: cmd_is_valid_def get_field_def)

lemma xgq_cu_process_drift:
  assumes "xgq_cu_process env c = Some (ret, c')"
  shows "cu_drift c' = cu_drift c + (if cu_rejects ret then 1 else 0) + (if fetches_blank c then 1 else 0)"
proof -
  obtain c1 where w: "cu_watch env (cu_fetch c) = Some c1"
    using assms by (auto simp: xgq_cu_process_def split: option.splits)
  have d: "cu_drift c1 = cu_drift c + (if fetches_blank c then 1 else 0)"
    using cu_watch_drift [OF w] cu_fetch_drift [of c] by simp
  show ?thesis
  proof (cases "\<not> cmd_is_valid (ctx_cmd c1) \<or> \<not> cu_has_status SCHED_AP_WAIT_FOR_INPUT (ctx_cu c1)")
    case True
    then show ?thesis using assms w d by (auto simp: xgq_cu_process_def cu_rejects_def)
  next
    case False
    obtain rc c2 where l: "cu_launch c1 = (rc, c2)" by fastforce
    have v: "cmd_is_valid (ctx_cmd c1)" using False by simp
    show ?thesis
    proof (cases rc)
      case (Inr u)
      then have "cu_drift c' = cu_drift c1" "ret = Inr ()"
        using assms w False l v cu_launch_keeps [OF l]
        by (auto simp: xgq_cu_process_def cu_drift_def cu_unanswered_def cu_release_def)
      with d show ?thesis by (simp add: cu_rejects_def)
    next
      case (Inl e)
      then obtain c4 where c4: "xgq_cu_complete_cmd env (Some e) (cu_release c2) = Some c4"
        "ret = Inl e" "c' = c4"
        using assms w False l by (auto simp: xgq_cu_process_def split: option.splits)
      have "cu_drift c' = cu_drift c1 + 1"
        using complete_cmd_eq [OF c4(1)] c4(3) v cu_launch_keeps [OF l]
        by (auto simp: cu_drift_def cu_unanswered_def cu_release_def answers_with_def)
      moreover have "e \<noteq> EBUSY" using cu_launch_keeps [OF l] Inl by simp
      ultimately show ?thesis using d c4(2) by (simp add: cu_rejects_def)
    qed
  qed
qed

lemma cu_run_drift:
  "cu_run env c0 r d c \<Longrightarrow> cu_drift c = cu_drift c0 + of_nat r + of_nat d"
proof (induction rule: cu_run.induct)
  case start
  show ?case by simp
next
  case (outside r d c m)
  then show ?case by (simp add: cu_drift_def cu_unanswered_def)
next
  case (call r d c ret c')
  then show ?case using xgq_cu_process_drift [OF call.hyps(2)] by simp
qed

text \<open>
  C13. Whatever the host and the compute unit do, \<open>xc_cmd_running\<close> is the number of commands taken
  from the queue and not answered yet, less the number of commands the handler has rejected and
  of entries it took without the new-entry flag: a rejected command is answered and decrements a
  counter it never incremented. Without such commands the counter is exact.
\<close>

theorem cu_running_counts:
  assumes "cu_run env c0 r d c" and "cu_drift c0 = 0"
  shows "xc_cmd_running (ctx_xc c) = cu_unanswered c - of_nat (r + d)"
  using cu_run_drift [OF assms(1)] assms(2) unfolding cu_drift_def by (simp add: algebra_simps)

lemma cu_idle_poll:
  assumes "xc_cmd_running (ctx_xc c) = 0" and "\<not> cmd_is_valid (ctx_cmd c)"
    and "xr_produced (xq_sq (ctx_q c)) = xr_consumed (xq_sq (ctx_q c))"
    and "hw_mem c (xr_produced_addr (xq_sq (ctx_q c))) = xr_consumed (xq_sq (ctx_q c))"
  shows "xgq_cu_process env c = Some (Inl EBUSY, c)"
proof -
  have "cu_fetch c = c" using assms srv_consume_empty [of "ctx_q c" "hw_mem c"] by (simp add: cu_fetch_def)
  then show ?thesis using assms by (simp add: xgq_cu_process_def cu_watch_def)
qed

lemma cu_polls_idle:
  assumes "xc_cmd_running (ctx_xc c) = 0" and "\<not> cmd_is_valid (ctx_cmd c)"
    and "xr_produced (xq_sq (ctx_q c)) = xr_consumed (xq_sq (ctx_q c))"
    and "\<forall>m\<in>set ms. m (xr_produced_addr (xq_sq (ctx_q c))) = xr_consumed (xq_sq (ctx_q c))"
  shows "\<exists>m. cu_polls env ms c = Some (c\<lparr>hw_mem := m\<rparr>)"
  using assms
proof (induction ms arbitrary: c)
  case Nil
  show ?case by (auto intro: exI [of _ "hw_mem c"])
next
  case (Cons m ms)
  have "xgq_cu_process env (c\<lparr>hw_mem := m\<rparr>) = Some (Inl EBUSY, c\<lparr>hw_mem := m\<rparr>)"
    using Cons.prems by (intro cu_idle_poll) auto
  then show ?case using Cons.IH [of "c\<lparr>hw_mem := m\<rparr>"] Cons.prems by auto
qed
text \<open>
  C15. One rejected command hides the completion of the next one. In a run with one rejected
  command, when one command is running and the queue is empty, the counter is 0 and the handler
  no longer looks at the compute unit: however often it is called and whatever the unit's status
  register shows, nothing but the memory changes, so no response is produced, until the host
  submits another command.
\<close>

theorem rejected_command_hides_completion:
  assumes "cu_run env c0 1 0 c" and "cu_drift c0 = 0"
    and "cu_unanswered c = 1" and "\<not> cmd_is_valid (ctx_cmd c)"
    and "xr_produced (xq_sq (ctx_q c)) = xr_consumed (xq_sq (ctx_q c))"
    and "\<forall>m\<in>set ms. m (xr_produced_addr (xq_sq (ctx_q c))) = xr_consumed (xq_sq (ctx_q c))"
  shows "\<exists>m. cu_polls env ms c = Some (c\<lparr>hw_mem := m\<rparr>)"
proof (rule cu_polls_idle)
  show "xc_cmd_running (ctx_xc c) = 0"
    using cu_run_drift [OF assms(1)] assms(2,3) by (simp add: cu_drift_def)
qed (use assms in auto)

section \<open>Waiting for room in the completion ring\<close>

primrec env_mem :: "fw_env \<Rightarrow> nat \<Rightarrow> mem \<Rightarrow> nat \<Rightarrow> mem" where
  "env_mem env t m 0 = m"
| "env_mem env t m (Suc n) = env_mem env (Suc t) (env t m) n"

definition cq_room :: "mem \<Rightarrow> xgq \<Rightarrow> bool" where
  "cq_room m q = (\<not> xgq_ring_full ((xq_cq q)\<lparr>xr_consumed := m (xr_consumed_addr (xq_cq q))\<rparr>))"

lemma xgq_produce_cases:
  obtains a q' where "xgq_produce True m q = (Inr a, q')" "\<not> xgq_ring_full (xq_cq q) \<or> cq_room m q"
  | q' where "xgq_produce True m q = (Inl ENOSPC, q')" "xgq_ring_full (xq_cq q)" "\<not> cq_room m q"
    "xgq_ring_full (xq_cq q')" "\<And>m'. cq_room m' q' = cq_room m' q"
  by (cases "xgq_ring_full (xq_cq q)"; cases "cq_room m q")
    (auto simp: xgq_produce_def xgq_can_produce_def Let_def xgq_io_defs cq_room_def xgq_ring_full_def)

lemma produce_wait_if_room:
  "cq_room (env_mem env t m n) q \<Longrightarrow> \<exists>y. xgq_produce_wait env t m q = Some y"
proof (induction n arbitrary: t m q)
  case 0
  then show ?case by (cases rule: xgq_produce_cases [of m q]) (simp_all add: xgq_produce_wait.simps)
next
  case (Suc n)
  show ?case
  proof (cases rule: xgq_produce_cases [of m q])
    case (1 a q')
    then show ?thesis by (simp add: xgq_produce_wait.simps)
  next
    case (2 q')
    have "cq_room (env_mem env (Suc t) (env t m) n) q'" using Suc.prems 2(5) by simp
    from Suc.IH [OF this] show ?thesis by (subst xgq_produce_wait.simps) (simp add: 2(1))
  qed
qed

lemma produce_wait_only_if_room:
  assumes "xgq_produce_wait env t m q = Some y"
  shows "xgq_ring_full (xq_cq q) \<longrightarrow> (\<exists>n. cq_room (env_mem env t m n) q)"
proof (induction rule: xgq_produce_wait.raw_induct [OF _ assms, rotated])
  case (1 f env t m q y)
  show ?case
  proof (cases rule: xgq_produce_cases [of m q])
    case (1 a q')
    then show ?thesis by (auto intro: exI [of _ 0])
  next
    case (2 q')
    then have "f env (Suc t) (env t m) q' = Some y" using 1(2) by simp
    from 1(1) [OF this] show ?thesis using 2 by (auto intro: exI [of _ "Suc n" for n])
  qed
qed

text \<open>
  C21. The firmware waits for room in the completion ring forever exactly when the ring is full in
  its own view and the host never shows a consumer position that makes room.
\<close>

theorem produce_wait_ends:
  "xgq_produce_wait env t m q = None \<longleftrightarrow>
    xgq_ring_full (xq_cq q) \<and> (\<forall>n. \<not> cq_room (env_mem env t m n) q)"
proof (cases "xgq_ring_full (xq_cq q)")
  case True
  then show ?thesis using produce_wait_if_room produce_wait_only_if_room by (metis not_None_eq)
next
  case False
  then have "\<exists>y. xgq_produce_wait env t m q = Some y"
    by (cases rule: xgq_produce_cases [of m q]) (simp_all add: xgq_produce_wait.simps)
  with False show ?thesis by auto
qed

section \<open>Copying the arguments\<close>

text \<open>The address of the \<open>j\<close>-th word behind \<open>a\<close>, as the firmware's accesses cut it.\<close>

definition word_at :: "u64 \<Rightarrow> nat \<Rightarrow> u64" where
  "word_at a j = reg_addr (a + of_nat (4 * j))"

lemma ucast_add_u64: "ucast (a + b :: u64) = (ucast a + ucast b :: u32)"
  by (cases a rule: word_nat_cases, cases b rule: word_nat_cases)
    (metis of_nat_add ucast_u64_of_nat)

lemma word_at_eq: "word_at a j = ucast (ucast a + of_nat (4 * j) :: u32)"
  by (simp only: word_at_def reg_addr_def ucast_add_u64 ucast_u64_of_nat)

lemma word_at_inj:
  assumes "i < 2 ^ 30" and "j < 2 ^ 30"
  shows "(word_at a i = word_at a j) = (i = j)"
proof -
  have "(word_at a i = word_at a j) = (ucast a + of_nat (4 * i) = (ucast a + of_nat (4 * j) :: u32))"
    unfolding word_at_eq by (metis ucast_down_up)
  then show ?thesis using of_nat_word_eq_iff [where 'a = 32, of "4 * i" "4 * j"] assms by simp
qed

lemma loop_addr: "i < 2 ^ 30 \<Longrightarrow> reg_addr (a + ucast (of_nat (4 * i) :: u32)) = word_at a i"
  unfolding word_at_def unsigned_of_nat by (subst take_bit_nat_eq_self) simp_all

lemma copy_args_step:
  assumes "i < 2 ^ 30"
  shows "copy_args (Suc n) dst src (of_nat (4 * i)) m =
    copy_args n dst src (of_nat (4 * Suc i)) (m(word_at dst i := m (word_at src i)))"
proof -
  have "(of_nat (4 * i) + 4 :: u32) = of_nat (4 * Suc i)" by simp
  then show ?thesis by (simp only: copy_args.simps reg_write_def reg_read_def loop_addr [OF assms])
qed

lemma copy_args_outside:
  "i + n \<le> 2 ^ 30 \<Longrightarrow> \<forall>k. i \<le> k \<and> k < i + n \<longrightarrow> x \<noteq> word_at dst k \<Longrightarrow>
    copy_args n dst src (of_nat (4 * i)) m x = m x"
proof (induction n arbitrary: i m)
  case 0
  show ?case by simp
next
  case (Suc n)
  then have "copy_args n dst src (of_nat (4 * Suc i)) (m(word_at dst i := m (word_at src i))) x = m x"
    by (subst Suc.IH) auto
  then show ?case using Suc.prems(1) by (simp only: copy_args_step)
qed

lemma copy_args_copies:
  "i + n \<le> 2 ^ 30 \<Longrightarrow>
    \<forall>j k. i \<le> j \<and> j < i + n \<and> i \<le> k \<and> k < i + n \<longrightarrow> word_at src j \<noteq> word_at dst k \<Longrightarrow>
    i \<le> k \<and> k < i + n \<Longrightarrow> copy_args n dst src (of_nat (4 * i)) m (word_at dst k) = m (word_at src k)"
proof (induction n arbitrary: i m)
  case 0
  then show ?case by auto
next
  case (Suc n)
  let ?m = "m(word_at dst i := m (word_at src i))"
  have step: "copy_args (Suc n) dst src (of_nat (4 * i)) m = copy_args n dst src (of_nat (4 * Suc i)) ?m"
    using Suc.prems(1) by (intro copy_args_step) simp
  show ?case
  proof (cases "k = i")
    case True
    have "copy_args n dst src (of_nat (4 * Suc i)) ?m (word_at dst i) = ?m (word_at dst i)"
      using Suc.prems(1) word_at_inj by (intro copy_args_outside) auto
    then show ?thesis using True step by simp
  next
    case False
    have "copy_args n dst src (of_nat (4 * Suc i)) ?m (word_at dst k) = ?m (word_at src k)"
    proof (rule Suc.IH)
      show "Suc i \<le> k \<and> k < Suc i + n" using Suc.prems(3) False by simp
    qed (use Suc.prems(1,2) in auto)
    moreover have "word_at src k \<noteq> word_at dst i" using Suc.prems by auto
    ultimately show ?thesis using step by simp
  qed
qed

lemma fw_cu_start_ok:
  assumes "unat (cmd_payload_size cmd) = 4 * n"
    and "\<forall>j k. j < n \<and> k < n + 4 \<longrightarrow> word_at (cc_addr cmd + 8) j \<noteq> word_at (cu_addr cu) k"
  shows "\<exists>m'. fw_cu_start m cmd cu =
      (Inr (), cu_clear_status SCHED_AP_WAIT_FOR_INPUT (cu_set_status SCHED_AP_START cu), m')
    \<and> m' (word_at (cu_addr cu) 0) = SCHED_AP_START
    \<and> (\<forall>k < n. m' (word_at (cu_addr cu) (k + 4)) = m (word_at (cc_addr cmd + 8) k))"
proof -
  let ?src = "cc_addr cmd + 8" and ?dst = "cu_addr cu + 16"
  have "unat (cmd_payload_size cmd) < 2 ^ 15"
    unfolding cmd_payload_size_def by (rule unat_get_field_less)
  then have n: "n < 2 ^ 13" using assms(1) by simp
  have off: "word_at ?dst k = word_at (cu_addr cu) (k + 4)" for k
    by (simp add: word_at_def algebra_simps)
  let ?m = "copy_args n ?dst ?src 0 m"
  have copied: "?m (word_at ?dst k) = m (word_at ?src k)" if "k < n" for k
    using copy_args_copies [of 0 n ?src ?dst k m] that assms(2) n off by auto
  have "cmd_payload_size cmd AND 3 = 0"
    using unat_and_pow2_minus_1 [of 2 "cmd_payload_size cmd"] assms(1) by (simp add: unat_eq_0)
  moreover have "reg_addr (cu_addr cu) = word_at (cu_addr cu) 0" by (simp add: word_at_def)
  moreover have "word_at (cu_addr cu) (k + 4) \<noteq> word_at (cu_addr cu) 0" if "k < n" for k
    using word_at_inj [of "k + 4" 0] that n by simp
  ultimately show ?thesis using copied off assms(1)
    by (auto simp: fw_cu_start_def cmd_args_def reg_write_def)
qed

text \<open>
  C12. From the packet to the registers: for every valid \<open>ERT_START_CU\<close> packet, the entry the driver
  makes of it (\<open>xgq_exec_convert_start_cu_cmd\<close>), once it is in a slot that does not overlap the
  unit's registers, makes the firmware write word \<open>k\<close> of the packet's register map into the CU's
  register at byte offset \<open>4 * k\<close>, for every word behind the four control words, and then
  \<open>AP_START\<close> into the control register.
\<close>

theorem start_cu_reaches_registers:
  assumes "ert_valid_opcode p" and "pkt_opcode p = ERT_START_CU" and "length buf = n_count p"
    and "xgq_exec_convert_start_cu_cmd buf p = Inr (b, sz)"
    and "\<forall>j < length b. m (word_at a j) = b ! j"
    and "\<forall>j k. j < n_count p \<and> k < n_count p \<longrightarrow> word_at (a + 8) j \<noteq> word_at (cu_addr cu) k"
    and "cmd = cmd_load_header m (cmd_set_addr a cmd0)"
  shows "\<exists>m'. cmd_is_valid cmd \<and> cmd_op_code cmd = XGQ_CMD_OP_START_CUIDX
    \<and> fw_cu_start m cmd cu =
        (Inr (), cu_clear_status SCHED_AP_WAIT_FOR_INPUT (cu_set_status SCHED_AP_START cu), m')
    \<and> m' (word_at (cu_addr cu) 0) = SCHED_AP_START
    \<and> (\<forall>k. 4 \<le> k \<and> k < n_count p - (1 + n_extra p) \<longrightarrow>
         m' (word_at (cu_addr cu) k) = p (2 + n_extra p + k))"
proof -
  define n where "n = n_count p - (5 + n_extra p)"
  have entry: "length b = n_count p" "get_field 0 16 (b ! 0) = XGQ_CMD_OP_START_CUIDX"
    "unat (get_field 16 15 (b ! 0)) = 4 * n" "get_field 31 1 (b ! 0) = 1"
    "take n (drop 2 b) = words_from p (6 + n_extra p) n"
    using convert_start_cu_entry [OF assms(1-3)] assms(3,4) unfolding n_def by auto
  have le: "5 + n_extra p \<le> n_count p" using assms(1,2) by (simp add: ert_valid_opcode_def Let_def)
  have a0: "reg_addr a = word_at a 0" by (simp add: word_at_def)
  have hdr: "cc_header0 cmd = b ! 0" "cc_addr cmd = a"
    using assms(5) entry(1) le unfolding assms(7)
    by (simp_all add: cmd_load_header_def cmd_set_addr_def reg_read_def a0)
  have w: "m (word_at (a + 8) k) = p (6 + n_extra p + k)" if "k < n" for k
  proof -
    have "word_at (a + 8) k = word_at a (2 + k)" by (simp add: word_at_def algebra_simps)
    then have "m (word_at (a + 8) k) = b ! (2 + k)" using assms(5) entry(1) that unfolding n_def by simp
    also have "\<dots> = take n (drop 2 b) ! k" using that entry(1) unfolding n_def by simp
    also have "\<dots> = p (6 + n_extra p + k)" unfolding entry(5) using that by (simp add: words_from_def)
    finally show ?thesis .
  qed
  have "unat (cmd_payload_size cmd) = 4 * n" using hdr entry(3) by (simp add: cmd_payload_size_def)
  moreover have "\<forall>j k. j < n \<and> k < n + 4 \<longrightarrow> word_at (cc_addr cmd + 8) j \<noteq> word_at (cu_addr cu) k"
  proof (intro allI impI)
    fix j k assume "j < n \<and> k < n + 4"
    then have "j < n_count p" "k < n_count p" using le unfolding n_def by auto
    then show "word_at (cc_addr cmd + 8) j \<noteq> word_at (cu_addr cu) k" using assms(6) hdr(2) by simp
  qed
  ultimately obtain m' where m': "fw_cu_start m cmd cu =
      (Inr (), cu_clear_status SCHED_AP_WAIT_FOR_INPUT (cu_set_status SCHED_AP_START cu), m')"
    "m' (word_at (cu_addr cu) 0) = SCHED_AP_START"
    "\<forall>k < n. m' (word_at (cu_addr cu) (k + 4)) = m (word_at (a + 8) k)"
    using fw_cu_start_ok [of cmd n cu m] hdr(2) by blast
  have "m' (word_at (cu_addr cu) k) = p (2 + n_extra p + k)"
    if "4 \<le> k" "k < n_count p - (1 + n_extra p)" for k
  proof -
    have k: "k - 4 < n" "k - 4 + 4 = k" "6 + n_extra p + (k - 4) = 2 + n_extra p + k"
      using that unfolding n_def by auto
    show ?thesis using m'(3) [rule_format, OF k(1)] w [OF k(1)] unfolding k(2,3) by simp
  qed
  then show ?thesis using m' hdr entry(2,4) by (auto simp: cmd_is_valid_def cmd_op_code_def)
qed

section \<open>A finished command is answered\<close>

lemma produce_wait_with_room:
  assumes "\<not> xgq_ring_full (xq_cq q)"
  shows "\<exists>a. xgq_produce_wait env t m q =
    Some (a, t, m, q\<lparr>xq_cq := (xq_cq q)\<lparr>xr_produced := xr_produced (xq_cq q) + 1\<rparr>\<rparr>)"
  using assms by (simp add: xgq_produce_wait.simps xgq_produce_def xgq_can_produce_def Let_def)

text \<open>The completion ring has room for \<open>n\<close> more entries in the firmware's view.\<close>

definition cq_space :: "nat \<Rightarrow> xgq \<Rightarrow> bool" where
  "cq_space n q = (unat (xr_produced (xq_cq q) - xr_consumed (xq_cq q)) + n \<le> unat (xr_slot_num (xq_cq q)))"

lemma cq_space_not_full: "cq_space (Suc n) q \<Longrightarrow> \<not> xgq_ring_full (xq_cq q)"
  by (simp add: cq_space_def xgq_ring_full_def word_le_nat_alt)

lemma cq_space_next:
  assumes "cq_space (Suc n) q"
  shows "cq_space n (q\<lparr>xq_cq := (xq_cq q)\<lparr>xr_produced := xr_produced (xq_cq q) + 1\<rparr>\<rparr>)"
proof -
  let ?d = "xr_produced (xq_cq q) - xr_consumed (xq_cq q)"
  have "unat (?d + 1) = (unat ?d + 1) mod 2 ^ 32" by (simp add: unat_word_ariths)
  then have "unat (?d + 1) \<le> unat ?d + 1" by (metis mod_less_eq_dividend)
  then show ?thesis using assms by (simp add: cq_space_def algebra_simps)
qed

lemma complete_cmd_with_space:
  assumes "cq_space (Suc n) (ctx_q c)"
  shows "\<exists>c'. xgq_cu_complete_cmd env err c = Some c' \<and> cq_space n (ctx_q c')
    \<and> xr_produced (xq_cq (ctx_q c')) = xr_produced (xq_cq (ctx_q c)) + 1
    \<and> ctx_cmd c' = ctx_cmd c \<and> ctx_cu c' = ctx_cu c"
proof -
  let ?q = "(ctx_q c)\<lparr>xq_cq := (xq_cq (ctx_q c))\<lparr>xr_produced := xr_produced (xq_cq (ctx_q c)) + 1\<rparr>\<rparr>"
  obtain a where "xgq_produce_wait env (hw_time c) (hw_mem c) (ctx_q c) = Some (a, hw_time c, hw_mem c, ?q)"
    using produce_wait_with_room [OF cq_space_not_full [OF assms]] by blast
  then show ?thesis using cq_space_next [OF assms] by (simp add: xgq_cu_complete_cmd_def Let_def)
qed

lemma cu_fetch_keeps:
  "xc_cmd_running (ctx_xc (cu_fetch c)) = xc_cmd_running (ctx_xc c) \<and> ctx_cu (cu_fetch c) = ctx_cu c
    \<and> hw_mem (cu_fetch c) = hw_mem c \<and> xq_cq (ctx_q (cu_fetch c)) = xq_cq (ctx_q c)"
proof -
  obtain r q where p: "xgq_consume True (hw_mem c) (ctx_q c) = (r, q)" by fastforce
  show ?thesis using p srv_consume_none [of "hw_mem c" "ctx_q c" _ q] srv_consume_ok [of "hw_mem c" "ctx_q c" _ q]
    by (cases r) (auto simp: cu_fetch_def)
qed

lemma cu_load_status_done:
  "reg_read m (cu_addr cu) AND SCHED_AP_DONE \<noteq> 0 \<Longrightarrow> cu_has_status SCHED_AP_DONE (cu_load_status m cu)"
proof -
  assume "reg_read m (cu_addr cu) AND SCHED_AP_DONE \<noteq> 0"
  moreover have "(x OR y) AND z = 0 \<longleftrightarrow> x AND z = 0 \<and> y AND z = 0" for x y z :: u32
    by (simp add: bit.conj_disj_distrib2 or_eq_0_iff)
  ultimately show ?thesis by (simp add: cu_load_status_def cu_has_status_def cu_set_status_def Let_def)
qed

section \<open>A queue of two commands\<close>

text \<open>
  A queue of four slots of 16 bytes, in which the host has put a command with an unknown opcode and
  then a start command without arguments. The unit is at address 0 and does not answer.
\<close>

definition demo_cu_ctx :: cu_ctx where
  "demo_cu_ctx = \<lparr>hw_time = 0, hw_mem = (\<lambda>_. 0),
     ctx_xc = \<lparr>xc_q = Some 0, xc_cu = Some 0,
       xc_cmd = \<lparr>cc_addr = 0, cached = 0, cc_header0 = 0, cc_header1 = 0\<rparr>,
       xc_cmd_running = 0, xc_offset = 0x800, xc_xgq_id = 0, xc_csr_reg = 0x180000\<rparr>,
     ctx_q = fst (xgq_init (\<lambda>_. 0) 6 0 0x190800 4 16 0 0),
     ctx_cu = \<lparr>cu_addr = 0, cu_status = SCHED_AP_IDLE\<rparr>\<rparr>"

definition demo_cu_mem :: mem where
  "demo_cu_mem a = (if a = 0x190824 then 2 else if a = 0x19082C then 0x80000999
     else if a = 0x19083C then 0x80000100 else 0)"

definition demo_call :: "cu_ctx \<Rightarrow> cu_ctx" where
  "demo_call c = (case xgq_cu_process (\<lambda>_ m. m) c of Some (ret, c') \<Rightarrow> c' | None \<Rightarrow> c)"

definition demo_rejected :: cu_ctx where
  "demo_rejected = demo_call (demo_cu_ctx\<lparr>hw_mem := demo_cu_mem\<rparr>)"

definition demo_started :: cu_ctx where
  "demo_started = demo_call demo_rejected"

lemma demo_call_eq:
  "map_option fst (xgq_cu_process (\<lambda>_ m. m) c) = Some ret \<Longrightarrow>
    xgq_cu_process (\<lambda>_ m. m) c = Some (ret, demo_call c)"
  by (auto simp: demo_call_def)

lemma demo_cu_run: "cu_run (\<lambda>_ m. m) demo_cu_ctx 1 0 demo_started"
proof -
  have 1: "map_option fst (xgq_cu_process (\<lambda>_ m. m) (demo_cu_ctx\<lparr>hw_mem := demo_cu_mem\<rparr>)) = Some (Inl ENOTTY)"
    by code_simp
  have b1: "\<not> fetches_blank (demo_cu_ctx\<lparr>hw_mem := demo_cu_mem\<rparr>)" by code_simp
  have 2: "map_option fst (xgq_cu_process (\<lambda>_ m. m) demo_rejected) = Some (Inr ())" by code_simp
  have b2: "\<not> fetches_blank demo_rejected" by code_simp
  have "cu_run (\<lambda>_ m. m) demo_cu_ctx 0 0 (demo_cu_ctx\<lparr>hw_mem := demo_cu_mem\<rparr>)"
    by (intro cu_run.outside cu_run.start)
  from cu_run.call [OF this demo_call_eq [OF 1]] b1
  have "cu_run (\<lambda>_ m. m) demo_cu_ctx 1 0 demo_rejected" by (simp add: demo_rejected_def cu_rejects_def)
  from cu_run.call [OF this demo_call_eq [OF 2]] b2
  show ?thesis by (simp add: demo_started_def cu_rejects_def)
qed

lemma demo_started_state:
  "cu_drift demo_cu_ctx = 0" "cu_unanswered demo_started = 1" "\<not> cmd_is_valid (ctx_cmd demo_started)"
  "xr_produced (xq_sq (ctx_q demo_started)) = 2" "xr_consumed (xq_sq (ctx_q demo_started)) = 2"
  "xr_produced_addr (xq_sq (ctx_q demo_started)) = 0x190824" "cq_space 2 (ctx_q demo_started)"
  by code_simp+

theorem cu_running_counts_witness:
  "cu_run (\<lambda>_ m. m) demo_cu_ctx 1 0 demo_started \<and> cu_drift demo_cu_ctx = 0
    \<and> xc_cmd_running (ctx_xc demo_started) = cu_unanswered demo_started - of_nat (1 + 0)"
  using cu_running_counts [OF demo_cu_run demo_started_state(1)] demo_cu_run demo_started_state(1) by blast

theorem rejected_command_hides_completion_witness:
  "\<exists>m. cu_polls (\<lambda>_ m. m) [\<lambda>a. if a = 0x190824 then 2 else SCHED_AP_DONE] demo_started
     = Some (demo_started\<lparr>hw_mem := m\<rparr>)"
  by (rule rejected_command_hides_completion [OF demo_cu_run demo_started_state(1-3)])
    (simp_all add: demo_started_state)


theorem start_cu_reaches_registers_witness:
  "\<exists>m'. fw_cu_start (\<lambda>a. if a = 0x190800 then 0x80040100 else if a = 0x190808 then 6 else 0)
      \<lparr>cc_addr = 0x190800, cached = 0, cc_header0 = 0x80040100, cc_header1 = 0\<rparr> \<lparr>cu_addr = 0, cu_status = 4\<rparr>
      = (Inr (), \<lparr>cu_addr = 0, cu_status = 1\<rparr>, m')
    \<and> m' (word_at 0 0) = 1 \<and> m' (word_at 0 4) = 6"
proof -
  let ?p = "(\<lambda>i. if i = 0 then 0x6001 else of_nat i) :: execbuf"
  let ?m = "(\<lambda>a. if a = 0x190800 then 0x80040100 else if a = 0x190808 then 6 else 0) :: mem"
  let ?cmd0 = "\<lparr>cc_addr = 0, cached = 0, cc_header0 = 0, cc_header1 = 0\<rparr>"
  have p: "pkt_opcode ?p = 0" "n_count ?p = 6" "n_extra ?p = 0"
    by (simp_all add: pkt_field_defs get_field_def drop_bit_eq_div take_bit_eq_mod)
  have b: "xgq_exec_convert_start_cu_cmd (replicate 6 0) ?p = Inr ([0x80040100, 0, 6, 0, 0, 0], 12)"
    by code_simp
  have m: "\<forall>j < length [0x80040100, 0, 6, 0, 0, 0 :: u32]. ?m (word_at 0x190800 j) = [0x80040100, 0, 6, 0, 0, 0] ! j"
    by code_simp
  have "word_at (0x190800 + 8) j = word_at 0 (410114 + j)" for j by (simp add: word_at_def)
  then have disj: "\<forall>j k. j < n_count ?p \<and> k < n_count ?p \<longrightarrow> word_at (0x190800 + 8) j \<noteq> word_at 0 k"
    using word_at_inj [of "410114 + j" k 0 for j k] unfolding p(2) by simp
  have cmd: "\<lparr>cc_addr = 0x190800, cached = 0, cc_header0 = 0x80040100, cc_header1 = 0\<rparr> =
      cmd_load_header ?m (cmd_set_addr 0x190800 ?cmd0)"
    by (simp add: cmd_load_header_def cmd_set_addr_def reg_read_def reg_addr_def)
  have cu: "cu_clear_status 12 (cu_set_status 1 \<lparr>cu_addr = 0, cu_status = 4\<rparr>) = \<lparr>cu_addr = 0, cu_status = 1\<rparr>"
    by (simp add: cu_clear_status_def cu_set_status_def)
  have "ert_valid_opcode ?p" using p by (simp add: ert_valid_opcode_def)
  from start_cu_reaches_registers [OF this _ _ b m _ cmd, of "\<lparr>cu_addr = 0, cu_status = 4\<rparr>"] disj p
  show ?thesis unfolding cu by auto
qed

end
