(* ===== verification/Ert_Sched.thy ===== *)
theory Ert_Sched
  imports Ert_Cu
begin

text \<open>
  The embedded scheduler itself (\<open>ert/scheduler/sched.c\<close>) and its control queue (\<open>xgq_ctrl.c\<close>):
  the configuration commands, the queues they set up and the scheduler loop over the control queue
  and the queues of the compute units. The file-level variables are the record \<open>ert\<close>; the arrays
  are lists of their declared lengths, and an access outside is the error \<open>FAULT\<close>. The addresses
  are those of the build without \<open>ERT_BUILD_U50\<close>, \<open>ERT_BUILD_V20\<close> and \<open>ERT_BUILD_V30\<close>.
  \<open>fw_tick\<close> is the passing of time: the host, the compute units and the clock write to the address
  space as \<open>env\<close> says. A wait that never ends is \<open>None\<close>. \<open>BRAM_COLLISION_WORKAROUND\<close>, which the
  firmware's platform header switches on, sets \<open>XGQ_DOUBLE_READ\<close> in every queue the firmware sets up.
\<close>

section \<open>State\<close>

record cu_info =
  ci_cu_idx :: u32
  ci_ip_ctrl :: u32
  ci_slot_size :: u32

record ert =
  e_time :: nat
  e_mem :: mem
  num_cus :: u32
  ctrl_queue_size :: u32
  ctrl_scratch_offset :: u32
  xgq_admin :: xgq
  ctrl_cmd :: sched_cmd
  xgqs :: "xgq list"
  cu_xgqs :: "xgq_cu list"
  cu_slot_sizes :: "u32 list"
  sched_cus :: "sched_cu list"
  i2h :: u32
  i2e :: u32
  cui :: u32
  dmsg :: u32
  echo :: u32
  cmd_queue_mode :: u32
  scratch_mode :: u32
  flatten_queue :: u32
  cfg_complete :: u32
  cmd_queue_slot_size :: u32
  cu_cfg :: "cu_info list"
  status_register_addr :: "u32 list"

abbreviation (input) ERT_CQ_BASE_ADDR :: u64 where "ERT_CQ_BASE_ADDR \<equiv> 0x190000"
abbreviation (input) ERT_CQ_SIZE :: u64 where "ERT_CQ_SIZE \<equiv> 0x10000"
abbreviation (input) ERT_CSR_ADDR :: u64 where "ERT_CSR_ADDR \<equiv> 0x180000"
abbreviation (input) ERT_HOST_INTERRUPT_ENABLE_ADDR :: u64 where
  "ERT_HOST_INTERRUPT_ENABLE_ADDR \<equiv> 0x180100"
abbreviation (input) ERT_CLK_COUNTER_ADDR :: u64 where "ERT_CLK_COUNTER_ADDR \<equiv> 0"
abbreviation (input) ERT_INTC_IPR_ADDR :: u64 where "ERT_INTC_IPR_ADDR \<equiv> 0x41200004"
abbreviation (input) ERT_INTC_IAR_ADDR :: u64 where "ERT_INTC_IAR_ADDR \<equiv> 0x4120000C"
abbreviation (input) ctrl_queue_offset :: u64 where "ctrl_queue_offset \<equiv> 4"
abbreviation (input) user_queue_offset :: u64 where "user_queue_offset \<equiv> 0x800"
abbreviation (input) CTRL_XGQ_SPACE :: u32 where "CTRL_XGQ_SPACE \<equiv> 0x800"
abbreviation (input) CTRL_XGQ_SLOT_SIZE :: u32 where "CTRL_XGQ_SLOT_SIZE \<equiv> 512"
abbreviation (input) MAX_XGQ_CU :: u32 where "MAX_XGQ_CU \<equiv> 32"
abbreviation (input) FW_MAX_CUS :: u32 where "FW_MAX_CUS \<equiv> 128"
abbreviation (input) MAX_SLOTS :: u32 where "MAX_SLOTS \<equiv> 128"
abbreviation (input) ERT_VER :: u32 where "ERT_VER \<equiv> 0x10000"

definition XGQ_CU_IDX :: "u32 \<Rightarrow> u32" where
  "XGQ_CU_IDX features = features AND mask 12"

definition XGQ_IP_CTRL :: "u32 \<Rightarrow> u32" where
  "XGQ_IP_CTRL features = drop_bit 16 (features AND mask 8)"

definition XGQ_NUM_CUS :: "u32 \<Rightarrow> u32" where
  "XGQ_NUM_CUS features = features AND mask 13"

definition feature :: "nat \<Rightarrow> u32 \<Rightarrow> u32" where
  "feature n features = of_bool (features AND push_bit n 1 \<noteq> 0)"

definition XGQ_OFFSET :: "xgq \<Rightarrow> u32" where
  "XGQ_OFFSET q = ucast (xq_header_addr q - ERT_CQ_BASE_ADDR)"

definition fw_tick :: "fw_env \<Rightarrow> ert \<Rightarrow> ert" where
  "fw_tick env s = s\<lparr>e_mem := env (e_time s) (e_mem s), e_time := Suc (e_time s)\<rparr>"

definition read_reg :: "u64 \<Rightarrow> ert \<Rightarrow> u32" where
  "read_reg addr s = reg_read (e_mem s) addr"

definition write_reg :: "u64 \<Rightarrow> u32 \<Rightarrow> ert \<Rightarrow> ert" where
  "write_reg addr val s = s\<lparr>e_mem := reg_write (e_mem s) addr val\<rparr>"

definition read_clk_counter :: "fw_env \<Rightarrow> ert \<Rightarrow> u32 \<times> ert" where
  "read_clk_counter env s = (let s' = fw_tick env s in (read_reg ERT_CLK_COUNTER_ADDR s', s'))"

definition rw_count_addr :: "u64 \<Rightarrow> u64" where
  "rw_count_addr slot_addr = slot_addr + 8"

definition draft_addr :: "u64 \<Rightarrow> u64" where
  "draft_addr slot_addr = slot_addr + 12"

text \<open>The error numbers the firmware puts into a response, as the two's complement of \<open>errno\<close>.\<close>

definition rcode :: "unit res \<Rightarrow> u32" where
  "rcode ret = (case ret of Inr _ \<Rightarrow> 0 | Inl e \<Rightarrow> if e = E2BIG then - 7 else if e = EINVAL then - 22 else 0)"

section \<open>The control queue (xgq\_ctrl.c)\<close>

definition xgq_ctrl_init :: "xgq \<Rightarrow> ert \<Rightarrow> ert" where
  "xgq_ctrl_init q s =
     s\<lparr>xgq_admin := q, ctrl_cmd := (cmd_set_addr 0 (ctrl_cmd s))\<lparr>cc_header0 := 0\<rparr>\<rparr>"

primrec write_words :: "u32 list \<Rightarrow> u64 \<Rightarrow> mem \<Rightarrow> mem" where
  "write_words [] addr m = m"
| "write_words (w # ws) addr m = write_words ws (addr + 4) (reg_write m addr w)"

definition xgq_ctrl_response :: "fw_env \<Rightarrow> u32 list \<Rightarrow> ert \<Rightarrow> ert option" where
  "xgq_ctrl_response env resp s =
     (let cmd = (ctrl_cmd s)\<lparr>cc_header0 := 0\<rparr>;
          m1 = xgq_notify_peer_consumed True (e_mem s) (xgq_admin s)
      in case xgq_produce_wait env (e_time s) m1 (xgq_admin s) of
           None \<Rightarrow> None
         | Some (slot_addr, t, m2, q) \<Rightarrow>
             let m3 = write_words resp slot_addr m2;
                 m4 = xgq_notify_peer_produced True m3 q
             in Some (s\<lparr>e_time := t, e_mem := m4, xgq_admin := q, ctrl_cmd := cmd\<rparr>))"

text \<open>Whether there is a command, and the state that holds it in \<open>ctrl_cmd\<close>.\<close>

definition xgq_ctrl_get_cmd :: "ert \<Rightarrow> bool \<times> ert" where
  "xgq_ctrl_get_cmd s =
     (let s1 = (if cmd_is_valid (ctrl_cmd s) then s
                else case xgq_consume True (e_mem s) (xgq_admin s) of
                       (Inl e, q) \<Rightarrow> s\<lparr>xgq_admin := q\<rparr>
                     | (Inr addr, q) \<Rightarrow>
                         s\<lparr>xgq_admin := q,
                           ctrl_cmd := cmd_load_header (e_mem s) (cmd_set_addr addr (ctrl_cmd s))\<rparr>)
      in (cmd_is_valid (ctrl_cmd s1), s1))"

text \<open>Respond, then return \<open>ret\<close>, as the handlers end.\<close>

definition respond :: "fw_env \<Rightarrow> u32 list \<Rightarrow> unit res \<Rightarrow> ert \<Rightarrow> (unit res \<times> ert) option" where
  "respond env resp ret s = map_option (\<lambda>s'. (ret, s')) (xgq_ctrl_response env resp s)"

section \<open>Setting up the queues (sched.c)\<close>

definition setup_ert_base_addr :: "ert \<Rightarrow> ert" where
  "setup_ert_base_addr s =
     s\<lparr>status_register_addr := [0x180000, 0x180004, 0x180008, 0x18000C]\<rparr>"

definition setup_one_cu :: "nat \<Rightarrow> ert \<Rightarrow> ert" where
  "setup_one_cu i s =
     (let xc = (cu_xgqs s ! i)\<lparr>xc_offset := XGQ_OFFSET (xgqs s ! i), xc_xgq_id := of_nat i,
                  xc_csr_reg := status_register_addr s ! (i div 32)\<rparr>;
          (xc', cu') = xgq_cu_init i i xc (sched_cus s ! i)
      in s\<lparr>cu_xgqs := (cu_xgqs s)[i := xc'], sched_cus := (sched_cus s)[i := cu']\<rparr>)"

definition setup_cu_queue :: "ert \<Rightarrow> unit res \<times> ert" where
  "setup_cu_queue s =
     (if num_cus s = 0 \<or> flatten_queue s \<noteq> 0 then (Inr (), s)
      else let n = unat (num_cus s) in
        case xgq_group_alloc (e_mem s) (ucast (XGQ_IN_MEM_PROD OR XGQ_DOUBLE_READ)) 0
               (ERT_CQ_BASE_ADDR + user_queue_offset) (ERT_CQ_SIZE - user_queue_offset)
               (take n (cu_slot_sizes s)) MAX_SLOTS of
          Inl e \<Rightarrow> (Inl e, s)
        | Inr (qs, len, m) \<Rightarrow>
            (Inr (), fold setup_one_cu [0..<n] (s\<lparr>e_mem := m, xgqs := qs @ drop n (xgqs s)\<rparr>)))"

definition setup_ctrl_queue :: "ert \<Rightarrow> ert" where
  "setup_ctrl_queue s =
     (case xgq_alloc (e_mem s) (ucast (XGQ_IN_MEM_PROD OR XGQ_DOUBLE_READ)) 0
             (ERT_CQ_BASE_ADDR + ctrl_queue_offset) (ucast CTRL_XGQ_SPACE) CTRL_XGQ_SLOT_SIZE 0 0 of
        Inl e \<Rightarrow> xgq_ctrl_init (xgq_admin s) (s\<lparr>ctrl_queue_size := CTRL_XGQ_SPACE,
                                                ctrl_scratch_offset := CTRL_XGQ_SPACE\<rparr>)
      | Inr (q, len, m) \<Rightarrow>
          xgq_ctrl_init q (s\<lparr>e_mem := m, ctrl_queue_size := ucast len, ctrl_scratch_offset := ucast len\<rparr>))"

section \<open>The control commands\<close>

definition configure_mb :: "fw_env \<Rightarrow> ert \<Rightarrow> (unit res \<times> ert) option" where
  "configure_mb env s =
     (let features = read_reg (cc_addr (ctrl_cmd s) + 8) s;
          n = XGQ_NUM_CUS features;
          flat = (if n > MAX_XGQ_CU then 1 else 0) OR
                 of_bool (push_bit 1 (feature 17 features) \<noteq> 0 \<or> feature 16 features \<noteq> 0);
          s1 = s\<lparr>num_cus := n, cfg_complete := 0, flatten_queue := flat,
                 i2h := feature 13 features, i2e := feature 14 features, cui := feature 15 features,
                 dmsg := feature 19 features, echo := feature 18 features,
                 cmd_queue_mode := feature 16 features, scratch_mode := feature 17 features,
                 cmd_queue_slot_size := (if flat \<noteq> 0 then 0 else cmd_queue_slot_size s)\<rparr>
      in respond env [0, 1, 0, 0] (Inr ()) s1)"

definition configure_mb_end :: "fw_env \<Rightarrow> ert \<Rightarrow> (unit res \<times> ert) option" where
  "configure_mb_end env s =
     (let (ret, s1) = setup_cu_queue s;
          s2 = write_reg ERT_HOST_INTERRUPT_ENABLE_ADDR (i2h s1) s1;
          s3 = (case ret of Inr _ \<Rightarrow> s2\<lparr>cfg_complete := 1\<rparr> | Inl e \<Rightarrow> s2)
      in respond env [0, 0, 0, rcode ret] ret s3)"

definition save_cfg_cu :: "fw_env \<Rightarrow> ert \<Rightarrow> (unit res \<times> ert) option" where
  "save_cfg_cu env s =
     (let queue_addr = cc_addr (ctrl_cmd s);
          features = read_reg (queue_addr + 8) s;
          cu_idx = XGQ_CU_IDX features;
          i = unat cu_idx
      in if cu_idx > FW_MAX_CUS \<or> cu_idx \<ge> num_cus s
         then respond env [0, 0, 0, rcode (Inl EINVAL)] (Inl EINVAL) s
         else if length (cu_cfg s) \<le> i \<or> length (sched_cus s) \<le> i \<or> length (cu_slot_sizes s) \<le> i
         then Some (Inl FAULT, s)
         else let addr_lo = read_reg (queue_addr + 0x10) s;
                  addr_hi = read_reg (queue_addr + 0x14) s;
                  sz = read_reg (queue_addr + 0x18) s;
                  s1 = s\<lparr>cu_cfg := (cu_cfg s)[i := (cu_cfg s ! i)\<lparr>ci_ip_ctrl := XGQ_IP_CTRL features,
                                                               ci_slot_size := sz\<rparr>],
                         sched_cus := (sched_cus s)[i :=
                           cu_set_addr (push_bit 32 (ucast addr_hi) + ucast addr_lo) (sched_cus s ! i)],
                         cu_slot_sizes := (cu_slot_sizes s)[i := sz],
                         cmd_queue_slot_size := (if flatten_queue s \<noteq> 0
                           then (if cmd_queue_slot_size s > sz then cmd_queue_slot_size s else sz)
                           else cmd_queue_slot_size s)\<rparr>
              in respond env [0, 0, 0, 0] (Inr ()) s1)"

definition query_cu :: "fw_env \<Rightarrow> ert \<Rightarrow> (unit res \<times> ert) option" where
  "query_cu env s =
     (let features = read_reg (cc_addr (ctrl_cmd s) + 8) s;
          cu_idx = XGQ_CU_IDX features;
          ret = (if cu_idx > FW_MAX_CUS then Inl EINVAL else Inr ())
      in if flatten_queue s = 0 \<and> length (cu_xgqs s) \<le> unat cu_idx then Some (Inl FAULT, s)
         else let offset = (if flatten_queue s = 0 then xc_offset (cu_xgqs s ! unat cu_idx)
                            else ucast user_queue_offset)
              in respond env
                   [0, set_field 31 1 (flatten_queue s) (set_field 0 12 cu_idx 0), offset, rcode ret] ret s)"

definition get_clk_counter :: "fw_env \<Rightarrow> ert \<Rightarrow> (unit res \<times> ert) option" where
  "get_clk_counter env s =
     (let (t, s1) = read_clk_counter env s in respond env [0, 0, t, 0] (Inr ()) s1)"

primrec repetition_write :: "nat \<Rightarrow> u64 \<Rightarrow> ert \<Rightarrow> ert" where
  "repetition_write 0 addr s = s"
| "repetition_write (Suc loop_cnt) addr s = repetition_write loop_cnt addr (write_reg addr 0 s)"

text \<open>
  The four measurements of \<open>validate_mb\<close>: the reads of \<open>repetition_read\<close> leave the state alone, so
  \<open>measure\<close> takes what is done between the two readings of the clock as an argument. A response
  field is 8 bits wide.
\<close>

definition measure_access :: "fw_env \<Rightarrow> (ert \<Rightarrow> ert) \<Rightarrow> ert \<Rightarrow> u32 \<times> ert" where
  "measure_access env body s =
     (let (start_t, s1) = read_clk_counter env s;
          (end_t, s2) = read_clk_counter env (body s1)
      in (take_bit 8 ((end_t - start_t) div 1024), s2))"

definition validate_mb :: "fw_env \<Rightarrow> ert \<Rightarrow> (unit res \<times> ert) option" where
  "validate_mb env s =
     (if sched_cus s = [] then Some (Inl FAULT, s)
      else let queue_addr = cc_addr (ctrl_cmd s); cu = cu_addr (sched_cus s ! 0);
               (cq_rd, s1) = measure_access env id s;
               (cq_wr, s2) = measure_access env (repetition_write 1024 queue_addr) s1;
               (cu_rd, s3) = measure_access env id s2;
               (cu_wr, s4) = measure_access env (repetition_write 1024 cu) s3
           in respond env
                [0, cq_rd OR push_bit 8 cq_wr OR push_bit 16 cu_rd OR push_bit 24 cu_wr, 0, 0] (Inr ()) s4)"

text \<open>The stress loop of \<open>data_integrity\<close> runs until the host clears the count.\<close>

partial_function (option) stress_loop :: "fw_env \<Rightarrow> u64 \<Rightarrow> bool \<Rightarrow> ert \<Rightarrow> (bool \<times> ert) option" where
  "stress_loop env queue_addr ok s =
     (if read_reg (rw_count_addr queue_addr) s = 0 then Some (ok, s)
      else let pattern = read_reg (draft_addr queue_addr) s;
               ok' = (if pattern \<noteq> 0 \<and> pattern \<noteq> 0xFFFFFFFF then False else ok)
           in stress_loop env queue_addr ok' (fw_tick env s))"

declare stress_loop.simps [code]

text \<open>The slot test, by the number of words left and the offset: the flags h2d and d2d.\<close>

primrec slot_test :: "fw_env \<Rightarrow> nat \<Rightarrow> u64 \<Rightarrow> ert \<Rightarrow> (bool \<times> bool) \<times> ert" where
  "slot_test env 0 addr s = ((True, True), s)"
| "slot_test env (Suc n) addr s =
     (if read_reg addr s \<noteq> 0xF0F0F0F0 then ((False, True), s)
      else let s1 = fw_tick env (write_reg addr 0x0F0F0F0F s) in
           if read_reg addr s1 \<noteq> 0x0F0F0F0F then ((True, False), s1)
           else slot_test env n (addr + 4) s1)"

definition data_integrity :: "fw_env \<Rightarrow> ert \<Rightarrow> (unit res \<times> ert) option" where
  "data_integrity env s =
     (let queue_addr = cc_addr (ctrl_cmd s) in
      case stress_loop env queue_addr True s of
        None \<Rightarrow> None
      | Some (ok, s1) \<Rightarrow>
          let ((h2d, d2d), s2) = slot_test env 124 (queue_addr + 16) s1; n = unat (num_cus s2) in
          if length (sched_cus s2) < n then Some (Inl FAULT, s2)
          else let d2cu = (\<forall>cu\<in>set (take n (sched_cus s2)). read_reg (cu_addr cu) s2 = 4)
               in respond env [0, of_bool h2d OR push_bit 1 (of_bool d2d) OR push_bit 2 (of_bool d2cu)
                                    OR push_bit 3 (of_bool ok), 0] (Inr ()) s2)"

definition exit_mb :: "fw_env \<Rightarrow> ert \<Rightarrow> (unit res \<times> ert) option" where
  "exit_mb env s = map_option (\<lambda>(ret, s'). (ret, fw_tick env s')) (respond env [0, 0, 0, 0] (Inr ()) s)"

definition identify_xgq :: "fw_env \<Rightarrow> ert \<Rightarrow> (unit res \<times> ert) option" where
  "identify_xgq env s = respond env [0, 0x10000, 0, 0] (Inr ()) s"

definition dispatch_ctrl :: "fw_env \<Rightarrow> u32 \<Rightarrow> ert \<Rightarrow> (unit res \<times> ert) option" where
  "dispatch_ctrl env opcode s =
     (if opcode = 0x108 then configure_mb env s
      else if opcode = 0x109 then configure_mb_end env s
      else if opcode = 0x10a then save_cfg_cu env s
      else if opcode = 0x10b then query_cu env s
      else if opcode = 0x10c then get_clk_counter env s
      else if opcode = 0x10d then validate_mb env s
      else if opcode = 0x10e then data_integrity env s
      else if opcode = 0x10f then exit_mb env s
      else if opcode = 0x202 then identify_xgq env s
      else Some (Inl ENOTTY, s))"

definition process_ctrl_command :: "fw_env \<Rightarrow> ert \<Rightarrow> (unit res \<times> ert) option" where
  "process_ctrl_command env s =
     (let (valid, s1) = xgq_ctrl_get_cmd s in
      if \<not> valid then Some (Inl ENOENT, s1) else dispatch_ctrl env (cmd_op_code (ctrl_cmd s1)) s1)"

section \<open>The scheduler loop\<close>

text \<open>\<open>while (!process_ctrl_command())\<close>: ends with the first call that does not return 0.\<close>

partial_function (option) ctrl_loop :: "fw_env \<Rightarrow> ert \<Rightarrow> (unit res \<times> ert) option" where
  "ctrl_loop env s =
     (case process_ctrl_command env (fw_tick env s) of
        None \<Rightarrow> None
      | Some (Inr u, s') \<Rightarrow> ctrl_loop env s'
      | Some (Inl e, s') \<Rightarrow> Some (if e = FAULT then Inl FAULT else Inr (), s'))"

declare ctrl_loop.simps [code]

text \<open>What \<open>&cu_xgqs[i]\<close> reaches, and the state after the handler changed it.\<close>

definition ert_ctx :: "nat \<Rightarrow> ert \<Rightarrow> cu_ctx option" where
  "ert_ctx i s =
     (if length (cu_xgqs s) \<le> i then None
      else case (xc_q (cu_xgqs s ! i), xc_cu (cu_xgqs s ! i)) of
             (Some q, Some cu) \<Rightarrow>
               Some \<lparr>hw_time = e_time s, hw_mem = e_mem s, ctx_xc = cu_xgqs s ! i,
                     ctx_q = xgqs s ! q, ctx_cu = sched_cus s ! cu\<rparr>
           | _ \<Rightarrow> None)"

definition put_ctx :: "nat \<Rightarrow> cu_ctx \<Rightarrow> ert \<Rightarrow> ert" where
  "put_ctx i c s =
     s\<lparr>e_time := hw_time c, e_mem := hw_mem c, cu_xgqs := (cu_xgqs s)[i := ctx_xc c],
       xgqs := (xgqs s)[the (xc_q (ctx_xc c)) := ctx_q c],
       sched_cus := (sched_cus s)[the (xc_cu (ctx_xc c)) := ctx_cu c]\<rparr>"

partial_function (option) cu_loop :: "fw_env \<Rightarrow> nat \<Rightarrow> ert \<Rightarrow> (unit res \<times> ert) option" where
  "cu_loop env i s =
     (let s1 = fw_tick env s in
      case ert_ctx i s1 of
        None \<Rightarrow> Some (Inl FAULT, s1)
      | Some c \<Rightarrow>
          (case xgq_cu_process env c of
             None \<Rightarrow> None
           | Some (Inr u, c') \<Rightarrow> cu_loop env i (put_ctx i c' s1)
           | Some (Inl e, c') \<Rightarrow> Some (Inr (), put_ctx i c' s1)))"

declare cu_loop.simps [code]

primrec cus_loop :: "fw_env \<Rightarrow> nat list \<Rightarrow> ert \<Rightarrow> (unit res \<times> ert) option" where
  "cus_loop env [] s = Some (Inr (), s)"
| "cus_loop env (i # is) s =
     (case cu_loop env i s of
        None \<Rightarrow> None
      | Some (Inl e, s') \<Rightarrow> Some (Inl e, s')
      | Some (Inr u, s') \<Rightarrow> cus_loop env is s')"

text \<open>One turn of \<open>while (1)\<close>, and \<open>n\<close> turns.\<close>

definition scheduler_turn :: "fw_env \<Rightarrow> ert \<Rightarrow> (unit res \<times> ert) option" where
  "scheduler_turn env s =
     (case ctrl_loop env s of
        None \<Rightarrow> None
      | Some (Inl e, s') \<Rightarrow> Some (Inl e, s')
      | Some (Inr u, s') \<Rightarrow>
          if cfg_complete s' \<noteq> 0 then cus_loop env [0..<unat (num_cus s')] s' else Some (Inr (), s'))"

primrec scheduler_turns :: "fw_env \<Rightarrow> nat \<Rightarrow> ert \<Rightarrow> (unit res \<times> ert) option" where
  "scheduler_turns env 0 s = Some (Inr (), s)"
| "scheduler_turns env (Suc n) s =
     (case scheduler_turn env s of
        None \<Rightarrow> None
      | Some (Inl e, s') \<Rightarrow> Some (Inl e, s')
      | Some (Inr u, s') \<Rightarrow> scheduler_turns env n s')"

definition scheduler_boot :: "ert \<Rightarrow> ert" where
  "scheduler_boot s =
     snd (setup_cu_queue (setup_ctrl_queue (write_reg ERT_CQ_BASE_ADDR ERT_VER (setup_ert_base_addr s))))"

definition scheduler_loop :: "fw_env \<Rightarrow> nat \<Rightarrow> ert \<Rightarrow> (unit res \<times> ert) option" where
  "scheduler_loop env n s = scheduler_turns env n (scheduler_boot s)"

definition cu_interrupt_handler :: "ert \<Rightarrow> ert" where
  "cu_interrupt_handler s = write_reg ERT_INTC_IAR_ADDR (read_reg ERT_INTC_IPR_ADDR s) s"

section \<open>Every supported control command is answered once\<close>

text \<open>The control queue of a state, and that a step leaves it alone or answers one command.\<close>

definition same_ctrl :: "ert \<Rightarrow> ert \<Rightarrow> bool" where
  "same_ctrl s s' \<longleftrightarrow> xgq_admin s' = xgq_admin s \<and> ctrl_cmd s' = ctrl_cmd s"

definition ctrl_answered :: "ert \<Rightarrow> ert \<Rightarrow> bool" where
  "ctrl_answered s s' \<longleftrightarrow> answers_with (xgq_admin s) (xgq_admin s') \<and> \<not> cmd_is_valid (ctrl_cmd s')"

named_theorems ctrl_frame \<open>operations that leave the control queue alone\<close>

lemma same_ctrl_refl [ctrl_frame]: "same_ctrl s s"
  by (simp add: same_ctrl_def)

lemma same_ctrl_trans: "same_ctrl s t \<Longrightarrow> same_ctrl t u \<Longrightarrow> same_ctrl s u"
  by (simp add: same_ctrl_def)

lemma ctrl_answered_trans: "same_ctrl s t \<Longrightarrow> ctrl_answered t u \<Longrightarrow> ctrl_answered s u"
  by (simp add: same_ctrl_def ctrl_answered_def)

text \<open>A step that changes nothing but the address space and the time.\<close>

definition only_hw :: "ert \<Rightarrow> ert \<Rightarrow> bool" where
  "only_hw s s' \<longleftrightarrow> (\<exists>m t. s' = s\<lparr>e_mem := m, e_time := t\<rparr>)"

named_theorems hw_frame \<open>operations that change the address space and the time only\<close>

lemma only_hw_refl [hw_frame]: "only_hw s s"
  unfolding only_hw_def by (rule exI [of _ "e_mem s"], rule exI [of _ "e_time s"]) simp

lemma only_hw_trans: "only_hw s t \<Longrightarrow> only_hw t u \<Longrightarrow> only_hw s u"
  by (auto simp: only_hw_def) blast

lemma only_hw_keeps:
  "only_hw s s' \<Longrightarrow> same_ctrl s s' \<and> num_cus s' = num_cus s \<and> sched_cus s' = sched_cus s"
  by (auto simp: only_hw_def same_ctrl_def)

lemma fw_tick_hw [hw_frame]: "only_hw s (fw_tick env s)"
  unfolding only_hw_def fw_tick_def by (rule exI [of _ "env (e_time s) (e_mem s)"], rule exI [of _ "Suc (e_time s)"]) simp

lemma write_reg_hw [hw_frame]: "only_hw s (write_reg addr v s)"
  unfolding only_hw_def write_reg_def
  by (rule exI [of _ "reg_write (e_mem s) addr v"], rule exI [of _ "e_time s"]) simp

lemma read_clk_hw: "read_clk_counter env s = (v, s') \<Longrightarrow> only_hw s s'"
  by (auto simp: read_clk_counter_def Let_def intro: fw_tick_hw)

lemma repetition_write_hw [hw_frame]: "only_hw s (repetition_write n addr s)"
  by (induction n arbitrary: s) (auto intro: hw_frame only_hw_trans)

lemma measure_access_hw:
  assumes "\<And>s. only_hw s (body s)" and "measure_access env body s = (v, s')"
  shows "only_hw s s'"
proof -
  obtain a s1 b s2 where "read_clk_counter env s = (a, s1)" "read_clk_counter env (body s1) = (b, s2)"
    by fastforce
  then show ?thesis using assms read_clk_hw only_hw_trans
    by (simp add: measure_access_def) metis
qed

lemma stress_loop_hw:
  assumes "stress_loop env a ok s = Some y"
  shows "only_hw s (snd y)"
proof (induction rule: stress_loop.raw_induct [OF _ assms, rotated])
  case (1 f env a ok s y)
  show ?case
  proof (cases "read_reg (rw_count_addr a) s = 0")
    case True
    then show ?thesis using 1(2) by (auto intro: hw_frame)
  next
    case False
    then have "f env a (if read_reg (draft_addr a) s \<noteq> 0 \<and> read_reg (draft_addr a) s \<noteq> 0xFFFFFFFF
        then False else ok) (fw_tick env s) = Some y" using 1(2) by (simp add: Let_def)
    from only_hw_trans [OF fw_tick_hw 1(1) [OF this]] show ?thesis .
  qed
qed

lemma slot_test_hw: "slot_test env n addr s = (r, s') \<Longrightarrow> only_hw s s'"
proof (induction n arbitrary: addr s)
  case 0
  then show ?case by (simp add: hw_frame)
next
  case (Suc n)
  have "only_hw s (fw_tick env (write_reg addr 0x0F0F0F0F s))"
    by (rule only_hw_trans [OF write_reg_hw fw_tick_hw])
  with Suc show ?case by (auto simp: Let_def hw_frame split: if_splits dest: only_hw_trans)
qed

lemma setup_one_cu_same [ctrl_frame]: "same_ctrl s (setup_one_cu i s)"
  by (simp add: same_ctrl_def setup_one_cu_def xgq_cu_init_def Let_def)

lemma fold_setup_same: "same_ctrl s (fold setup_one_cu is s)"
  by (induction "is" arbitrary: s) (auto intro: ctrl_frame same_ctrl_trans)

lemma setup_cu_queue_same: "setup_cu_queue s = (ret, s') \<Longrightarrow> same_ctrl s s'"
proof -
  have "same_ctrl s (fold setup_one_cu is (s\<lparr>e_mem := m, xgqs := qs\<rparr>))" for "is" m qs
    by (rule same_ctrl_trans [OF _ fold_setup_same]) (simp add: same_ctrl_def)
  then show "setup_cu_queue s = (ret, s') \<Longrightarrow> same_ctrl s s'"
    by (auto simp: setup_cu_queue_def Let_def ctrl_frame split: if_splits sum.splits)
qed

lemma respond_answers:
  assumes "respond env resp ret s = Some (r, s')"
  shows "r = ret \<and> ctrl_answered s s'"
proof -
  let ?m = "xgq_notify_peer_consumed True (e_mem s) (xgq_admin s)"
  obtain y where y: "xgq_produce_wait env (e_time s) ?m (xgq_admin s) = Some y"
    using assms by (auto simp: respond_def xgq_ctrl_response_def Let_def split: option.splits)
  from xgq_produce_wait_ok [OF y] y assms show ?thesis
    by (auto simp: respond_def xgq_ctrl_response_def ctrl_answered_def Let_def split: option.splits prod.splits)
qed
lemma respond_after:
  "respond env resp ret t = Some (r, s') \<Longrightarrow> same_ctrl s t \<Longrightarrow> r = ret \<and> ctrl_answered s s'"
  using respond_answers ctrl_answered_trans by blast

lemma configure_mb_answers: "configure_mb env s = Some (r, s') \<Longrightarrow> ctrl_answered s s'"
  unfolding configure_mb_def Let_def by (drule respond_after [of _ _ _ _ _ _ s]) (simp_all add: same_ctrl_def)

lemma configure_mb_end_answers:
  assumes "configure_mb_end env s = Some (r, s')"
  shows "ctrl_answered s s' \<and> r = fst (setup_cu_queue s)"
proof -
  obtain ret s1 where p: "setup_cu_queue s = (ret, s1)" by fastforce
  let ?s2 = "write_reg ERT_HOST_INTERRUPT_ENABLE_ADDR (i2h s1) s1"
  let ?s3 = "case ret of Inr _ \<Rightarrow> ?s2\<lparr>cfg_complete := 1\<rparr> | Inl e \<Rightarrow> ?s2"
  have "same_ctrl s1 ?s3" by (auto simp: same_ctrl_def write_reg_def split: sum.split)
  then have same: "same_ctrl s ?s3" using setup_cu_queue_same [OF p] same_ctrl_trans by blast
  have "respond env [0, 0, 0, rcode ret] ret ?s3 = Some (r, s')"
    using assms p by (simp add: configure_mb_end_def Let_def)
  from respond_after [OF this same] p show ?thesis by simp
qed

lemma save_cfg_cu_answers:
  "save_cfg_cu env s = Some (r, s') \<Longrightarrow> r \<noteq> Inl FAULT \<Longrightarrow> ctrl_answered s s'"
  unfolding save_cfg_cu_def Let_def
  by (auto split: if_splits dest!: respond_after [of _ _ _ _ _ _ s] simp: same_ctrl_def)

lemma query_cu_answers:
  "query_cu env s = Some (r, s') \<Longrightarrow> r \<noteq> Inl FAULT \<Longrightarrow> ctrl_answered s s'"
  unfolding query_cu_def Let_def by (auto split: if_splits dest!: respond_answers)

lemma get_clk_counter_answers: "get_clk_counter env s = Some (r, s') \<Longrightarrow> ctrl_answered s s'"
  using read_clk_hw [of env s] only_hw_keeps [of s] respond_after
  unfolding get_clk_counter_def by (auto split: prod.splits)

lemma validate_mb_answers:
  assumes "validate_mb env s = Some (r, s')" and "r \<noteq> Inl FAULT"
  shows "ctrl_answered s s'"
proof -
  let ?w = "\<lambda>a. repetition_write 1024 a"
  obtain v1 s1 where 1: "measure_access env id s = (v1, s1)" by fastforce
  obtain v2 s2 where 2: "measure_access env (?w (cc_addr (ctrl_cmd s))) s1 = (v2, s2)" by fastforce
  obtain v3 s3 where 3: "measure_access env id s2 = (v3, s3)" by fastforce
  obtain v4 s4 where 4: "measure_access env (?w (cu_addr (sched_cus s ! 0))) s3 = (v4, s4)" by fastforce
  have "only_hw s s1" using measure_access_hw [OF _ 1] hw_frame by simp
  moreover have "only_hw s1 s2" using measure_access_hw [OF _ 2] hw_frame by blast
  moreover have "only_hw s2 s3" using measure_access_hw [OF _ 3] hw_frame by simp
  moreover have "only_hw s3 s4" using measure_access_hw [OF _ 4] hw_frame by blast
  ultimately have "only_hw s s4" using only_hw_trans by meson
  then have "same_ctrl s s4" using only_hw_keeps by blast
  then show ?thesis using assms respond_after 1 2 3 4 unfolding validate_mb_def Let_def
    by (auto split: if_splits)
qed

lemma data_integrity_answers:
  assumes "data_integrity env s = Some (r, s')" and "r \<noteq> Inl FAULT"
  shows "ctrl_answered s s'"
proof -
  let ?a = "cc_addr (ctrl_cmd s)"
  obtain ok s1 where 1: "stress_loop env ?a True s = Some (ok, s1)"
    using assms(1) by (auto simp: data_integrity_def Let_def split: option.splits)
  obtain h d s2 where 2: "slot_test env 124 (?a + 16) s1 = ((h, d), s2)" by (metis prod.exhaust)
  have "only_hw s s2" using stress_loop_hw [OF 1] slot_test_hw [OF 2] only_hw_trans by fastforce
  then have "same_ctrl s s2" using only_hw_keeps by blast
  then show ?thesis using assms respond_after 1 2 unfolding data_integrity_def Let_def
    by (auto split: if_splits)
qed

lemma exit_mb_answers: "exit_mb env s = Some (r, s') \<Longrightarrow> ctrl_answered s s'"
  by (auto simp: exit_mb_def ctrl_answered_def fw_tick_def dest!: respond_answers)

lemma identify_xgq_answers: "identify_xgq env s = Some (r, s') \<Longrightarrow> ctrl_answered s s'"
  by (auto simp: identify_xgq_def dest!: respond_answers)

lemmas handlers_answer = configure_mb_answers configure_mb_end_answers [THEN conjunct1]
  save_cfg_cu_answers query_cu_answers get_clk_counter_answers validate_mb_answers
  data_integrity_answers exit_mb_answers identify_xgq_answers

definition ctrl_opcodes :: "u32 list" where
  "ctrl_opcodes = [0x108, 0x109, 0x10a, 0x10b, 0x10c, 0x10d, 0x10e, 0x10f, 0x202]"

lemma dispatch_answers:
  assumes "dispatch_ctrl env opcode s = Some (r, s')" and "opcode \<in> set ctrl_opcodes" and "r \<noteq> Inl FAULT"
  shows "ctrl_answered s s'"
  using assms unfolding dispatch_ctrl_def ctrl_opcodes_def by (auto split: if_splits intro: handlers_answer)

lemma dispatch_unknown: "opcode \<notin> set ctrl_opcodes \<Longrightarrow> dispatch_ctrl env opcode s = Some (Inl ENOTTY, s)"
  by (simp add: dispatch_ctrl_def ctrl_opcodes_def)

text \<open>
  C16. Every control command with a supported opcode that the firmware finishes is answered by
  exactly one entry in the completion ring, errors included, and is then gone: the command buffer
  is empty and the submission ring has not moved further.
\<close>

theorem ctrl_command_answered:
  assumes "process_ctrl_command env s = Some (ret, s')" and "xgq_ctrl_get_cmd s = (True, s1)"
    and "cmd_op_code (ctrl_cmd s1) \<in> set ctrl_opcodes" and "ret \<noteq> Inl FAULT"
  shows "answers_with (xgq_admin s1) (xgq_admin s') \<and> \<not> cmd_is_valid (ctrl_cmd s')"
proof -
  have "dispatch_ctrl env (cmd_op_code (ctrl_cmd s1)) s1 = Some (ret, s')"
    using assms(1,2) by (simp add: process_ctrl_command_def)
  from dispatch_answers [OF this assms(3,4)] show ?thesis by (simp add: ctrl_answered_def)
qed

section \<open>An unsupported control command\<close>

definition ctrl_stuck :: "ert \<Rightarrow> bool" where
  "ctrl_stuck s \<longleftrightarrow> cmd_is_valid (ctrl_cmd s) \<and> cmd_op_code (ctrl_cmd s) \<notin> set ctrl_opcodes"

lemma ctrl_loop_stuck:
  assumes "ctrl_stuck s" shows "ctrl_loop env s = Some (Inr (), fw_tick env s)"
proof -
  have "xgq_ctrl_get_cmd (fw_tick env s) = (True, fw_tick env s)"
    using assms by (simp add: xgq_ctrl_get_cmd_def ctrl_stuck_def fw_tick_def)
  moreover have "dispatch_ctrl env (cmd_op_code (ctrl_cmd (fw_tick env s))) (fw_tick env s)
      = Some (Inl ENOTTY, fw_tick env s)"
    using assms by (intro dispatch_unknown) (simp add: ctrl_stuck_def fw_tick_def)
  ultimately show ?thesis by (subst ctrl_loop.simps) (simp add: process_ctrl_command_def)
qed

lemma fw_tick_same [ctrl_frame]: "same_ctrl s (fw_tick env s)"
  using only_hw_keeps hw_frame by blast

lemma put_ctx_same [ctrl_frame]: "same_ctrl s (put_ctx i c s)"
  by (simp add: same_ctrl_def put_ctx_def)

lemma cu_loop_same:
  assumes "cu_loop env i s = Some y" shows "same_ctrl s (snd y)"
proof (induction rule: cu_loop.raw_induct [OF _ assms, rotated])
  case (1 f env i s y)
  let ?t = "fw_tick env s"
  have put: "same_ctrl s (put_ctx i c ?t)" for c
    by (rule same_ctrl_trans [OF fw_tick_same put_ctx_same])
  show ?case
  proof (cases "ert_ctx i ?t")
    case None
    then show ?thesis using 1(2) fw_tick_same by (auto simp: Let_def)
  next
    case (Some c)
    then obtain r c' where p: "xgq_cu_process env c = Some (r, c')"
      using 1(2) by (auto simp: Let_def split: option.splits)
    show ?thesis
    proof (cases r)
      case (Inl e)
      then show ?thesis using 1(2) Some p put by (auto simp: Let_def)
    next
      case (Inr u)
      then have "f env i (put_ctx i c' ?t) = Some y" using 1(2) Some p by (simp add: Let_def)
      from same_ctrl_trans [OF put 1(1) [OF this]] show ?thesis .
    qed
  qed
qed

lemma cus_loop_same: "cus_loop env is s = Some (r, s') \<Longrightarrow> same_ctrl s s'"
proof (induction "is" arbitrary: s)
  case Nil
  then show ?case by (simp add: ctrl_frame)
next
  case (Cons i "is")
  then show ?case
    by (auto split: option.splits sum.splits dest!: cu_loop_same) (blast intro: same_ctrl_trans)
qed

lemma scheduler_turn_stuck:
  assumes "ctrl_stuck s" and "scheduler_turn env s = Some (r, s')" shows "same_ctrl s s'"
  using assms ctrl_loop_stuck [OF assms(1), of env] fw_tick_same [of s env] same_ctrl_trans
  by (fastforce simp: scheduler_turn_def split: if_splits dest!: cus_loop_same)

text \<open>
  C22. A control command whose opcode the firmware does not know is never answered and blocks the
  control queue: however long the scheduler loop runs and whatever the host and the compute units
  do meanwhile, the same command stays in the command buffer and the control queue does not move.
\<close>

theorem unknown_ctrl_command_blocks:
  assumes "cmd_is_valid (ctrl_cmd s)" and "cmd_op_code (ctrl_cmd s) \<notin> set ctrl_opcodes"
    and "scheduler_turns env n s = Some (ret, s')"
  shows "xgq_admin s' = xgq_admin s \<and> ctrl_cmd s' = ctrl_cmd s"
proof -
  have "ctrl_stuck s" using assms by (simp add: ctrl_stuck_def)
  then have "same_ctrl s s'" using assms(3)
  proof (induction n arbitrary: s)
    case 0
    then show ?case by (simp add: ctrl_frame)
  next
    case (Suc n)
    obtain r t where t: "scheduler_turn env s = Some (r, t)"
      using Suc.prems(2) by (auto split: option.splits)
    have st: "same_ctrl s t" by (rule scheduler_turn_stuck [OF Suc.prems(1) t])
    show ?case
    proof (cases r)
      case (Inl e)
      then show ?thesis using Suc.prems(2) t st by simp
    next
      case (Inr u)
      have "ctrl_stuck t" using st Suc.prems(1) by (simp add: same_ctrl_def ctrl_stuck_def)
      from Suc.IH [OF this] Suc.prems(2) t Inr have "same_ctrl t s'" by simp
      with st show ?thesis by (rule same_ctrl_trans)
    qed
  qed
  then show ?thesis by (simp add: same_ctrl_def)
qed
section \<open>The limits of the arrays\<close>

lemma group_alloc_error: "xgq_group_alloc m fl h a l szs mx = Inl e \<Longrightarrow> e \<noteq> FAULT"
  by (auto simp: xgq_group_alloc_def Let_def split: if_splits prod.splits)

lemma setup_cu_queue_error: "setup_cu_queue s = (Inl e, s') \<Longrightarrow> e \<noteq> FAULT"
  by (auto simp: setup_cu_queue_def Let_def group_alloc_error split: if_splits sum.splits)

lemma unat_le_iff: "n < 2 ^ 32 \<Longrightarrow> (n \<le> unat (x :: u32)) = (of_nat n \<le> x)"
  by (simp add: word_le_nat_alt unat_of_nat_small)

lemma save_cfg_cu_fault:
  assumes "save_cfg_cu env s = Some (ret, s')"
    and "length (sched_cus s) = 32" "length (cu_slot_sizes s) = 32" "length (cu_cfg s) = 128"
  shows "ret = Inl FAULT \<longleftrightarrow> (let idx = XGQ_CU_IDX (read_reg (cc_addr (ctrl_cmd s) + 8) s)
    in 32 \<le> idx \<and> idx \<le> 128 \<and> idx < num_cus s)"
proof -
  define idx where "idx = XGQ_CU_IDX (read_reg (cc_addr (ctrl_cmd s) + 8) s)"
  have "32 \<le> unat idx \<longleftrightarrow> 32 \<le> idx" using unat_le_iff [of 32 idx] by simp
  then show ?thesis using assms respond_answers unfolding save_cfg_cu_def Let_def idx_def [symmetric]
    by (auto simp: not_less not_le split: if_splits dest!: respond_answers)
qed

lemma query_cu_fault:
  assumes "query_cu env s = Some (ret, s')" and "length (cu_xgqs s) = 32"
  shows "ret = Inl FAULT \<longleftrightarrow> flatten_queue s = 0
    \<and> 32 \<le> XGQ_CU_IDX (read_reg (cc_addr (ctrl_cmd s) + 8) s)"
proof -
  define idx where "idx = XGQ_CU_IDX (read_reg (cc_addr (ctrl_cmd s) + 8) s)"
  have "32 \<le> unat idx \<longleftrightarrow> 32 \<le> idx" using unat_le_iff [of 32 idx] by simp
  then show ?thesis using assms unfolding query_cu_def Let_def idx_def [symmetric]
    by (auto split: if_splits dest!: respond_answers)
qed

lemma data_integrity_fault:
  assumes "data_integrity env s = Some (ret, s')" and "length (sched_cus s) = 32"
  shows "ret = Inl FAULT \<longleftrightarrow> 32 < num_cus s"
proof -
  let ?a = "cc_addr (ctrl_cmd s)"
  obtain ok s1 where 1: "stress_loop env ?a True s = Some (ok, s1)"
    using assms(1) by (auto simp: data_integrity_def Let_def split: option.splits)
  obtain h d s2 where 2: "slot_test env 124 (?a + 16) s1 = ((h, d), s2)" by (metis prod.exhaust)
  have "only_hw s s2" using stress_loop_hw [OF 1] slot_test_hw [OF 2] only_hw_trans by fastforce
  then have k: "num_cus s2 = num_cus s" "sched_cus s2 = sched_cus s" using only_hw_keeps by auto
  have "32 < unat (num_cus s) \<longleftrightarrow> 32 < num_cus s" by (simp add: word_less_nat_alt)
  then show ?thesis using assms 1 2 k unfolding data_integrity_def Let_def
    by (auto split: if_splits dest!: respond_answers)
qed

lemma configure_mb_end_no_fault: "configure_mb_end env s = Some (ret, s') \<Longrightarrow> ret \<noteq> Inl FAULT"
  using configure_mb_end_answers [of env s ret s'] setup_cu_queue_error [of s] by (metis prod.collapse)

lemma other_handlers_no_fault:
  "configure_mb env s = Some (ret, s') \<Longrightarrow> ret \<noteq> Inl FAULT"
  "get_clk_counter env s = Some (ret, s') \<Longrightarrow> ret \<noteq> Inl FAULT"
  "sched_cus s \<noteq> [] \<Longrightarrow> validate_mb env s = Some (ret, s') \<Longrightarrow> ret \<noteq> Inl FAULT"
  "exit_mb env s = Some (ret, s') \<Longrightarrow> ret \<noteq> Inl FAULT"
  "identify_xgq env s = Some (ret, s') \<Longrightarrow> ret \<noteq> Inl FAULT"
  by (auto simp: configure_mb_def get_clk_counter_def validate_mb_def exit_mb_def identify_xgq_def Let_def
      split: prod.splits dest!: respond_answers)

text \<open>
  C23. The arrays that hold the compute units have 32 entries. With the arrays at their declared
  sizes, a control command makes the firmware leave one of them in exactly three cases: a CU
  configuration for an index of 32 or more that the checks against \<open>MAX_CUS\<close> and the number of CUs
  let through, a query for such an index, which is answered before its check takes effect, and a
  data-integrity test when more than 32 CUs are configured.
\<close>

theorem ctrl_command_faults:
  assumes "process_ctrl_command env s = Some (ret, s')" and "xgq_ctrl_get_cmd s = (True, s1)"
    and "length (cu_xgqs s1) = 32" and "length (sched_cus s1) = 32"
    and "length (cu_slot_sizes s1) = 32" and "length (cu_cfg s1) = 128"
  shows "ret = Inl FAULT \<longleftrightarrow>
    (let opcode = cmd_op_code (ctrl_cmd s1); idx = XGQ_CU_IDX (read_reg (cc_addr (ctrl_cmd s1) + 8) s1)
     in opcode = 0x10a \<and> 32 \<le> idx \<and> idx \<le> 128 \<and> idx < num_cus s1
      \<or> opcode = 0x10b \<and> flatten_queue s1 = 0 \<and> 32 \<le> idx
      \<or> opcode = 0x10e \<and> 32 < num_cus s1)"
proof -
  define opc where "opc = cmd_op_code (ctrl_cmd s1)"
  have d: "dispatch_ctrl env opc s1 = Some (ret, s')"
    using assms(1,2) by (simp add: process_ctrl_command_def opc_def)
  have ne: "sched_cus s1 \<noteq> []" using assms(4) by auto
  consider "opc = 0x10a" | "opc = 0x10b" | "opc = 0x10e" | "opc \<notin> {0x10a, 0x10b, 0x10e}" by blast
  then show ?thesis
  proof cases
    case 1
    then show ?thesis unfolding opc_def [symmetric] Let_def
      using d save_cfg_cu_fault [OF _ assms(4-6)] by (simp add: dispatch_ctrl_def Let_def)
  next
    case 2
    then show ?thesis unfolding opc_def [symmetric] Let_def
      using d query_cu_fault [OF _ assms(3)] by (simp add: dispatch_ctrl_def)
  next
    case 3
    then show ?thesis unfolding opc_def [symmetric] Let_def
      using d data_integrity_fault [OF _ assms(4)] by (simp add: dispatch_ctrl_def)
  next
    case 4
    then have "ret \<noteq> Inl FAULT" using d ne configure_mb_end_no_fault other_handlers_no_fault
      unfolding dispatch_ctrl_def by (auto split: if_splits)
    with 4 show ?thesis unfolding opc_def [symmetric] Let_def by auto
  qed
qed
section \<open>Where the queues are\<close>

text \<open>The first address behind a queue of the firmware: its header, its slots and its responses.\<close>

definition queue_end :: "xgq \<Rightarrow> u64" where
  "queue_end q = xq_header_addr q + xgq_ring_len (ucast (xr_slot_num (xq_sq q))) (ucast (xr_slot_sz (xq_sq q)))"

lemma xgq_init_geom:
  assumes "xgq_init m fl h ra (ucast (n :: u32)) sz sp cp = (q, m')"
  shows "xq_header_addr q = ra" and "xr_slot_num (xq_sq q) = n" and "xr_slot_sz (xq_sq q) = sz"
proof -
  have "xq_header_addr q = ra \<and> xr_slot_num (xq_sq q) = n \<and> xr_slot_sz (xq_sq q) = sz"
    using assms by (auto simp: xgq_init_def Let_def xgq_soft_reset_def xgq_init_ring_def xgq_io_defs
        ucast_down_up split: prod.splits)
  then show "xq_header_addr q = ra" "xr_slot_num (xq_sq q) = n" "xr_slot_sz (xq_sq q) = sz" by auto
qed

lemma group_init_layout:
  assumes "group_init m fl h ra (2 ^ k) szs = (qs, ra', m')" and "k < 32"
  shows "length qs = length szs \<and> ra' = ra + of_nat (rings_len k szs)
    \<and> (\<forall>i < length szs. xq_header_addr (qs ! i) = ra + of_nat (rings_len k (take i szs))
         \<and> queue_end (qs ! i) = ra + of_nat (rings_len k (take (Suc i) szs)))"
  using assms(1)
proof (induction szs arbitrary: m ra qs ra' m')
  case Nil
  then show ?case by (simp add: rings_len_def)
next
  case (Cons sz szs)
  obtain q m1 where q: "xgq_init m fl h ra (ucast (2 ^ k :: u32)) sz 0 0 = (q, m1)" by fastforce
  let ?ra = "ra + xgq_ring_len (ucast (2 ^ k :: u32)) (ucast sz)"
  obtain qs1 r2 m2 where g: "group_init m1 fl h ?ra (2 ^ k) szs = (qs1, r2, m2)" by (metis prod_cases3)
  have res: "qs = q # qs1" "ra' = r2" using Cons.prems q g by (auto simp: Let_def)
  have len: "xgq_ring_len (ucast (2 ^ k :: u32)) (ucast sz) = of_nat (rings_len k [sz])"
    using ring_len_of_nat [OF assms(2), of sz] by (simp add: rings_len_def)
  have cons: "rings_len k (sz # l) = rings_len k [sz] + rings_len k l" for l by (simp add: rings_len_def)
  have nil: "rings_len k [] = 0" by (simp add: rings_len_def)
  note ih = Cons.IH [OF g, unfolded len]
  have "xq_header_addr (qs ! i) = ra + of_nat (rings_len k (take i (sz # szs)))
      \<and> queue_end (qs ! i) = ra + of_nat (rings_len k (take (Suc i) (sz # szs)))"
    if "i < length (sz # szs)" for i
  proof (cases i)
    case 0
    then show ?thesis using res(1) xgq_init_geom [OF q] len nil by (simp add: queue_end_def)
  next
    case (Suc j)
    then show ?thesis using res(1) ih that cons [of "take j szs"] cons [of "take (Suc j) szs"]
      by (simp add: add.assoc)
  qed
  then show ?case using res ih cons [of szs] by (simp add: add.assoc)
qed
lemma rings_len_mono_slots: "i \<le> j \<Longrightarrow> rings_len i szs \<le> rings_len j szs"
  by (rule lift_Suc_mono_le [of "\<lambda>k. rings_len k szs"]) (simp_all add: rings_len_Suc)

lemma rings_len_take: "i \<le> j \<Longrightarrow> rings_len k (take i szs) \<le> rings_len k (take j szs)"
proof -
  assume "i \<le> j"
  then have "take j szs = take i szs @ take (j - i) (drop i szs)" by (metis le_add_diff_inverse take_add)
  then show ?thesis by (simp add: rings_len_def)
qed

lemma group_alloc_layout:
  assumes "xgq_group_alloc m fl h ra rlen szs 128 = Inr (qs, len, m')" and "szs \<noteq> []"
    and "unat rlen < 2 ^ 31" and "rings_len 1 szs < 2 ^ 32"
  obtains k where "1 \<le> k" "k \<le> 7" "rings_len k szs \<le> unat rlen" "length qs = length szs"
    "\<And>i. i < length szs \<Longrightarrow> xq_header_addr (qs ! i) = ra + of_nat (rings_len k (take i szs))
      \<and> queue_end (qs ! i) = ra + of_nat (rings_len k (take (Suc i) szs))"
proof -
  obtain j where j: "xgq_alloc_num_slots rlen szs = 2 ^ j" "j < 27" "0 < j \<longrightarrow> rings_len j szs \<le> unat rlen"
    using xgq_alloc_num_slots_spec [OF assms(2-4)] by blast
  have j0: "0 < j" using assms(1) j(1) by (cases j) (auto simp: xgq_group_alloc_def Let_def split: if_splits)
  define k where "k = min j 7"
  have "unat (2 ^ j :: u32) = 2 ^ j" using unat_slots j(2) by simp
  then have "(128 < (2 ^ j :: u32)) = (2 ^ 7 < (2 ^ j :: nat))" by (simp add: word_less_nat_alt)
  then have "(128 < (2 ^ j :: u32)) = (7 < j)" by (simp only: power_strict_increasing_iff one_less_numeral_iff semiring_norm)
  then have k: "(if 128 \<noteq> (0 :: u32) \<and> (2 ^ j :: u32) > 128 then 128 else 2 ^ j) = (2 ^ k :: u32)"
    unfolding k_def by (auto simp: min_def)
  let ?g = "group_init m (fl OR ucast XGQ_IN_MEM_PROD) h ra (2 ^ k) szs"
  obtain qs1 r m1 where g: "?g = (qs1, r, m1)" by (metis prod_cases3)
  have "qs = qs1" using assms(1) g j(1) k unfolding xgq_group_alloc_def Let_def
    by (auto split: if_splits)
  moreover have "k < 32" "1 \<le> k" "k \<le> 7" using j0 unfolding k_def by auto
  moreover have "rings_len k szs \<le> unat rlen"
    using j(3) j0 rings_len_mono_slots [of k j szs] unfolding k_def by simp
  ultimately show thesis using that [of k] group_init_layout [OF g] by blast
qed

lemma fold_setup_fields:
  assumes "n \<le> length (cu_xgqs s)"
  shows "xgqs (fold setup_one_cu [0..<n] s) = xgqs s
    \<and> length (cu_xgqs (fold setup_one_cu [0..<n] s)) = length (cu_xgqs s)
    \<and> (\<forall>i < n. xc_q (cu_xgqs (fold setup_one_cu [0..<n] s) ! i) = Some i
         \<and> xc_cmd_running (cu_xgqs (fold setup_one_cu [0..<n] s) ! i) = 0
         \<and> xc_offset (cu_xgqs (fold setup_one_cu [0..<n] s) ! i) = XGQ_OFFSET (xgqs s ! i))"
  using assms
proof (induction n)
  case 0
  show ?case by simp
next
  case (Suc n)
  then show ?case
    by (auto simp: setup_one_cu_def xgq_cu_init_def Let_def nth_list_update less_Suc_eq)
qed

lemma ctrl_queue_place:
  "xq_header_addr (xgq_admin (setup_ctrl_queue s)) = 0x190004
    \<and> queue_end (xgq_admin (setup_ctrl_queue s)) = 0x190450"
proof -
  have n: "xgq_alloc_num_slots 0x800 [512] = 2" by code_simp
  obtain q m where q: "xgq_init (e_mem s) 6 0 0x190004 (ucast (2 :: u32)) 512 0 0 = (q, m)" by fastforce
  have "xgq_admin (setup_ctrl_queue s) = q"
    using n q by (simp add: setup_ctrl_queue_def xgq_alloc_def xgq_ctrl_init_def Let_def)
  then show ?thesis using xgq_init_geom [OF q] by (simp add: queue_end_def xgq_ring_len_def)
qed

section \<open>The flat queue modes\<close>

lemma respond_keeps:
  assumes "respond env resp ret s = Some (r, s')"
  shows "num_cus s' = num_cus s \<and> cu_xgqs s' = cu_xgqs s \<and> cfg_complete s' = cfg_complete s"
  using assms by (auto simp: respond_def xgq_ctrl_response_def Let_def split: option.splits prod.splits)

text \<open>
  With more than 32 CUs, or when the host asks for one queue or for the scratch mode, no queue
  is set up for the CUs; the end of the configuration is answered with success all the same, and
  the scheduler loop then runs the handler of the first CU, whose queue pointer is null.
\<close>

theorem flat_mode_faults:
  assumes "process_ctrl_command env s = Some (ret, s')" and "xgq_ctrl_get_cmd s = (True, s1)"
    and "cmd_op_code (ctrl_cmd s1) = 0x109" and "flatten_queue s1 \<noteq> 0" and "num_cus s1 \<noteq> 0"
    and "xc_q (cu_xgqs s1 ! 0) = None"
  shows "ret = Inr () \<and> cfg_complete s' = 1
    \<and> cus_loop env [0..<unat (num_cus s')] s' = Some (Inl FAULT, fw_tick env s')"
proof -
  have "configure_mb_end env s1 = Some (ret, s')"
    using assms(1-3) by (simp add: process_ctrl_command_def dispatch_ctrl_def)
  then have r: "respond env [0, 0, 0, 0] (Inr ())
      ((write_reg ERT_HOST_INTERRUPT_ENABLE_ADDR (i2h s1) s1)\<lparr>cfg_complete := 1\<rparr>) = Some (ret, s')"
    using assms(4) by (simp add: configure_mb_end_def setup_cu_queue_def rcode_def Let_def)
  have k: "num_cus s' = num_cus s1" "cu_xgqs s' = cu_xgqs s1" "cfg_complete s' = 1"
    using respond_keeps [OF r] by (simp_all add: write_reg_def)
  have "ert_ctx 0 (fw_tick env s') = None"
    using k(2) assms(6) by (simp add: ert_ctx_def fw_tick_def)
  then have "cu_loop env 0 s' = Some (Inl FAULT, fw_tick env s')"
    by (subst cu_loop.simps) (simp add: Let_def)
  moreover have "[0..<unat (num_cus s')] = 0 # [1..<unat (num_cus s')]"
    using k(1) assms(5) by (simp add: upt_conv_Cons unat_gt_0)
  ultimately show ?thesis using respond_answers [OF r] k(3) by simp
qed

section \<open>A booted firmware with one control command\<close>

text \<open>
  The firmware boots with its arrays zeroed, and the host has put one command into the control
  queue, with the header \<open>hdr\<close> and the feature word \<open>feat\<close>; \<open>n\<close> CUs are configured.
\<close>

definition zero_ert :: ert where
  "zero_ert = \<lparr>e_time = 0, e_mem = (\<lambda>_. 0), num_cus = 0, ctrl_queue_size = CTRL_XGQ_SPACE,
     ctrl_scratch_offset = 0,
     xgq_admin = \<lparr>xq_io_hdl = 0, xq_header_addr = 0, xq_flags = 0,
       xq_sq = xgq_init_ring 0 0 0 0 0, xq_cq = xgq_init_ring 0 0 0 0 0\<rparr>,
     ctrl_cmd = \<lparr>cc_addr = 0, cached = 0, cc_header0 = 0, cc_header1 = 0\<rparr>,
     xgqs = replicate 32 \<lparr>xq_io_hdl = 0, xq_header_addr = 0, xq_flags = 0,
       xq_sq = xgq_init_ring 0 0 0 0 0, xq_cq = xgq_init_ring 0 0 0 0 0\<rparr>,
     cu_xgqs = replicate 32 \<lparr>xc_q = None, xc_cu = None,
       xc_cmd = \<lparr>cc_addr = 0, cached = 0, cc_header0 = 0, cc_header1 = 0\<rparr>,
       xc_cmd_running = 0, xc_offset = 0, xc_xgq_id = 0, xc_csr_reg = 0\<rparr>,
     cu_slot_sizes = replicate 32 0, sched_cus = replicate 32 \<lparr>cu_addr = 0, cu_status = 0\<rparr>,
     i2h = 0, i2e = 0, cui = 0, dmsg = 0, echo = 0, cmd_queue_mode = 0, scratch_mode = 0,
     flatten_queue = 0, cfg_complete = 0, cmd_queue_slot_size = 0,
     cu_cfg = replicate 128 \<lparr>ci_cu_idx = 0, ci_ip_ctrl = 0, ci_slot_size = 0\<rparr>,
     status_register_addr = [0, 0, 0, 0]\<rparr>"

definition demo_ert :: "u32 \<Rightarrow> u32 \<Rightarrow> u32 \<Rightarrow> ert" where
  "demo_ert hdr feat n = (scheduler_boot zero_ert)\<lparr>num_cus := n, e_mem := \<lambda>a.
     if a = 0x190028 then 1 else if a = 0x190030 then hdr else if a = 0x190038 then feat else 0\<rparr>"

definition demo_ctrl :: "ert \<Rightarrow> ert" where
  "demo_ctrl s = snd (xgq_ctrl_get_cmd s)"

lemma demo_boot:
  "length (cu_xgqs (demo_ert h f n)) = 32" "length (sched_cus (demo_ert h f n)) = 32"
  "length (cu_slot_sizes (demo_ert h f n)) = 32" "length (cu_cfg (demo_ert h f n)) = 128"
  "length (xgqs (demo_ert h f n)) = 32" "flatten_queue (demo_ert h f n) = 0"
  "cu_xgqs (demo_ert h f n) ! 0 = cu_xgqs zero_ert ! 0" "xc_q (cu_xgqs zero_ert ! 0) = None"
  "num_cus (demo_ert h f n) = n"
  by (simp_all add: demo_ert_def scheduler_boot_def setup_cu_queue_def setup_ctrl_queue_def write_reg_def
      setup_ert_base_addr_def zero_ert_def xgq_ctrl_init_def split: sum.split)

lemma get_cmd_arrays:
  "cu_xgqs (demo_ctrl s) = cu_xgqs s" "sched_cus (demo_ctrl s) = sched_cus s"
  "cu_slot_sizes (demo_ctrl s) = cu_slot_sizes s" "cu_cfg (demo_ctrl s) = cu_cfg s"
  "num_cus (demo_ctrl s) = num_cus s" "flatten_queue (demo_ctrl s) = flatten_queue s"
  by (auto simp: demo_ctrl_def xgq_ctrl_get_cmd_def Let_def split: sum.split prod.split)

lemma demo_get_cmd: "fst (xgq_ctrl_get_cmd s) \<Longrightarrow> xgq_ctrl_get_cmd s = (True, demo_ctrl s)"
  by (metis demo_ctrl_def eq_fst_iff prod.collapse)

theorem ctrl_command_answered_witness:
  "\<exists>s'. process_ctrl_command (\<lambda>_ m. m) (demo_ert 0x80000202 0 0) = Some (Inr (), s')
    \<and> answers_with (xgq_admin (demo_ctrl (demo_ert 0x80000202 0 0))) (xgq_admin s')
    \<and> \<not> cmd_is_valid (ctrl_cmd s')"
proof -
  let ?s = "demo_ert 0x80000202 0 0"
  have "map_option fst (process_ctrl_command (\<lambda>_ m. m) ?s) = Some (Inr ())" by code_simp
  then obtain s' where s': "process_ctrl_command (\<lambda>_ m. m) ?s = Some (Inr (), s')" by auto
  have "fst (xgq_ctrl_get_cmd ?s)" by code_simp
  note g = demo_get_cmd [OF this]
  have "cmd_op_code (ctrl_cmd (demo_ctrl ?s)) \<in> set ctrl_opcodes" by code_simp
  from ctrl_command_answered [OF s' g this] s' show ?thesis by auto
qed

theorem unknown_ctrl_command_blocks_witness:
  "\<exists>s'. scheduler_turns (\<lambda>_ m. m) 2 (demo_ctrl (demo_ert 0x80000999 0 0)) = Some (Inr (), s')
    \<and> xgq_admin s' = xgq_admin (demo_ctrl (demo_ert 0x80000999 0 0))
    \<and> ctrl_cmd s' = ctrl_cmd (demo_ctrl (demo_ert 0x80000999 0 0))"
proof -
  let ?s = "demo_ctrl (demo_ert 0x80000999 0 0)"
  have "map_option fst (scheduler_turns (\<lambda>_ m. m) 2 ?s) = Some (Inr ())" by code_simp
  then obtain s' where s': "scheduler_turns (\<lambda>_ m. m) 2 ?s = Some (Inr (), s')" by auto
  have "cmd_is_valid (ctrl_cmd ?s)" "cmd_op_code (ctrl_cmd ?s) \<notin> set ctrl_opcodes" by code_simp+
  from unknown_ctrl_command_blocks [OF this s'] s' show ?thesis by auto
qed

theorem ctrl_command_faults_witness:
  "\<exists>s'. process_ctrl_command (\<lambda>_ m. m) (demo_ert 0x8000010A 32 40) = Some (Inl FAULT, s')"
proof -
  let ?s = "demo_ert 0x8000010A 32 40"
  have "map_option fst (process_ctrl_command (\<lambda>_ m. m) ?s) \<noteq> None" by code_simp
  then obtain r s' where s': "process_ctrl_command (\<lambda>_ m. m) ?s = Some (r, s')" by auto
  have "fst (xgq_ctrl_get_cmd ?s)" by code_simp
  note g = demo_get_cmd [OF this]
  have c: "cmd_op_code (ctrl_cmd (demo_ctrl ?s)) = 0x10a"
    "XGQ_CU_IDX (read_reg (cc_addr (ctrl_cmd (demo_ctrl ?s)) + 8) (demo_ctrl ?s)) = 32" by code_simp+
  have "r = Inl FAULT"
    using ctrl_command_faults [OF s' g] c by (simp add: get_cmd_arrays demo_boot Let_def)
  with s' show ?thesis by auto
qed

theorem flat_mode_faults_witness:
  "\<exists>s'. process_ctrl_command (\<lambda>_ m. m) ((demo_ert 0x80000109 0 2)\<lparr>flatten_queue := 1\<rparr>) = Some (Inr (), s')
    \<and> cus_loop (\<lambda>_ m. m) [0..<unat (num_cus s')] s' = Some (Inl FAULT, fw_tick (\<lambda>_ m. m) s')"
proof -
  let ?s = "(demo_ert 0x80000109 0 2)\<lparr>flatten_queue := 1\<rparr>"
  have "map_option fst (process_ctrl_command (\<lambda>_ m. m) ?s) = Some (Inr ())" by code_simp
  then obtain s' where s': "process_ctrl_command (\<lambda>_ m. m) ?s = Some (Inr (), s')" by auto
  have "fst (xgq_ctrl_get_cmd ?s)" by code_simp
  note g = demo_get_cmd [OF this]
  have c: "cmd_op_code (ctrl_cmd (demo_ctrl ?s)) = 0x109" by code_simp
  from flat_mode_faults [OF s' g c] s' show ?thesis by (simp add: get_cmd_arrays demo_boot)
qed

end
