(* ===== verification/Mailbox.thy ===== *)
theory Mailbox
  imports Prelude
begin

text \<open>
  The message transport of the mailbox between the two PCIe functions of a card
  (\<open>pcie/driver/linux/xocl/subdev/mailbox.c\<close>): cutting messages into packets of 16 words and
  putting them together again, the queues of messages of a channel, their time-outs, and the workers
  of the receiving and the sending channel for hardware and software channels.

  A packet is its header and the 56 bytes of its body, little endian as on the host. The 16 registers
  reads of a packet are one argument of the receiving side: the packet that the hardware holds, and
  what the status, error and time reads around them return (\<open>rx_io\<close>). A buffer is its list of bytes.
  \<open>m_done\<close> records the messages that \<open>msg_done\<close> hands to a callback or to a waiting thread.
  \<open>FAULT\<close> is a \<open>BUG_ON\<close>, a read outside the packet, a write outside the buffer or a division by 0.
\<close>

section \<open>Packets and messages\<close>

definition le_bytes :: "nat \<Rightarrow> 'a::len word \<Rightarrow> u8 list" where
  "le_bytes n w = map (\<lambda>i. ucast (drop_bit (8 * i) w)) [0..<n]"

primrec of_le :: "u8 list \<Rightarrow> 'a::len word" where
  "of_le [] = 0"
| "of_le (b # bs) = push_bit 8 (of_le bs) OR ucast b"

abbreviation (input) PKT_INVALID :: u32 where "PKT_INVALID \<equiv> 0"
abbreviation (input) PKT_TEST :: u32 where "PKT_TEST \<equiv> 1"
abbreviation (input) PKT_MSG_START :: u32 where "PKT_MSG_START \<equiv> 2"
abbreviation (input) PKT_MSG_BODY :: u32 where "PKT_MSG_BODY \<equiv> 3"
abbreviation (input) PKT_TYPE_MSG_END :: u32 where "PKT_TYPE_MSG_END \<equiv> 0x80000000"
abbreviation (input) STATUS_EMPTY :: u32 where "STATUS_EMPTY \<equiv> 1"
abbreviation (input) STATUS_FULL :: u32 where "STATUS_FULL \<equiv> 2"
abbreviation (input) STATUS_STA :: u32 where "STATUS_STA \<equiv> 4"
abbreviation (input) STATUS_RTA :: u32 where "STATUS_RTA \<equiv> 8"
abbreviation (input) XCL_MB_REQ_FLAG_RESPONSE :: u32 where "XCL_MB_REQ_FLAG_RESPONSE \<equiv> 1"
abbreviation (input) XCL_MB_REQ_FLAG_REQUEST :: u32 where "XCL_MB_REQ_FLAG_REQUEST \<equiv> 2"
abbreviation (input) INVALID_MSG_ID :: u64 where "INVALID_MSG_ID \<equiv> - 1"
abbreviation (input) MSG_MAX_TTL :: u32 where "MSG_MAX_TTL \<equiv> 0xFFFFFFFF"
abbreviation (input) MAX_MSG_QUEUE_SZ :: u64 where "MAX_MSG_QUEUE_SZ \<equiv> 0x10000000"
abbreviation (input) MAX_MSG_QUEUE_LEN :: u32 where "MAX_MSG_QUEUE_LEN \<equiv> 5"
abbreviation (input) MAX_MSG_SZ :: u64 where "MAX_MSG_SZ \<equiv> 0x8000000"
abbreviation (input) RECV_WINDOW_SIZE :: u64 where "RECV_WINDOW_SIZE \<equiv> 0x8000"
abbreviation (input) RECV_RATE_THRESHOLD :: u64 where "RECV_RATE_THRESHOLD \<equiv> 600000"

record mailbox_pkt =
  pk_type :: u32
  pk_payload_size :: u32
  pk_body :: "u8 list"

datatype mbm_error = MB_OK | EBADMSG | EMSGSIZE | ETIME | ESHUTDOWN | MB_EINVAL

record mailbox_msg =
  mbm_req_id :: u64
  mbm_data :: "u8 list"
  mbm_len :: u64
  mbm_error :: mbm_error
  mbm_cb :: bool
  mbm_flags :: u32
  mbm_timeout_in_sec :: u32
  mbm_ttl :: u32
  mbm_chan_sw :: bool

record mailbox_channel =
  mbc_rx :: bool
  mbc_stop :: bool
  mbc_tick :: bool
  mbc_msgs :: "mailbox_msg list"
  mbc_cur_msg :: "mailbox_msg option"
  mbc_bytes_done :: nat
  mbc_packet :: mailbox_pkt
  sw_chan_buf :: "u8 list"
  sw_chan_buf_sz :: u64
  sw_chan_msg_id :: u64
  sw_chan_msg_flags :: u64
  sw_num_pending_msg :: int

record mailbox =
  m_done :: "mailbox_msg list"
  m_sw_only :: bool
  mbx_req_list :: "mailbox_msg list"
  mbx_req_cnt :: u32
  mbx_req_sz :: u64
  mbx_tst_pkt :: mailbox_pkt
  mbx_recv_t_start :: u64
  mbx_recv_in_last_window :: u64
  mbx_recv_raw_bytes :: u64
  mbx_intr_on :: bool

type_synonym mbx_state = "mailbox_channel \<times> mailbox"

definition reset_pkt :: "mailbox_pkt \<Rightarrow> mailbox_pkt" where
  "reset_pkt pkt = pkt\<lparr>pk_type := PKT_INVALID\<rparr>"

definition valid_pkt :: "mailbox_pkt \<Rightarrow> bool" where
  "valid_pkt pkt = (pk_type pkt \<noteq> PKT_INVALID)"

definition drop_pkt :: "mailbox_channel \<Rightarrow> mailbox_channel" where
  "drop_pkt ch = ch\<lparr>mbc_packet := reset_pkt (mbc_packet ch)\<rparr>"

text \<open>The fields of \<open>body.msg_start\<close>.\<close>

definition msg_req_id :: "mailbox_pkt \<Rightarrow> u64" where "msg_req_id pkt = of_le (take 8 (pk_body pkt))"
definition msg_flags :: "mailbox_pkt \<Rightarrow> u32" where "msg_flags pkt = of_le (take 4 (drop 8 (pk_body pkt)))"
definition msg_size :: "mailbox_pkt \<Rightarrow> u32" where "msg_size pkt = of_le (take 4 (drop 12 (pk_body pkt)))"

section \<open>Messages of a channel\<close>

text \<open>A request that does not fit the list of pending requests is neither listed nor freed.\<close>

definition msg_done :: "bool \<Rightarrow> mbm_error \<Rightarrow> mailbox_msg \<Rightarrow> mailbox \<Rightarrow> mailbox" where
  "msg_done rx err msg0 mbx =
     (let msg = msg0\<lparr>mbm_error := err\<rparr> in
      if mbm_cb msg then mbx\<lparr>m_done := m_done mbx @ [msg]\<rparr>
      else if rx \<and> mbm_flags msg AND XCL_MB_REQ_FLAG_REQUEST \<noteq> 0
      then (if mbx_req_sz mbx + mbm_len msg \<ge> MAX_MSG_QUEUE_SZ \<or> mbx_req_cnt mbx \<ge> MAX_MSG_QUEUE_LEN
            then mbx
            else mbx\<lparr>mbx_req_list := mbx_req_list mbx @ [msg], mbx_req_cnt := mbx_req_cnt mbx + 1,
                     mbx_req_sz := mbx_req_sz mbx + mbm_len msg\<rparr>)
      else mbx\<lparr>m_done := m_done mbx @ [msg]\<rparr>)"

definition chan_msg_done :: "mbm_error \<Rightarrow> mbx_state \<Rightarrow> mbx_state" where
  "chan_msg_done err s =
     (case mbc_cur_msg (fst s) of
        None \<Rightarrow> s
      | Some msg \<Rightarrow> ((fst s)\<lparr>mbc_cur_msg := None, mbc_bytes_done := 0\<rparr>,
                     msg_done (mbc_rx (fst s)) err msg (snd s)))"

definition cleanup_sw_ch :: "mailbox_channel \<Rightarrow> mailbox_channel" where
  "cleanup_sw_ch ch =
     ch\<lparr>sw_chan_buf := [], sw_chan_buf_sz := 0, sw_chan_msg_flags := 0, sw_chan_msg_id := 0\<rparr>"

definition atomic_dec_if_positive :: "int \<Rightarrow> int" where
  "atomic_dec_if_positive n = (if n > 0 then n - 1 else n)"

definition msg_timer_on :: "bool \<Rightarrow> u32 \<Rightarrow> mailbox_msg \<Rightarrow> mailbox_msg" where
  "msg_timer_on rx ttl msg =
     (let ttl' = (if ttl = 0 then (if rx then 20 else if mbm_chan_sw msg then 6 else 2) else ttl)
      in msg\<lparr>mbm_ttl := ttl' * 10\<rparr>)"

definition outstanding_msg_ttl_reset :: "mailbox_channel \<Rightarrow> mailbox_channel" where
  "outstanding_msg_ttl_reset ch =
     ch\<lparr>mbc_cur_msg := map_option (msg_timer_on (mbc_rx ch) 1) (mbc_cur_msg ch)\<rparr>"

definition tick_msg :: "mailbox_msg \<Rightarrow> mailbox_msg" where
  "tick_msg msg = (if mbm_req_id msg = 0 then msg else msg\<lparr>mbm_ttl := mbm_ttl msg - 1\<rparr>)"

definition msg_expired :: "mailbox_msg \<Rightarrow> bool" where
  "msg_expired msg = (mbm_req_id msg \<noteq> 0 \<and> mbm_ttl msg = 0)"

definition timeout_msg :: "mbx_state \<Rightarrow> mbx_state" where
  "timeout_msg s =
     (let s1 = (case mbc_cur_msg (fst s) of
                  None \<Rightarrow> s
                | Some msg \<Rightarrow>
                    if mbm_ttl msg = 0
                    then chan_msg_done ETIME
                      ((cleanup_sw_ch (fst s))\<lparr>sw_num_pending_msg :=
                          atomic_dec_if_positive (sw_num_pending_msg (fst s))\<rparr>, snd s)
                    else ((fst s)\<lparr>mbc_cur_msg := Some (msg\<lparr>mbm_ttl := mbm_ttl msg - 1\<rparr>)\<rparr>, snd s));
          ch = fst s1
      in (ch\<lparr>mbc_msgs := map tick_msg (filter (\<lambda>msg. \<not> msg_expired msg) (mbc_msgs ch))\<rparr>,
          fold (msg_done (mbc_rx ch) ETIME) (filter msg_expired (mbc_msgs ch)) (snd s1)))"

definition handle_timer_event :: "mbx_state \<Rightarrow> mbx_state" where
  "handle_timer_event s =
     (if \<not> mbc_tick (fst s) then s
      else let s1 = timeout_msg s in ((fst s1)\<lparr>mbc_tick := False\<rparr>, snd s1))"

definition chan_msg_enqueue :: "mailbox_msg \<Rightarrow> mailbox_channel \<Rightarrow> mbm_error \<times> mailbox_channel" where
  "chan_msg_enqueue msg ch =
     (if mbm_req_id msg = INVALID_MSG_ID then (MB_EINVAL, ch)
      else if mbc_stop ch then (ESHUTDOWN, ch)
      else (MB_OK, ch\<lparr>mbc_msgs := mbc_msgs ch @ [msg]\<rparr>))"

definition chan_msg_dequeue :: "u64 \<Rightarrow> mailbox_channel \<Rightarrow> mailbox_msg option \<times> mailbox_channel" where
  "chan_msg_dequeue req_id ch =
     (if req_id = INVALID_MSG_ID
      then (case mbc_msgs ch of [] \<Rightarrow> (None, ch) | msg # ms \<Rightarrow> (Some msg, ch\<lparr>mbc_msgs := ms\<rparr>))
      else (case List.extract (\<lambda>msg. mbm_req_id msg = req_id) (mbc_msgs ch) of
              None \<Rightarrow> (None, ch)
            | Some (xs, msg, ys) \<Rightarrow> (Some msg, ch\<lparr>mbc_msgs := xs @ ys\<rparr>)))"

text \<open>\<open>alloc_msg(NULL, len)\<close>, with a zeroed buffer; the allocation is assumed to succeed.\<close>

definition alloc_msg :: "u64 \<Rightarrow> mailbox_msg" where
  "alloc_msg len = \<lparr>mbm_req_id = 0, mbm_data = replicate (unat len) 0, mbm_len = len, mbm_error = MB_OK,
     mbm_cb = False, mbm_flags = 0, mbm_timeout_in_sec = 0, mbm_ttl = MSG_MAX_TTL, mbm_chan_sw = False\<rparr>"

section \<open>Receiving\<close>

text \<open>What the hardware shows during one call of the receiving worker.\<close>

record rx_io =
  io_status :: u32
  io_pkt :: mailbox_pkt
  io_error :: u32
  io_now :: u64

definition mailbox_chk_err :: "u32 \<Rightarrow> u32" where
  "mailbox_chk_err val = (if val = 0xFFFFFFFF then 0 else val)"

text \<open>\<open>ktime_ms_delta\<close> of two times in milliseconds; both calls of \<open>ktime_get\<close> return \<open>now\<close>.\<close>

definition check_recv_pkt_rate :: "u64 \<Rightarrow> mailbox \<Rightarrow> bool res \<times> mailbox" where
  "check_recv_pkt_rate now mbx =
     (let t0 = (if mbx_recv_in_last_window mbx = 0 then now else mbx_recv_t_start mbx);
          w = mbx_recv_in_last_window mbx + 16;
          mbx1 = mbx\<lparr>mbx_recv_t_start := t0, mbx_recv_in_last_window := w\<rparr>
      in if w < RECV_WINDOW_SIZE then (Inr True, mbx1)
         else if now - t0 = 0 then (Inl FAULT, mbx1)
         else let rate = push_bit 2 w * 1000 div (now - t0);
                  mbx2 = mbx1\<lparr>mbx_recv_in_last_window := 0\<rparr>
              in if rate > RECV_RATE_THRESHOLD then (Inr False, mbx2\<lparr>mbx_intr_on := False\<rparr>)
                 else (Inr True, mbx2))"

definition chan_recv_pkt :: "rx_io \<Rightarrow> mbx_state \<Rightarrow> bool res \<times> mbx_state" where
  "chan_recv_pkt io s =
     (if valid_pkt (mbc_packet (fst s)) then (Inl FAULT, s)
      else let pkt = (if mailbox_chk_err (io_error io) AND STATUS_EMPTY \<noteq> 0
                      then reset_pkt (io_pkt io) else io_pkt io);
               mbx1 = (snd s)\<lparr>mbx_recv_raw_bytes := mbx_recv_raw_bytes (snd s) + 64\<rparr>;
               (ok, mbx2) = check_recv_pkt_rate (io_now io) mbx1
           in (ok, ((fst s)\<lparr>mbc_packet := pkt\<rparr>, mbx2)))"

text \<open>
  \<open>memcpy(msg_data + done, pkt_data, cnt)\<close>: \<open>cnt\<close> is the payload size that the peer wrote into the
  packet; it is compared with the room left in the message.
\<close>

definition chan_pkt2msg :: "mailbox_channel \<Rightarrow> mbm_error res \<times> mailbox_channel" where
  "chan_pkt2msg ch =
     (let pkt = mbc_packet ch; cnt = unat (pk_payload_size pkt); type = pk_type pkt AND 0xFF; done = mbc_bytes_done ch in
      case mbc_cur_msg ch of
        None \<Rightarrow> (Inl FAULT, ch)
      | Some msg \<Rightarrow>
          if type \<noteq> PKT_MSG_START \<and> type \<noteq> PKT_MSG_BODY then (Inl FAULT, ch)
          else if type = PKT_MSG_START \<and> mbm_len msg < ucast (msg_size pkt) then (Inl FAULT, ch)
          else let msg1 = (if type = PKT_MSG_START
                           then msg\<lparr>mbm_req_id := msg_req_id pkt, mbm_len := ucast (msg_size pkt)\<rparr> else msg);
                   pkt_data = (if type = PKT_MSG_START then drop 16 (pk_body pkt) else pk_body pkt);
                   ch1 = ch\<lparr>mbc_cur_msg := Some msg1\<rparr>
               in if of_nat cnt > mbm_len msg1 - of_nat done then (Inr EBADMSG, drop_pkt ch1)
                  else if length pkt_data < cnt \<or> length (mbm_data msg1) < done + cnt then (Inl FAULT, ch1)
                  else (Inr MB_OK, drop_pkt (ch1\<lparr>mbc_cur_msg := Some (msg1\<lparr>mbm_data :=
                          take done (mbm_data msg1) @ take cnt pkt_data @ drop (done + cnt) (mbm_data msg1)\<rparr>),
                        mbc_bytes_done := done + cnt\<rparr>)))"

definition dequeue_rx_msg :: "u32 \<Rightarrow> u64 \<Rightarrow> u64 \<Rightarrow> mbx_state \<Rightarrow> mbx_state" where
  "dequeue_rx_msg flags rid sz s =
     (if mbc_cur_msg (fst s) \<noteq> None then s
      else if flags AND XCL_MB_REQ_FLAG_RESPONSE \<noteq> 0
      then let (msg, ch) = chan_msg_dequeue rid (fst s); s1 = (ch\<lparr>mbc_cur_msg := msg\<rparr>, snd s) in
           (case msg of
              Some m \<Rightarrow> if mbm_len m < sz then chan_msg_done EMSGSIZE s1 else s1
            | None \<Rightarrow> s1)
      else if flags AND XCL_MB_REQ_FLAG_REQUEST \<noteq> 0
      then (if sz < MAX_MSG_SZ
            then ((fst s)\<lparr>mbc_cur_msg := Some ((alloc_msg sz)\<lparr>mbm_req_id := rid, mbm_flags := flags\<rparr>)\<rparr>, snd s)
            else s)
      else s)"

definition do_sw_rx :: "mbx_state \<Rightarrow> bool res \<times> mbx_state" where
  "do_sw_rx s =
     (let ch = fst s in
      if mbc_cur_msg ch \<noteq> None \<or> sw_chan_msg_id ch = 0 then (Inr False, s)
      else let s1 = dequeue_rx_msg (ucast (sw_chan_msg_flags ch)) (sw_chan_msg_id ch) (sw_chan_buf_sz ch) s;
               ch1 = fst s1; n = unat (sw_chan_buf_sz ch1)
           in if sw_chan_msg_id ch1 \<noteq> sw_chan_msg_id ch
                 \<or> (case mbc_cur_msg ch1 of None \<Rightarrow> False
                    | Some m \<Rightarrow> length (mbm_data m) < n \<or> length (sw_chan_buf ch1) < n) then (Inl FAULT, s1)
              else let cur = map_option (\<lambda>m. m\<lparr>mbm_chan_sw := True,
                                mbm_data := take n (sw_chan_buf ch1) @ drop n (mbm_data m)\<rparr>) (mbc_cur_msg ch1);
                       ch2 = (cleanup_sw_ch (ch1\<lparr>mbc_cur_msg := cur\<rparr>))\<lparr>sw_num_pending_msg :=
                                atomic_dec_if_positive (sw_num_pending_msg ch1)\<rparr>
                   in (Inr True, chan_msg_done MB_OK (ch2, snd s1)))"

text \<open>The part of \<open>do_hw_rx\<close> that prepares the message a packet belongs to.\<close>

definition rx_prepare :: "mbx_state \<Rightarrow> mbx_state" where
  "rx_prepare s =
     (let pkt = mbc_packet (fst s); type = pk_type pkt AND 0xFF in
      if type = PKT_TEST then (drop_pkt (fst s), (snd s)\<lparr>mbx_tst_pkt := pkt\<rparr>)
      else if type = PKT_MSG_START
      then let s1 = chan_msg_done EBADMSG s;
               s2 = dequeue_rx_msg (msg_flags pkt) (msg_req_id pkt) (ucast (msg_size pkt)) s1
           in if mbc_cur_msg (fst s2) = None then (drop_pkt (fst s2), snd s2) else s2
      else if type = PKT_MSG_BODY
      then (if mbc_cur_msg (fst s) = None then (drop_pkt (fst s), snd s) else s)
      else (drop_pkt (fst s), snd s))"

definition do_hw_rx :: "rx_io \<Rightarrow> mbx_state \<Rightarrow> bool res \<times> mbx_state" where
  "do_hw_rx io s =
     (if io_status io = 0xFFFFFFFF \<or> io_status io AND STATUS_RTA = 0 then (Inr False, s)
      else case chan_recv_pkt io s of
        (Inl e, s1) \<Rightarrow> (Inl e, s1)
      | (Inr False, s1) \<Rightarrow> (Inr False, (drop_pkt (fst s1), snd s1))
      | (Inr True, s1) \<Rightarrow>
          let eom = (pk_type (mbc_packet (fst s1)) AND PKT_TYPE_MSG_END \<noteq> 0); s2 = rx_prepare s1 in
          if \<not> valid_pkt (mbc_packet (fst s2)) then (Inr False, s2)
          else case chan_pkt2msg (fst s2) of
                 (Inl e, ch) \<Rightarrow> (Inl e, (ch, snd s2))
               | (Inr err, ch) \<Rightarrow>
                   (Inr True, if err \<noteq> MB_OK \<or> eom then chan_msg_done err (ch, snd s2) else (ch, snd s2)))"

definition chan_do_rx :: "rx_io \<Rightarrow> mbx_state \<Rightarrow> bool res \<times> mbx_state" where
  "chan_do_rx io s =
     (case do_sw_rx s of
        (Inl e, s1) \<Rightarrow> (Inl e, s1)
      | (Inr sw, s1) \<Rightarrow>
          if m_sw_only (snd s1) then (Inr sw, s1)
          else case do_hw_rx io s1 of (Inl e, s2) \<Rightarrow> (Inl e, s2) | (Inr hw, s2) \<Rightarrow> (Inr (sw \<or> hw), s2))"

section \<open>Sending\<close>

definition chan_msg2pkt :: "mailbox_msg \<Rightarrow> mailbox_channel \<Rightarrow> mailbox_channel" where
  "chan_msg2pkt msg ch =
     (let done = mbc_bytes_done ch; is_start = (done = 0); left = unat (mbm_len msg) - done;
          room = (if is_start then 40 else 56); is_eom = (room \<ge> left); cnt = (if is_eom then left else room);
          data = take cnt (drop done (mbm_data msg));
          front = (if is_start then le_bytes 8 (mbm_req_id msg) @ le_bytes 4 (mbm_flags msg)
                                    @ le_bytes 4 (ucast (mbm_len msg) :: u32) else []);
          body = front @ data
      in ch\<lparr>mbc_packet := \<lparr>pk_type = (if is_start then PKT_MSG_START else PKT_MSG_BODY)
                                    OR (if is_eom then PKT_TYPE_MSG_END else 0),
                           pk_payload_size = of_nat cnt,
                           pk_body = body @ drop (length body) (pk_body (mbc_packet ch))\<rparr>\<rparr>)"

text \<open>The packet that is pushed into the hardware, and the channel after it.\<close>

definition chan_send_pkt :: "u32 \<Rightarrow> mailbox_channel \<Rightarrow> mailbox_pkt res \<times> mailbox_channel" where
  "chan_send_pkt err ch =
     (let pkt = mbc_packet ch;
          ch1 = drop_pkt ch;
          ch2 = (if mbc_cur_msg ch \<noteq> None
                 then ch1\<lparr>mbc_bytes_done := mbc_bytes_done ch1 + unat (pk_payload_size pkt)\<rparr> else ch1)
      in if \<not> valid_pkt pkt then (Inl FAULT, ch)
         else if mailbox_chk_err err AND STATUS_FULL \<noteq> 0 then (Inl FAULT, ch2)
         else (Inr pkt, ch2))"

definition do_sw_tx :: "bool \<Rightarrow> mailbox_channel \<Rightarrow> unit res \<times> mailbox_channel" where
  "do_sw_tx alloc_ok ch =
     (case mbc_cur_msg ch of
        None \<Rightarrow> (Inl FAULT, ch)
      | Some msg \<Rightarrow>
          if \<not> mbm_chan_sw msg \<or> sw_chan_msg_id ch \<noteq> 0 then (Inl FAULT, ch)
          else if \<not> alloc_ok then (Inr (), ch)
          else (Inr (), ch\<lparr>sw_chan_buf := take (unat (mbm_len msg)) (mbm_data msg), sw_chan_buf_sz := mbm_len msg,
                  sw_chan_msg_id := mbm_req_id msg, sw_chan_msg_flags := ucast (mbm_flags msg),
                  mbc_bytes_done := unat (mbm_len msg), sw_num_pending_msg := sw_num_pending_msg ch + 1\<rparr>))"

definition do_hw_tx :: "u32 \<Rightarrow> mailbox_channel \<Rightarrow> mailbox_pkt res \<times> mailbox_channel" where
  "do_hw_tx err ch =
     (case mbc_cur_msg ch of
        None \<Rightarrow> (Inl FAULT, ch)
      | Some msg \<Rightarrow> if mbm_chan_sw msg then (Inl FAULT, ch) else chan_send_pkt err (chan_msg2pkt msg ch))"

definition dequeue_tx_msg :: "mailbox_channel \<Rightarrow> mailbox_channel" where
  "dequeue_tx_msg ch =
     (let (msg, ch1) = chan_msg_dequeue INVALID_MSG_ID ch
      in ch1\<lparr>mbc_cur_msg := map_option (\<lambda>m. msg_timer_on (mbc_rx ch1) (mbm_timeout_in_sec m) m) msg\<rparr>)"

definition is_tx_chan_ready :: "u32 \<Rightarrow> mbx_state \<Rightarrow> bool" where
  "is_tx_chan_ready st s =
     (let sw_ready = (sw_chan_msg_id (fst s) = 0) in
      if m_sw_only (snd s) then sw_ready
      else sw_ready \<and> st \<noteq> 0xFFFFFFFF \<and> st AND STATUS_STA \<noteq> 0)"

text \<open>The result: whether data was sent, and the packet that went into the hardware, if any.\<close>

definition chan_do_tx :: "u32 \<Rightarrow> u32 \<Rightarrow> bool \<Rightarrow> mbx_state \<Rightarrow> (bool \<times> mailbox_pkt option) res \<times> mbx_state" where
  "chan_do_tx st err alloc_ok s =
     (let chan_ready = is_tx_chan_ready st s;
          s1 = (case mbc_cur_msg (fst s) of
                  Some msg \<Rightarrow> if unat (mbm_len msg) = mbc_bytes_done (fst s) then chan_msg_done MB_OK s else s
                | None \<Rightarrow> s);
          ch = (if mbc_cur_msg (fst s1) = None then dequeue_tx_msg (fst s1) else fst s1)
      in if \<not> chan_ready then (Inr (False, None), (ch, snd s1))
         else case mbc_cur_msg ch of
           Some msg \<Rightarrow>
             if mbm_chan_sw msg \<or> m_sw_only (snd s1)
             then (case do_sw_tx alloc_ok ch of
                     (Inl e, ch') \<Rightarrow> (Inl e, (ch', snd s1))
                   | (Inr _, ch') \<Rightarrow> (Inr (True, None), (ch', snd s1)))
             else (case do_hw_tx err ch of
                     (Inl e, ch') \<Rightarrow> (Inl e, (ch', snd s1))
                   | (Inr pkt, ch') \<Rightarrow> (Inr (True, Some pkt), (ch', snd s1)))
         | None \<Rightarrow>
             if valid_pkt (mbx_tst_pkt (snd s1)) \<and> \<not> m_sw_only (snd s1)
             then (case chan_send_pkt err (ch\<lparr>mbc_packet := mbx_tst_pkt (snd s1)\<rparr>) of
                     (Inl e, ch') \<Rightarrow> (Inl e, (ch', snd s1))
                   | (Inr pkt, ch') \<Rightarrow>
                       (Inr (False, Some pkt), (ch', (snd s1)\<lparr>mbx_tst_pkt := reset_pkt (mbx_tst_pkt (snd s1))\<rparr>)))
             else (Inr (False, None), (ch, snd s1)))"

section \<open>Whatever the peer sends\<close>

text \<open>
  The invariant of a receiving channel: between two calls its packet is invalid; a message, waiting
  or current, has a buffer of at least its length, and no more bytes of the current one are done.
\<close>

definition msg_ok :: "mailbox_msg \<Rightarrow> bool" where
  "msg_ok msg \<longleftrightarrow> unat (mbm_len msg) \<le> length (mbm_data msg)"

definition rx_open :: "mailbox_channel \<Rightarrow> bool" where
  "rx_open ch \<longleftrightarrow> (\<forall>msg\<in>set (mbc_msgs ch). msg_ok msg)
     \<and> (case mbc_cur_msg ch of None \<Rightarrow> mbc_bytes_done ch = 0
        | Some msg \<Rightarrow> msg_ok msg \<and> mbc_bytes_done ch \<le> unat (mbm_len msg))"

definition rx_inv :: "mailbox_channel \<Rightarrow> bool" where
  "rx_inv ch \<longleftrightarrow> rx_open ch \<and> \<not> valid_pkt (mbc_packet ch)"

text \<open>The bytes of payload a packet of the given type has room for.\<close>

definition pkt_room :: "mailbox_pkt \<Rightarrow> nat" where
  "pkt_room pkt = (if pk_type pkt AND 0xFF = PKT_MSG_START then 40 else 56)"

lemma drop_pkt_simps [simp]:
  "mbc_cur_msg (drop_pkt ch) = mbc_cur_msg ch" "mbc_msgs (drop_pkt ch) = mbc_msgs ch"
  "mbc_bytes_done (drop_pkt ch) = mbc_bytes_done ch" "\<not> valid_pkt (mbc_packet (drop_pkt ch))"
  "mbc_rx (drop_pkt ch) = mbc_rx ch" "rx_open (drop_pkt ch) = rx_open ch"
  by (simp_all add: drop_pkt_def valid_pkt_def reset_pkt_def rx_open_def split: option.split)

lemma chan_msg_done_open:
  assumes "rx_open (fst s)"
  shows "rx_open (fst (chan_msg_done err s)) \<and> mbc_cur_msg (fst (chan_msg_done err s)) = None
    \<and> mbc_bytes_done (fst (chan_msg_done err s)) = 0
    \<and> mbc_packet (fst (chan_msg_done err s)) = mbc_packet (fst s)
    \<and> mbc_msgs (fst (chan_msg_done err s)) = mbc_msgs (fst s)
    \<and> mbc_rx (fst (chan_msg_done err s)) = mbc_rx (fst s)"
  using assms by (auto simp: chan_msg_done_def rx_open_def split: option.splits)

lemma extract_ok:
  "List.extract P xs = Some (ys, x, zs) \<Longrightarrow> \<forall>y\<in>set xs. Q y \<Longrightarrow> Q x \<and> (\<forall>y\<in>set (ys @ zs). Q y)"
  by (auto simp: extract_Some_iff)

lemma chan_msg_dequeue_open:
  assumes "chan_msg_dequeue rid ch = (m, ch')" and "rx_open ch"
  shows "(\<forall>msg\<in>set (mbc_msgs ch'). msg_ok msg) \<and> (\<forall>msg. m = Some msg \<longrightarrow> msg_ok msg)
    \<and> mbc_bytes_done ch' = mbc_bytes_done ch \<and> mbc_packet ch' = mbc_packet ch
    \<and> mbc_cur_msg ch' = mbc_cur_msg ch"
  using assms extract_ok [of _ "mbc_msgs ch" _ _ _ msg_ok]
  by (fastforce simp: chan_msg_dequeue_def rx_open_def split: if_splits list.splits option.splits)

lemma dequeue_rx_msg_open:
  assumes "rx_open (fst s)" and "mbc_cur_msg (fst s) = None"
  shows "rx_open (fst (dequeue_rx_msg flags rid sz s))
    \<and> mbc_packet (fst (dequeue_rx_msg flags rid sz s)) = mbc_packet (fst s)
    \<and> mbc_bytes_done (fst (dequeue_rx_msg flags rid sz s)) = 0
    \<and> (\<forall>msg. mbc_cur_msg (fst (dequeue_rx_msg flags rid sz s)) = Some msg \<longrightarrow> sz \<le> mbm_len msg)"
proof (cases "flags AND XCL_MB_REQ_FLAG_RESPONSE \<noteq> 0")
  case True
  obtain m ch where d: "chan_msg_dequeue rid (fst s) = (m, ch)" by fastforce
  note o = chan_msg_dequeue_open [OF d assms(1)]
  have z: "mbc_bytes_done (fst s) = 0" using assms by (simp add: rx_open_def)
  show ?thesis
  proof (cases m)
    case None
    then show ?thesis using True d o assms z by (simp add: dequeue_rx_msg_def rx_open_def)
  next
    case (Some msg)
    let ?s1 = "(ch\<lparr>mbc_cur_msg := Some msg\<rparr>, snd s)"
    have open1: "rx_open (fst ?s1)" using o z Some by (simp add: rx_open_def)
    have eq: "dequeue_rx_msg flags rid sz s = (if mbm_len msg < sz then chan_msg_done EMSGSIZE ?s1 else ?s1)"
      using True d assms(2) Some by (simp add: dequeue_rx_msg_def)
    show ?thesis
    proof (cases "mbm_len msg < sz")
      case True
      then have "dequeue_rx_msg flags rid sz s = chan_msg_done EMSGSIZE ?s1" using eq by simp
      then show ?thesis using chan_msg_done_open [OF open1, of EMSGSIZE] o by simp
    next
      case False
      then have "dequeue_rx_msg flags rid sz s = ?s1" using eq by simp
      then show ?thesis using False open1 o z by (simp add: not_less)
    qed
  qed
next
  case False
  then show ?thesis using assms
    by (auto simp: dequeue_rx_msg_def rx_open_def alloc_msg_def msg_ok_def)
qed

lemma chan_pkt2msg_safe:
  assumes "rx_open ch" and "mbc_cur_msg ch = Some msg"
    and "pk_type (mbc_packet ch) AND 0xFF \<in> {PKT_MSG_START, PKT_MSG_BODY}"
    and "pk_type (mbc_packet ch) AND 0xFF = PKT_MSG_START \<longrightarrow>
      mbc_bytes_done ch = 0 \<and> ucast (msg_size (mbc_packet ch)) \<le> mbm_len msg"
    and "length (pk_body (mbc_packet ch)) = 56"
    and "unat (pk_payload_size (mbc_packet ch)) \<le> pkt_room (mbc_packet ch)"
  shows "\<exists>err ch'. chan_pkt2msg ch = (Inr err, ch') \<and> rx_open ch' \<and> \<not> valid_pkt (mbc_packet ch')"
proof -
  let ?p = "mbc_packet ch"
  let ?start = "pk_type ?p AND 0xFF = PKT_MSG_START"
  define len :: u64 where "len = (if ?start then ucast (msg_size ?p) else mbm_len msg)"
  define cnt where "cnt = unat (pk_payload_size ?p)"
  let ?d = "mbc_bytes_done ch"
  have ok: "\<forall>m\<in>set (mbc_msgs ch). msg_ok m" "msg_ok msg" "?d \<le> unat (mbm_len msg)"
    using assms(1,2) by (simp_all add: rx_open_def)
  have len: "unat len \<le> length (mbm_data msg)" "?d \<le> unat len"
    using ok(2,3) assms(4) unfolding len_def by (auto simp: msg_ok_def word_le_nat_alt)
  have lt: "unat len < 2 ^ 64" "cnt < 2 ^ 32"
    using unsigned_less [of len, where 'a = nat] unsigned_less [of "pk_payload_size ?p", where 'a = nat]
    unfolding cnt_def by simp_all
  have "unat (of_nat ?d :: u64) = ?d" using len(2) lt(1) by (intro unat_of_nat_small) simp
  then have "unat (len - of_nat ?d) = unat len - ?d"
    using len(2) by (subst unat_sub) (simp_all add: word_le_nat_alt)
  then have fits: "of_nat cnt \<le> len - of_nat ?d \<longleftrightarrow> ?d + cnt \<le> unat len"
    using len(2) lt(2) unat_of_nat_small [where 'a = 64, of cnt] by (auto simp: word_le_nat_alt)
  have room: "cnt \<le> length (if ?start then drop 16 (pk_body ?p) else pk_body ?p)"
    using assms(5,6) unfolding cnt_def by (auto simp: pkt_room_def)
  show ?thesis
    using assms(2-4) ok len fits room unfolding chan_pkt2msg_def Let_def cnt_def [symmetric]
    by (cases ?start) (auto simp: rx_open_def msg_ok_def len_def not_less not_le)
qed
text \<open>The rate check divides by the milliseconds since its window began.\<close>

definition rate_divides_by_0 :: "u64 \<Rightarrow> mailbox \<Rightarrow> bool" where
  "rate_divides_by_0 now mbx \<longleftrightarrow> mbx_recv_in_last_window mbx + 16 \<ge> RECV_WINDOW_SIZE
     \<and> (mbx_recv_in_last_window mbx = 0 \<or> now = mbx_recv_t_start mbx)"

lemma check_recv_pkt_rate_ok:
  "\<not> rate_divides_by_0 now mbx \<Longrightarrow> \<exists>b mbx'. check_recv_pkt_rate now mbx = (Inr b, mbx')"
  by (auto simp: check_recv_pkt_rate_def rate_divides_by_0_def Let_def)

lemma type_mask_valid: "pk_type p AND 0xFF \<noteq> 0 \<Longrightarrow> valid_pkt p"
  by (auto simp: valid_pkt_def)

lemma rx_prepare_open:
  assumes "rx_open (fst s)" and "s' = rx_prepare s"
  shows "rx_open (fst s') \<and> (valid_pkt (mbc_packet (fst s')) \<longrightarrow>
    mbc_packet (fst s') = mbc_packet (fst s)
    \<and> pk_type (mbc_packet (fst s)) AND 0xFF \<in> {PKT_MSG_START, PKT_MSG_BODY}
    \<and> (\<exists>msg. mbc_cur_msg (fst s') = Some msg
        \<and> (pk_type (mbc_packet (fst s)) AND 0xFF = PKT_MSG_START \<longrightarrow>
            mbc_bytes_done (fst s') = 0 \<and> ucast (msg_size (mbc_packet (fst s))) \<le> mbm_len msg)))"
proof -
  let ?p = "mbc_packet (fst s)"
  let ?s1 = "chan_msg_done EBADMSG s"
  let ?s2 = "dequeue_rx_msg (msg_flags ?p) (msg_req_id ?p) (ucast (msg_size ?p)) ?s1"
  note d = chan_msg_done_open [OF assms(1), of EBADMSG]
  have q: "rx_open (fst ?s2)" "mbc_packet (fst ?s2) = ?p" "mbc_bytes_done (fst ?s2) = 0"
    "\<forall>msg. mbc_cur_msg (fst ?s2) = Some msg \<longrightarrow> ucast (msg_size ?p) \<le> mbm_len msg"
    using dequeue_rx_msg_open [of ?s1 "msg_flags ?p" "msg_req_id ?p" "ucast (msg_size ?p)"] d by auto
  consider "pk_type ?p AND 0xFF = PKT_MSG_START" | "pk_type ?p AND 0xFF = PKT_MSG_BODY"
    | "pk_type ?p AND 0xFF \<notin> {PKT_MSG_START, PKT_MSG_BODY}" by blast
  then show ?thesis
  proof cases
    case 1
    then show ?thesis unfolding assms(2) using q by (cases "mbc_cur_msg (fst ?s2)") (auto simp: rx_prepare_def Let_def)
  next
    case 2
    then show ?thesis unfolding assms(2) using assms(1)
      by (cases "mbc_cur_msg (fst s)") (auto simp: rx_prepare_def Let_def)
  next
    case 3
    then show ?thesis unfolding assms(2) using assms(1) by (auto simp: rx_prepare_def Let_def)
  qed
qed

text \<open>
  C17. Whatever packet the peer has put into the mailbox, receiving it does not fault and keeps the
  invariant: it writes only inside the buffer of the message the packet belongs to, none of the
  \<open>BUG_ON\<close>s is reached, and the packet is used up; provided that the packet does not claim more
  payload than a packet has, and that the rate check does not divide by 0.
\<close>

theorem mailbox_rx_safe:
  assumes "rx_inv (fst s)" and "length (pk_body (io_pkt io)) = 56"
    and "unat (pk_payload_size (io_pkt io)) \<le> pkt_room (io_pkt io)"
    and "\<not> rate_divides_by_0 (io_now io) (snd s)"
  shows "\<exists>r s'. do_hw_rx io s = (Inr r, s') \<and> rx_inv (fst s')"
proof (cases "io_status io = 0xFFFFFFFF \<or> io_status io AND STATUS_RTA = 0")
  case True
  then show ?thesis using assms(1) by (auto simp: do_hw_rx_def)
next
  case False
  let ?pkt = "if mailbox_chk_err (io_error io) AND STATUS_EMPTY \<noteq> 0 then reset_pkt (io_pkt io) else io_pkt io"
  let ?m1 = "(snd s)\<lparr>mbx_recv_raw_bytes := mbx_recv_raw_bytes (snd s) + 64\<rparr>"
  have "\<not> rate_divides_by_0 (io_now io) ?m1" using assms(4) by (simp add: rate_divides_by_0_def)
  then obtain b mbx where c: "check_recv_pkt_rate (io_now io) ?m1 = (Inr b, mbx)"
    using check_recv_pkt_rate_ok by blast
  let ?s1 = "((fst s)\<lparr>mbc_packet := ?pkt\<rparr>, mbx)"
  have r: "chan_recv_pkt io s = (Inr b, ?s1)" using c assms(1) by (simp add: chan_recv_pkt_def rx_inv_def)
  have o1: "rx_open (fst ?s1)" using assms(1) by (simp add: rx_inv_def rx_open_def split: option.splits)
  show ?thesis
  proof (cases b)
    case False
    then show ?thesis using r \<open>\<not> (io_status io = 0xFFFFFFFF \<or> io_status io AND STATUS_RTA = 0)\<close> o1
      by (auto simp: do_hw_rx_def rx_inv_def)
  next
    case True
    let ?s2 = "rx_prepare ?s1"
    note p = rx_prepare_open [OF o1 refl]
    show ?thesis
    proof (cases "valid_pkt (mbc_packet (fst ?s2))")
      case False
      then show ?thesis using r True \<open>\<not> (io_status io = 0xFFFFFFFF \<or> io_status io AND STATUS_RTA = 0)\<close> p
        by (auto simp: do_hw_rx_def rx_inv_def Let_def)
    next
      case valid: True
      then obtain msg where m: "mbc_packet (fst ?s2) = ?pkt" "pk_type ?pkt AND 0xFF \<in> {PKT_MSG_START, PKT_MSG_BODY}"
        "mbc_cur_msg (fst ?s2) = Some msg" "pk_type ?pkt AND 0xFF = PKT_MSG_START \<longrightarrow>
          mbc_bytes_done (fst ?s2) = 0 \<and> ucast (msg_size ?pkt) \<le> mbm_len msg" "rx_open (fst ?s2)"
        using p by auto
      have pkt: "?pkt = io_pkt io" using m(2) by (auto simp: reset_pkt_def)
      obtain err ch where k: "chan_pkt2msg (fst ?s2) = (Inr err, ch)" "rx_open ch" "\<not> valid_pkt (mbc_packet ch)"
        using chan_pkt2msg_safe [OF m(5,3)] m(1,2,4) assms(2,3) unfolding pkt by auto
      have "rx_inv (fst (chan_msg_done err (ch, snd ?s2)))"
        using chan_msg_done_open [of "(ch, snd ?s2)" err] k by (simp add: rx_inv_def)
      then show ?thesis using r True valid k
          \<open>\<not> (io_status io = 0xFFFFFFFF \<or> io_status io AND STATUS_RTA = 0)\<close>
        by (auto simp: do_hw_rx_def rx_inv_def Let_def)
    qed
  qed
qed

text \<open>
  C19. The payload size of a packet is not compared with the size of a packet: a body packet that
  claims more than its 56 bytes, but not more than the message still misses, makes the driver read
  behind the packet.
\<close>

theorem body_packet_overread:
  assumes "mbc_cur_msg ch = Some msg" and "pk_type (mbc_packet ch) = PKT_MSG_BODY"
    and "length (pk_body (mbc_packet ch)) = 56" and "msg_ok msg"
    and "mbc_bytes_done ch \<le> unat (mbm_len msg)"
  shows "fst (chan_pkt2msg ch) = Inl FAULT \<longleftrightarrow> 56 < unat (pk_payload_size (mbc_packet ch))
    \<and> unat (pk_payload_size (mbc_packet ch)) \<le> unat (mbm_len msg) - mbc_bytes_done ch"
proof -
  define cnt where "cnt = unat (pk_payload_size (mbc_packet ch))"
  have lt: "unat (mbm_len msg) < 2 ^ 64" "cnt < 2 ^ 32"
    using unsigned_less [of "mbm_len msg", where 'a = nat]
      unsigned_less [of "pk_payload_size (mbc_packet ch)", where 'a = nat] unfolding cnt_def by simp_all
  have "unat (of_nat (mbc_bytes_done ch) :: u64) = mbc_bytes_done ch"
    using assms(5) lt(1) by (intro unat_of_nat_small) simp
  then have "unat (mbm_len msg - of_nat (mbc_bytes_done ch)) = unat (mbm_len msg) - mbc_bytes_done ch"
    using assms(5) by (subst unat_sub) (simp_all add: word_le_nat_alt)
  then have fits: "of_nat cnt > mbm_len msg - of_nat (mbc_bytes_done ch)
      \<longleftrightarrow> cnt > unat (mbm_len msg) - mbc_bytes_done ch"
    using lt(2) unat_of_nat_small [where 'a = 64, of cnt] by (simp add: word_less_nat_alt)
  show ?thesis using assms fits unfolding chan_pkt2msg_def Let_def cnt_def [symmetric]
    by (auto simp: msg_ok_def)
qed

text \<open>
  A response with the id that marks an invalid message is taken for the response to the oldest
  waiting request, whatever its id.
\<close>

theorem wildcard_response:
  assumes "mbc_cur_msg (fst s) = None" and "mbc_msgs (fst s) = msg # msgs"
    and "pk_type (mbc_packet (fst s)) = PKT_MSG_START" and "msg_flags (mbc_packet (fst s)) = XCL_MB_REQ_FLAG_RESPONSE"
    and "msg_req_id (mbc_packet (fst s)) = INVALID_MSG_ID" and "ucast (msg_size (mbc_packet (fst s))) \<le> mbm_len msg"
  shows "mbc_cur_msg (fst (rx_prepare s)) = Some msg \<and> mbc_msgs (fst (rx_prepare s)) = msgs"
  using assms by (simp add: rx_prepare_def chan_msg_done_def dequeue_rx_msg_def chan_msg_dequeue_def Let_def not_less)
section \<open>A message arrives as it was sent\<close>

lemma bit_of_le:
  "bit (of_le bs :: 'a::len word) k \<longleftrightarrow>
    k < LENGTH('a) \<and> k div 8 < length bs \<and> bit (bs ! (k div 8)) (k mod 8)"
proof (induction bs arbitrary: k)
  case Nil
  show ?case by simp
next
  case (Cons b bs)
  show ?case
  proof (cases "k < 8")
    case True
    then show ?thesis by (auto simp: bit_simps)
  next
    case False
    then have k: "k div 8 = Suc ((k - 8) div 8)" "k mod 8 = (k - 8) mod 8" by (simp_all add: le_div_geq le_mod_geq)
    have "\<not> bit b k" using False bit_imp_le_length [of b k] by auto
    then show ?thesis using False Cons.IH [of "k - 8"] k by (auto simp: bit_simps)
  qed
qed

lemma of_le_le_bytes:
  fixes w :: "'a::len word"
  assumes "LENGTH('a) \<le> 8 * n"
  shows "of_le (le_bytes n w) = w"
proof (rule bit_word_eqI)
  fix k assume k: "k < LENGTH('a)"
  have "k div 8 < n" using k assms by (simp add: div_less_iff_less_mult)
  moreover have "8 * (k div 8) + k mod 8 = k" by simp
  ultimately show "bit (of_le (le_bytes n w) :: 'a word) k = bit w k"
    using k unfolding bit_of_le by (simp add: le_bytes_def bit_simps)
qed

lemma length_le_bytes [simp]: "length (le_bytes n w) = n"
  by (simp add: le_bytes_def)

text \<open>The number of payload bytes of the next packet of a message of \<open>n\<close> bytes.\<close>

definition pkt_cnt :: "nat \<Rightarrow> nat \<Rightarrow> nat" where
  "pkt_cnt n done = min (if done = 0 then 40 else 56) (n - done)"

definition sendable :: "mailbox_msg \<Rightarrow> bool" where
  "sendable msg \<longleftrightarrow> \<not> mbm_chan_sw msg \<and> unat (mbm_len msg) = length (mbm_data msg)
     \<and> mbm_len msg < MAX_MSG_SZ"

definition sending :: "mailbox_msg \<Rightarrow> nat \<Rightarrow> mailbox_channel \<Rightarrow> bool" where
  "sending msg d ch \<longleftrightarrow> mbc_cur_msg ch = Some msg \<and> mbc_bytes_done ch = d
     \<and> length (pk_body (mbc_packet ch)) = 56"

text \<open>A packet that carries the bytes of \<open>data\<close> from \<open>d\<close> on.\<close>

definition carries :: "mailbox_msg \<Rightarrow> nat \<Rightarrow> mailbox_pkt \<Rightarrow> bool" where
  "carries msg d pkt \<longleftrightarrow>
     (let n = length (mbm_data msg); cnt = pkt_cnt n d in
      pk_type pkt = (if d = 0 then PKT_MSG_START else PKT_MSG_BODY)
          OR (if d + cnt = n then PKT_TYPE_MSG_END else 0)
      \<and> unat (pk_payload_size pkt) = cnt \<and> length (pk_body pkt) = 56
      \<and> take cnt (if d = 0 then drop 16 (pk_body pkt) else pk_body pkt) = take cnt (drop d (mbm_data msg))
      \<and> (d = 0 \<longrightarrow> msg_req_id pkt = mbm_req_id msg \<and> msg_flags pkt = mbm_flags msg
            \<and> ucast (msg_size pkt) = mbm_len msg))"

lemma do_hw_tx_carries:
  assumes "sending msg d ch" and "sendable msg" and "d \<le> length (mbm_data msg)"
  shows "\<exists>pkt ch'. do_hw_tx 0 ch = (Inr pkt, ch') \<and> carries msg d pkt
    \<and> sending msg (d + pkt_cnt (length (mbm_data msg)) d) ch'"
proof -
  let ?n = "length (mbm_data msg)"
  define cnt where "cnt = pkt_cnt ?n d"
  let ?pkt = "mbc_packet (chan_msg2pkt msg ch)"
  let ?front = "if d = 0 then le_bytes 8 (mbm_req_id msg) @ le_bytes 4 (mbm_flags msg)
      @ le_bytes 4 (ucast (mbm_len msg) :: u32) else []"
  let ?body = "?front @ take cnt (drop d (mbm_data msg))"
  have s: "mbc_cur_msg ch = Some msg" "mbc_bytes_done ch = d" "length (pk_body (mbc_packet ch)) = 56"
    using assms(1) by (simp_all add: sending_def)
  have n: "unat (mbm_len msg) = ?n" "\<not> mbm_chan_sw msg" using assms(2) by (simp_all add: sendable_def)
  have cnt: "cnt \<le> 56" "d = 0 \<longrightarrow> cnt \<le> 40" "cnt \<le> ?n - d" by (auto simp: cnt_def pkt_cnt_def)
  have eom: "(if d = 0 then 40 else 56) \<ge> ?n - d \<longleftrightarrow> d + cnt = ?n"
    using assms(3) by (auto simp: cnt_def pkt_cnt_def)
  have c: "(if d + cnt = ?n then ?n - d else (if d = 0 then 40 else 56)) = cnt"
    unfolding eom [symmetric] by (auto simp: cnt_def pkt_cnt_def)
  have pkt: "?pkt = \<lparr>pk_type = (if d = 0 then PKT_MSG_START else PKT_MSG_BODY)
        OR (if d + cnt = ?n then PKT_TYPE_MSG_END else 0), pk_payload_size = of_nat cnt,
      pk_body = ?body @ drop (length ?body) (pk_body (mbc_packet ch))\<rparr>"
    unfolding chan_msg2pkt_def Let_def s(2) n(1) eom c by simp
  have sz: "unat (of_nat cnt :: u32) = cnt" using cnt(1) by (intro unat_of_nat_small) simp
  have len: "length ?body \<le> 56" using cnt by auto
  have tlen: "length (take cnt (drop d (mbm_data msg))) = cnt" using cnt(3) by simp
  have small: "unat (mbm_len msg) < 2 ^ 32" using assms(2) by (simp add: sendable_def word_less_nat_alt)
  have "ucast (ucast (mbm_len msg) :: u32) = mbm_len msg"
    using small by (intro unsigned_word_eqI [where 'a = nat]) (simp add: unsigned_ucast_eq unsigned_take_bit_eq take_bit_nat_eq_self)
  then have "carries msg d ?pkt" using len s(3) sz tlen cnt unfolding carries_def Let_def cnt_def [symmetric] pkt
    by (auto simp: msg_req_id_def msg_flags_def msg_size_def of_le_le_bytes)
  have v: "valid_pkt ?pkt" unfolding pkt by (auto simp: valid_pkt_def)
  have f: "mbc_cur_msg (chan_msg2pkt msg ch) = Some msg" "mbc_bytes_done (chan_msg2pkt msg ch) = d"
    using s by (simp_all add: chan_msg2pkt_def Let_def)
  have "unat (pk_payload_size ?pkt) = cnt" "length (pk_body ?pkt) = 56"
    using \<open>carries msg d ?pkt\<close> by (simp_all add: carries_def Let_def cnt_def)
  then show ?thesis using \<open>carries msg d ?pkt\<close> v f s(1) n(2) unfolding cnt_def [symmetric]
    by (simp add: do_hw_tx_def chan_send_pkt_def mailbox_chk_err_def sending_def Let_def drop_pkt_def reset_pkt_def)
qed
definition pkt_io :: "u64 \<Rightarrow> mailbox_pkt \<Rightarrow> rx_io" where
  "pkt_io now pkt = \<lparr>io_status = STATUS_RTA, io_pkt = pkt, io_error = 0, io_now = now\<rparr>"

text \<open>Sending and receiving \<open>n\<close> packets through the hardware.\<close>

primrec xfer :: "nat \<Rightarrow> u64 \<Rightarrow> mailbox_channel \<Rightarrow> mbx_state \<Rightarrow> (mailbox_channel \<times> mbx_state) option" where
  "xfer 0 now tx rx = Some (tx, rx)"
| "xfer (Suc n) now tx rx =
     (case do_hw_tx 0 tx of
        (Inl e, tx') \<Rightarrow> None
      | (Inr pkt, tx') \<Rightarrow>
          (case do_hw_rx (pkt_io now pkt) rx of (Inl e, rx') \<Rightarrow> None | (Inr r, rx') \<Rightarrow> xfer n now tx' rx'))"

text \<open>
  The receiver has the first \<open>d\<close> bytes of the message, the list of requests is as in \<open>mbx0\<close>, and the
  window of the rate check has room for \<open>k\<close> more packets.
\<close>

definition receiving :: "mailbox_msg \<Rightarrow> nat \<Rightarrow> mailbox \<Rightarrow> nat \<Rightarrow> mbx_state \<Rightarrow> bool" where
  "receiving msg d mbx0 k s \<longleftrightarrow> mbc_rx (fst s) \<and> \<not> valid_pkt (mbc_packet (fst s)) \<and> mbc_bytes_done (fst s) = d
     \<and> mbx_req_list (snd s) = mbx_req_list mbx0 \<and> mbx_req_cnt (snd s) = mbx_req_cnt mbx0
     \<and> mbx_req_sz (snd s) = mbx_req_sz mbx0
     \<and> unat (mbx_recv_in_last_window (snd s)) + 16 * k < 0x8000
     \<and> (if d = 0 then mbc_cur_msg (fst s) = None
        else \<exists>m. mbc_cur_msg (fst s) = Some m \<and> take d (mbm_data m) = take d (mbm_data msg)
          \<and> length (mbm_data m) = length (mbm_data msg) \<and> mbm_len m = mbm_len msg
          \<and> mbm_req_id m = mbm_req_id msg \<and> mbm_flags m = mbm_flags msg \<and> \<not> mbm_cb m)"

definition delivered :: "mailbox_msg \<Rightarrow> mailbox \<Rightarrow> mbx_state \<Rightarrow> bool" where
  "delivered msg mbx0 s \<longleftrightarrow> mbc_cur_msg (fst s) = None \<and>
     (\<exists>m. mbx_req_list (snd s) = mbx_req_list mbx0 @ [m] \<and> mbm_data m = mbm_data msg \<and> mbm_len m = mbm_len msg
        \<and> mbm_req_id m = mbm_req_id msg \<and> mbm_flags m = mbm_flags msg \<and> mbm_error m = MB_OK)"

definition takes_request :: "mailbox_msg \<Rightarrow> mailbox \<Rightarrow> bool" where
  "takes_request msg mbx \<longleftrightarrow> mbm_flags msg AND XCL_MB_REQ_FLAG_RESPONSE = 0
     \<and> mbm_flags msg AND XCL_MB_REQ_FLAG_REQUEST \<noteq> 0
     \<and> mbx_req_sz mbx + mbm_len msg < MAX_MSG_QUEUE_SZ \<and> mbx_req_cnt mbx < MAX_MSG_QUEUE_LEN"

lemma rate_ok:
  assumes "unat (mbx_recv_in_last_window mbx) + 16 * Suc k < 0x8000"
  shows "\<exists>mbx'. check_recv_pkt_rate now mbx = (Inr True, mbx') \<and> mbx_req_list mbx' = mbx_req_list mbx
    \<and> mbx_req_cnt mbx' = mbx_req_cnt mbx \<and> mbx_req_sz mbx' = mbx_req_sz mbx
    \<and> unat (mbx_recv_in_last_window mbx') + 16 * k < 0x8000"
proof -
  let ?w = "mbx_recv_in_last_window mbx"
  have "unat (?w + 16) = unat ?w + 16" using assms by (simp add: unat_word_ariths)
  then have "?w + 16 < RECV_WINDOW_SIZE" "unat (?w + 16) + 16 * k < 0x8000"
    using assms by (simp_all add: word_less_nat_alt)
  then show ?thesis by (simp add: check_recv_pkt_rate_def Let_def)
qed

lemma type_bits:
  "(PKT_MSG_START OR PKT_TYPE_MSG_END) AND 0xFF = PKT_MSG_START" "(PKT_MSG_BODY OR PKT_TYPE_MSG_END) AND 0xFF = PKT_MSG_BODY"
  by simp_all

text \<open>The packet meets its message: the channel after \<open>rx_prepare\<close> expects the bytes from \<open>d\<close> on.\<close>

lemma rx_prepare_carries:
  assumes "carries msg d pkt" and "receiving msg d mbx0 k (ch, mbx)" and "sendable msg" and "takes_request msg mbx0"
  shows "\<exists>m ch'. rx_prepare (ch\<lparr>mbc_packet := pkt\<rparr>, mbx') = (ch', mbx') \<and> mbc_packet ch' = pkt \<and> mbc_rx ch'
    \<and> mbc_bytes_done ch' = d \<and> mbc_cur_msg ch' = Some m \<and> take d (mbm_data m) = take d (mbm_data msg)
    \<and> length (mbm_data m) = length (mbm_data msg) \<and> mbm_len m = mbm_len msg
    \<and> mbm_req_id m = mbm_req_id msg \<and> mbm_flags m = mbm_flags msg \<and> \<not> mbm_cb m"
proof (cases "d = 0")
  case True
  then have "pk_type pkt AND 0xFF = PKT_MSG_START"
    using assms(1) by (simp add: carries_def Let_def)
  then show ?thesis using True assms
    by (simp add: rx_prepare_def carries_def receiving_def sendable_def takes_request_def chan_msg_done_def
        dequeue_rx_msg_def alloc_msg_def Let_def)
next
  case False
  then have "pk_type pkt AND 0xFF = PKT_MSG_BODY"
    using assms(1) by (simp add: carries_def Let_def)
  then show ?thesis using False assms(2) by (auto simp: rx_prepare_def receiving_def Let_def)
qed

lemma chan_pkt2msg_carries:
  assumes "carries msg d (mbc_packet ch)" and "sendable msg" and "d \<le> length (mbm_data msg)"
    and "mbc_bytes_done ch = d" and "mbc_cur_msg ch = Some m" and "take d (mbm_data m) = take d (mbm_data msg)"
    and "length (mbm_data m) = length (mbm_data msg)" and "mbm_len m = mbm_len msg"
    and "mbm_req_id m = mbm_req_id msg"
  shows "\<exists>m'. chan_pkt2msg ch = (Inr MB_OK, drop_pkt (ch\<lparr>mbc_cur_msg := Some (m\<lparr>mbm_data := m'\<rparr>),
      mbc_bytes_done := d + pkt_cnt (length (mbm_data msg)) d\<rparr>))
    \<and> take (d + pkt_cnt (length (mbm_data msg)) d) m' = take (d + pkt_cnt (length (mbm_data msg)) d) (mbm_data msg)
    \<and> length m' = length (mbm_data msg)"
proof -
  let ?p = "mbc_packet ch" and ?n = "length (mbm_data msg)"
  define cnt where "cnt = pkt_cnt ?n d"
  let ?start = "pk_type ?p AND 0xFF = PKT_MSG_START"
  define src where "src = (if ?start then drop 16 (pk_body ?p) else pk_body ?p)"
  have ty: "?start = (d = 0)" "pk_type ?p AND 0xFF = (if d = 0 then PKT_MSG_START else PKT_MSG_BODY)"
    using assms(1) by (auto simp: carries_def Let_def)
  have p: "unat (pk_payload_size ?p) = cnt" "take cnt src = take cnt (drop d (mbm_data msg))"
    "d = 0 \<longrightarrow> msg_req_id ?p = mbm_req_id msg \<and> ucast (msg_size ?p) = mbm_len msg" "length (pk_body ?p) = 56"
    using assms(1) ty unfolding src_def by (auto simp: carries_def Let_def cnt_def)
  have cnt: "d + cnt \<le> ?n" "cnt \<le> length src"
    using assms(3) p(4) ty unfolding src_def by (auto simp: cnt_def pkt_cnt_def)
  have n: "unat (mbm_len msg) = ?n" "?n < 2 ^ 32" using assms(2) by (auto simp: sendable_def word_less_nat_alt)
  have u: "unat (of_nat d :: u64) = d" "unat (of_nat cnt :: u64) = cnt"
    using cnt n by (auto intro!: unat_of_nat_small)
  have "unat (mbm_len msg - of_nat d) = ?n - d" using u(1) n assms(3) by (subst unat_sub) (simp_all add: word_le_nat_alt)
  then have fits: "\<not> of_nat cnt > mbm_len msg - of_nat d" using u cnt by (simp add: word_less_nat_alt)
  let ?m' = "take d (mbm_data m) @ take cnt src @ drop (d + cnt) (mbm_data m)"
  have upd: "m\<lparr>mbm_req_id := mbm_req_id msg, mbm_len := mbm_len msg, mbm_data := x\<rparr> = m\<lparr>mbm_data := x\<rparr>" for x
    using assms(8,9) by (intro mailbox_msg.equality) simp_all
  have "chan_pkt2msg ch = (Inr MB_OK, drop_pkt (ch\<lparr>mbc_cur_msg := Some (m\<lparr>mbm_data := ?m'\<rparr>), mbc_bytes_done := d + cnt\<rparr>))"
    using fits cnt ty p assms(4,5,7,8) unfolding chan_pkt2msg_def Let_def src_def [symmetric] p(1) by (auto simp: upd)
  moreover have "take (d + cnt) ?m' = take (d + cnt) (mbm_data msg)"
    using cnt assms(6,7) p(2) by (simp add: take_add)
  moreover have "length ?m' = ?n" using cnt assms(7) by simp
  ultimately show ?thesis unfolding cnt_def by blast
qed
lemma do_hw_rx_carries:
  assumes "carries msg d pkt" and "receiving msg d mbx0 (Suc k) s" and "sendable msg"
    and "takes_request msg mbx0" and "d \<le> length (mbm_data msg)"
  shows "\<exists>r s'. do_hw_rx (pkt_io now pkt) s = (Inr r, s')
    \<and> (if d + pkt_cnt (length (mbm_data msg)) d = length (mbm_data msg) then delivered msg mbx0 s'
       else receiving msg (d + pkt_cnt (length (mbm_data msg)) d) mbx0 k s')"
proof -
  obtain ch mbx where s: "s = (ch, mbx)" by fastforce
  let ?n = "length (mbm_data msg)"
  define d' where "d' = d + pkt_cnt ?n d"
  let ?m1 = "mbx\<lparr>mbx_recv_raw_bytes := mbx_recv_raw_bytes mbx + 64\<rparr>"
  have "unat (mbx_recv_in_last_window ?m1) + 16 * Suc k < 0x8000"
    using assms(2) unfolding s receiving_def by simp
  from rate_ok [OF this, of now] obtain mbx' where c: "check_recv_pkt_rate now ?m1 = (Inr True, mbx')"
    "mbx_req_list mbx' = mbx_req_list mbx0" "mbx_req_cnt mbx' = mbx_req_cnt mbx0"
    "mbx_req_sz mbx' = mbx_req_sz mbx0" "unat (mbx_recv_in_last_window mbx') + 16 * k < 0x8000"
    using assms(2) unfolding s receiving_def by auto
  have r: "chan_recv_pkt (pkt_io now pkt) s = (Inr True, (ch\<lparr>mbc_packet := pkt\<rparr>, mbx'))"
    using c(1) assms(2) unfolding s by (simp add: chan_recv_pkt_def pkt_io_def receiving_def mailbox_chk_err_def)
  obtain m ch' where p: "rx_prepare (ch\<lparr>mbc_packet := pkt\<rparr>, mbx') = (ch', mbx')" "mbc_packet ch' = pkt" "mbc_rx ch'"
    "mbc_bytes_done ch' = d" "mbc_cur_msg ch' = Some m" "take d (mbm_data m) = take d (mbm_data msg)"
    "length (mbm_data m) = ?n" "mbm_len m = mbm_len msg" "mbm_req_id m = mbm_req_id msg"
    "mbm_flags m = mbm_flags msg" "\<not> mbm_cb m"
    using rx_prepare_carries [OF assms(1) _ assms(3,4)] assms(2) unfolding s by metis
  obtain dat where k: "chan_pkt2msg ch' = (Inr MB_OK, drop_pkt (ch'\<lparr>mbc_cur_msg := Some (m\<lparr>mbm_data := dat\<rparr>),
      mbc_bytes_done := d'\<rparr>))" "take d' dat = take d' (mbm_data msg)" "length dat = ?n"
    using chan_pkt2msg_carries [of msg d ch' m] assms(1,3,5) p unfolding d'_def by auto
  have t: "valid_pkt pkt" "pk_type pkt AND PKT_TYPE_MSG_END \<noteq> 0 \<longleftrightarrow> d' = ?n"
    using assms(1) by (auto simp: carries_def valid_pkt_def d'_def Let_def)
  let ?ch2 = "drop_pkt (ch'\<lparr>mbc_cur_msg := Some (m\<lparr>mbm_data := dat\<rparr>), mbc_bytes_done := d'\<rparr>)"
  have x: "do_hw_rx (pkt_io now pkt) s =
      (Inr True, if d' = ?n then chan_msg_done MB_OK (?ch2, mbx') else (?ch2, mbx'))"
    unfolding do_hw_rx_def r using p(1,2) k(1) t by (simp add: pkt_io_def Let_def)
  show ?thesis
  proof (cases "d' = ?n")
    case True
    then have "dat = mbm_data msg" using k(2,3) by simp
    then have "delivered msg mbx0 (chan_msg_done MB_OK (?ch2, mbx'))"
      using assms(4) p c(2-4) by (simp add: chan_msg_done_def msg_done_def delivered_def takes_request_def Let_def not_le)
    then show ?thesis using x True unfolding d'_def by auto
  next
    case False
    then have "0 < d'" using assms(5) by (auto simp: d'_def pkt_cnt_def split: if_splits)
    then have "receiving msg d' mbx0 k (?ch2, mbx')"
      using c(2-5) p k(2,3) by (simp add: receiving_def)
    then show ?thesis using x False unfolding d'_def by auto
  qed
qed

lemma xfer_delivers:
  assumes "sendable msg" and "takes_request msg mbx0"
  shows "sending msg d tx \<Longrightarrow> receiving msg d mbx0 k rx \<Longrightarrow> d = 0 \<or> d < length (mbm_data msg) \<Longrightarrow>
    (if d = 0 then 2 else 1) + (length (mbm_data msg) - d) div 56 \<le> k \<Longrightarrow>
    \<exists>n tx' rx'. xfer n now tx rx = Some (tx', rx') \<and> sending msg (length (mbm_data msg)) tx' \<and> delivered msg mbx0 rx'"
proof (induction "length (mbm_data msg) - d" arbitrary: d tx rx k rule: less_induct)
  case less
  let ?n = "length (mbm_data msg)"
  define d' where "d' = d + pkt_cnt ?n d"
  have le: "d \<le> ?n" using less.prems(3) by auto
  obtain k' where k: "k = Suc k'" using less.prems(4) by (cases k) (auto split: if_splits)
  obtain pkt tx' where t: "do_hw_tx 0 tx = (Inr pkt, tx')" "carries msg d pkt" "sending msg d' tx'"
    using do_hw_tx_carries [OF less.prems(1) assms(1) le] unfolding d'_def by blast
  obtain r rx' where x: "do_hw_rx (pkt_io now pkt) rx = (Inr r, rx')"
    "if d' = ?n then delivered msg mbx0 rx' else receiving msg d' mbx0 k' rx'"
    using do_hw_rx_carries [OF t(2) less.prems(2) [unfolded k] assms le] unfolding d'_def by blast
  show ?case
  proof (cases "d' = ?n")
    case True
    then have "xfer 1 now tx rx = Some (tx', rx')" using t(1) x(1) by simp
    then show ?thesis using True t(3) x(2) by (metis (full_types))
  next
    case False
    have c: "pkt_cnt ?n d = (if d = 0 then 40 else 56)" "d' < ?n"
      using False le unfolding d'_def pkt_cnt_def by (auto simp: min_def split: if_splits)
    have "1 + (?n - d') div 56 \<le> k'"
    proof (cases "d = 0")
      case True
      have "(?n - 40) div 56 \<le> ?n div 56" by (rule div_le_mono) simp
      then show ?thesis using True c(1) less.prems(4) k unfolding d'_def by simp
    next
      case False
      then have "?n - d = 56 + (?n - d')" using c unfolding d'_def by simp
      then have "(?n - d) div 56 = 1 + (?n - d') div 56" by simp
      then show ?thesis using False less.prems(4) k by simp
    qed
    moreover have "d' \<noteq> 0" "?n - d' < ?n - d" using c unfolding d'_def by (auto split: if_splits)
    ultimately obtain n t2 r2 where "xfer n now tx' rx' = Some (t2, r2)" "sending msg ?n t2" "delivered msg mbx0 r2"
      using less.hyps [of d' tx' k' rx'] t(3) x(2) False c(2) by auto
    moreover have "xfer (Suc n) now tx rx = xfer n now tx' rx'" using t(1) x(1) by simp
    ultimately show ?thesis by metis
  qed
qed

text \<open>
  C18. A request arrives as it was sent: the sender cuts the message into packets until all its bytes
  are done, and the receiver that gets these packets puts together a request with the same data,
  length, id and flags and appends it to its list of requests. The message is smaller than the
  limit, the receiver is idle, has room for the request, and the window of its rate check has room
  for the packets.
\<close>

theorem mailbox_round_trip:
  assumes "mbc_cur_msg tx = Some msg" and "mbc_bytes_done tx = 0" and "length (pk_body (mbc_packet tx)) = 56"
    and "sendable msg" and "takes_request msg (snd rx)" and "mbc_rx (fst rx)"
    and "mbc_cur_msg (fst rx) = None" and "rx_inv (fst rx)"
    and "unat (mbx_recv_in_last_window (snd rx)) + 16 * (2 + length (mbm_data msg) div 56) < 0x8000"
  shows "\<exists>n tx' rx' m. xfer n now tx rx = Some (tx', rx') \<and> mbc_bytes_done tx' = length (mbm_data msg)
    \<and> mbc_cur_msg (fst rx') = None \<and> mbx_req_list (snd rx') = mbx_req_list (snd rx) @ [m]
    \<and> mbm_data m = mbm_data msg \<and> mbm_len m = mbm_len msg \<and> mbm_req_id m = mbm_req_id msg
    \<and> mbm_flags m = mbm_flags msg \<and> mbm_error m = MB_OK"
proof -
  have "sending msg 0 tx" using assms(1-3) by (simp add: sending_def)
  moreover have "receiving msg 0 (snd rx) (2 + length (mbm_data msg) div 56) rx"
    using assms(6-9) by (simp add: receiving_def rx_inv_def rx_open_def)
  ultimately show ?thesis
    using xfer_delivers [OF assms(4,5), of 0 tx "2 + length (mbm_data msg) div 56" rx now]
    by (auto simp: delivered_def sending_def) blast
qed
section \<open>Instances\<close>

definition demo_mbm :: mailbox_msg where
  "demo_mbm = \<lparr>mbm_req_id = 7, mbm_data = replicate 100 5, mbm_len = 100, mbm_error = MB_OK, mbm_cb = False,
     mbm_flags = XCL_MB_REQ_FLAG_REQUEST, mbm_timeout_in_sec = 0, mbm_ttl = 20, mbm_chan_sw = False\<rparr>"

definition demo_chan :: "bool \<Rightarrow> mailbox_msg option \<Rightarrow> mailbox_channel" where
  "demo_chan rx cur = \<lparr>mbc_rx = rx, mbc_stop = False, mbc_tick = False, mbc_msgs = [demo_mbm], mbc_cur_msg = cur,
     mbc_bytes_done = 0, mbc_packet = \<lparr>pk_type = PKT_INVALID, pk_payload_size = 0, pk_body = replicate 56 0\<rparr>,
     sw_chan_buf = [], sw_chan_buf_sz = 0, sw_chan_msg_id = 0, sw_chan_msg_flags = 0, sw_num_pending_msg = 0\<rparr>"

definition demo_mbx :: mailbox where
  "demo_mbx = \<lparr>m_done = [], m_sw_only = False, mbx_req_list = [], mbx_req_cnt = 0, mbx_req_sz = 0,
     mbx_tst_pkt = \<lparr>pk_type = PKT_INVALID, pk_payload_size = 0, pk_body = replicate 56 0\<rparr>, mbx_recv_t_start = 0,
     mbx_recv_in_last_window = 0, mbx_recv_raw_bytes = 0, mbx_intr_on = True\<rparr>"

theorem mailbox_rx_safe_witness:
  "\<exists>r s'. do_hw_rx (pkt_io 5 \<lparr>pk_type = PKT_MSG_BODY, pk_payload_size = 56, pk_body = replicate 56 1\<rparr>)
      (demo_chan True (Some demo_mbm), demo_mbx) = (Inr r, s') \<and> rx_inv (fst s')"
  by (rule mailbox_rx_safe)
    (simp_all add: demo_chan_def demo_mbm_def demo_mbx_def rx_inv_def rx_open_def msg_ok_def valid_pkt_def
      pkt_io_def pkt_room_def rate_divides_by_0_def)

theorem body_packet_overread_witness:
  "fst (chan_pkt2msg ((demo_chan True (Some demo_mbm))\<lparr>mbc_packet :=
      \<lparr>pk_type = PKT_MSG_BODY, pk_payload_size = 80, pk_body = replicate 56 1\<rparr>\<rparr>)) = Inl FAULT"
  using body_packet_overread [of "(demo_chan True (Some demo_mbm))\<lparr>mbc_packet :=
      \<lparr>pk_type = PKT_MSG_BODY, pk_payload_size = 80, pk_body = replicate 56 1\<rparr>\<rparr>" demo_mbm]
  by (simp add: demo_chan_def demo_mbm_def msg_ok_def)

theorem wildcard_response_witness:
  "mbc_cur_msg (fst (rx_prepare ((demo_chan True None)\<lparr>mbc_packet := \<lparr>pk_type = PKT_MSG_START,
     pk_payload_size = 0, pk_body = replicate 8 0xFF @ [1, 0, 0, 0, 4, 0, 0, 0] @ replicate 40 0\<rparr>\<rparr>, demo_mbx)))
   = Some demo_mbm"
proof -
  let ?s = "((demo_chan True None)\<lparr>mbc_packet := \<lparr>pk_type = PKT_MSG_START,
     pk_payload_size = 0, pk_body = replicate 8 0xFF @ [1, 0, 0, 0, 4, 0, 0, 0] @ replicate 40 0\<rparr>\<rparr>, demo_mbx)"
  have "msg_req_id (mbc_packet (fst ?s)) = INVALID_MSG_ID" "msg_flags (mbc_packet (fst ?s)) = 1"
    "msg_size (mbc_packet (fst ?s)) = 4" by code_simp+
  then show ?thesis using wildcard_response [of ?s demo_mbm "[]"] by (simp add: demo_chan_def demo_mbm_def)
qed

theorem mailbox_round_trip_witness:
  "\<exists>n tx' rx' m. xfer n 5 (demo_chan False (Some demo_mbm)) (demo_chan True None, demo_mbx) = Some (tx', rx')
    \<and> mbc_bytes_done tx' = 100 \<and> mbx_req_list (snd rx') = [m] \<and> mbm_data m = replicate 100 5"
proof -
  let ?tx = "demo_chan False (Some demo_mbm)" and ?rx = "(demo_chan True None, demo_mbx)"
  have d: "mbm_data demo_mbm = replicate 100 5" "mbx_req_list (snd ?rx) = []"
    by (simp_all add: demo_mbm_def demo_mbx_def)
  obtain n tx' rx' m where "xfer n 5 ?tx ?rx = Some (tx', rx')" "mbc_bytes_done tx' = length (mbm_data demo_mbm)"
    "mbx_req_list (snd rx') = mbx_req_list (snd ?rx) @ [m]" "mbm_data m = mbm_data demo_mbm"
    using mailbox_round_trip [of ?tx demo_mbm ?rx 5]
    by (auto simp: demo_chan_def demo_mbm_def demo_mbx_def sendable_def takes_request_def rx_inv_def rx_open_def
        msg_ok_def valid_pkt_def)
  then show ?thesis unfolding d by (intro exI [of _ n] exI [of _ tx'] exI [of _ rx'] exI [of _ m]) simp
qed

end
