(* ===== verification/Spec2Isabelle.thy ===== *)
theory Spec2Isabelle
  imports Xgq_Spec Kds_Config Cu_Subdev Xocl_Xgq Xclbin Kds_Layout Ert_Sched Mailbox
begin

text \<open>
  Verification of the command path of the XRT kernel drivers and of the embedded scheduler.

  \<^bold>\<open>The program.\<close> XRT runs kernels (compute units, CUs) on accelerator cards. A process fills a
  packet in a shared buffer (\<open>core/include/ert.h\<close>). The driver checks it, turns it into a
  \<open>kds_command\<close> (\<open>core/common/drv/kds_core.c\<close>) and gives it to a CU that the client has opened. A
  thread of that CU (\<open>xrt_cu.c\<close>) moves the command through its queues, configures and starts the
  hardware through a table of functions (\<open>cu_hls.c\<close> or \<open>fast_adapter.c\<close>), and reports the command when
  the hardware is done. Commands that another processor handles are rewritten (\<open>xgq_execbuf.c\<close>) and
  pass through a pair of ring queues in device memory (\<open>core/include/xgq_impl.h\<close>). On the card the
  embedded scheduler (ERT, \<open>ert/scheduler\<close>) serves these queues: it copies the arguments of a command
  into the registers of its CU, starts it and answers when it is done. All paths below are relative to
  \<open>src/src/runtime_src/core\<close>, those of the firmware to \<open>src/src/runtime_src\<close>.

  \<^bold>\<open>The theories.\<close>

  \<^item> \<open>Prelude\<close>: machine words, error codes, result types, and shared lemmas.

  \<^item> \<open>Xgq\<close>: \<open>include/xgq_impl.h\<close>. The shared memory is a function from addresses to words; every
    function takes and returns it. \<open>Xgq_Fifo\<close> has the locale of a bounded FIFO between a producer
    and a consumer and proves that the rings are one. \<open>Xgq_Setup\<close> is about allocation and attachment.
    \<open>Xgq_Spec\<close> has the properties: the pair of rings between two processes is two FIFOs for every
    interleaving; sizes; what an attaching process can rely on; double reads.

  \<^item> \<open>Ert\<close>: \<open>include/ert.h\<close>. Bit fields, \<open>ert_valid_opcode\<close>, positions of the parts of a packet,
    time stamps, the copy packet.

  \<^item> \<open>Kds_Command\<close>: \<open>common/drv/include/kds_command.h\<close>, \<open>xgq_execbuf.c\<close> and the conversions at the
    end of \<open>kds_core.c\<close>. Valid packets are converted without a fault; where a converted entry does
    not fit its buffer is a theorem as well.

  \<^item> \<open>Xrt_Cu\<close>: \<open>common/drv/xrt_cu.c\<close> and \<open>xrt_cu.h\<close>. A command is an address into a heap; the queues
    are lists of addresses; \<open>kenv\<close> is the heap with the clock and the record of what was reported
    and freed. The functions take the table of the CU's functions, as in the code.

  \<^item> \<open>Cu_Contract\<close>: the locale of what \<open>xrt_cu.c\<close> needs from such a table, the runs of a CU (any
    order of submissions, thread passes, interrupts, timers and aborts) and the invariant that no
    command is lost. \<open>Cu_Hls\<close> (\<open>cu_hls.c\<close>) and \<open>Fast_Adapter\<close> (\<open>fast_adapter.c\<close>) model the two
    tables, interpret the locale with them and state the properties: nothing is lost or reported
    twice, order, the work returns, and which packets the hardware can be configured with.

  \<^item> \<open>Kds_Client\<close>: \<open>kds_hwctx.c\<close>, \<open>kds_client.h\<close> and the reference counts of \<open>kds_core.c\<close>: contexts of
    a client and their lookup.

  \<^item> \<open>Kds_Core\<close>: the tables of CUs, opening and closing contexts, and the choice of a CU for a
    command (\<open>kds_core.c\<close>). The reference word of a CU is right after every sequence of calls,
    exclusive use excludes, a command gets the least used CU; a context opened twice leaks.

  \<^item> \<open>Kds_Submit\<close>: \<open>kds_add_command\<close> and what it calls. A command is handed over once or reported
    once; an abort ends at the first busy CU.

  \<^item> \<open>Kds_Config\<close>: the rest of the management of CUs in \<open>kds_core.c\<close>: command memory, interrupts, threads,
    polling. The windows of fast adapters do not overlap, \<open>round_up_to_next_power2\<close> is the least power
    of two, and after a successful update every CU is served.

  \<^item> \<open>Kds_Release\<close>: user-managed CUs and the end of a client. All contexts of an exiting client are freed,
    but a CU that was opened twice stays reserved.

  \<^item> \<open>Cu_Subdev\<close>: the interrupts of a user-managed CU in \<open>subdev/cu.c\<close>. In every run no event is lost, and the
    interrupt stays disabled until the user enables it again.

  \<^item> \<open>Xocl_Xgq\<close>: \<open>pcie/driver/linux/xocl/xocl_xgq.c\<close> and \<open>subdev/cu_xgq.c\<close>, the driver's side of a queue pair
    that several CUs share. Responses keep the order of every CU's commands and the check returns; a late
    response after an abort and the crash of another CU are attributed wrongly.

  \<^item> \<open>Xclbin\<close>: \<open>common/drv/xrt_xclbin.c\<close>, which reads the image with the bitstream and the sections.
    The parser of the bitstream header gives back what a header of the format holds and accepts only
    well-formed headers, but reads beyond a truncated one; a section is returned only if it lies
    inside the image.

  \<^item> \<open>Kds_Layout\<close>: the functions of \<open>kds_core.c\<close> that number the CUs of an IP layout. The insertion
    loop over the array is a sort; duplicates corrupt it.

  \<^item> \<open>Ert_Cu\<close>: \<open>ert/scheduler/sched_cmd.h\<close>, \<open>sched_cu.h\<close> and \<open>xgq_cu.c\<close>, the firmware's handler of a CU's queue.
    A start packet of the host reaches the registers of the CU word by word; the counter of running
    commands is right except for rejected commands, each of which makes it one too small; while it is
    right a finished command is answered; when the wait for room in the completion ring ends.

  \<^item> \<open>Ert_Sched\<close>: \<open>ert/scheduler/sched.c\<close> and \<open>xgq_ctrl.c\<close>, the control commands and the scheduler loop. Supported
    control commands are answered once, the queues do not overlap; an unsupported command blocks the
    control queue, and the checks on CU indices do not protect the arrays.

  \<^item> \<open>Mailbox\<close>: the transport of \<open>pcie/driver/linux/xocl/subdev/mailbox.c\<close> between the two PCIe functions. A message
    arrives as it was sent; whatever packets a peer sends, only the buffer of the message is written,
    but a packet that claims too much payload is read beyond its end.

  \<^bold>\<open>State, errors, time.\<close> Structures are records with the fields of the code, \<open>int\<close> is unbounded
    where it is a small counter, unsigned types are words. Locks are not modelled: a function that
    holds a lock is one step. What other threads or the hardware do in the middle of a function is
    an argument of it, so theorems hold for all their behaviours. \<open>None\<close> is an access outside an
    object, a null pointer, or a wait without end.

  \<^bold>\<open>Termination.\<close> No fuel is used where a claim is that the code returns: loops are structural or
    have a measure. A loop that waits for another party is \<open>partial_function (option)\<close>; it returns
    exactly when the sequence of values it reads allows it.

  \<^bold>\<open>Parameters.\<close> The registers of a CU (an operation on a hardware state), the clock, the results of
    allocations, and the functions of the ERT are not in these files; they are arguments.

  \<^bold>\<open>Not modelled.\<close> The functions that only print (sysfs) or only free memory and locks. The ioctl layer
    \<open>userpf\<close>, the management driver, the subdevices of single hardware blocks (except the interrupts
    of \<open>subdev/cu.c\<close>, \<open>subdev/cu_xgq.c\<close> and the transport of the mailbox), the DMA libraries, the edge driver, and the schedulers of older shells, which do not use
    the queues (\<open>scheduler.cpp\<close>, \<open>scheduler_v30.cpp\<close>, \<open>sched_hw_emu.c\<close>): they are mostly calls into the kernel or register access. The user-space runtime in C++ is above the
    interface that is verified here.
\<close>

end
